(* ===== verification/Prelude.thy ===== *)
theory Prelude
  imports Main "HOL-Library.Word"
begin

text \<open>
  What the other theories share: the machine word types of the code, the result type of an
  operation (a value, still waiting, or a memory fault), the state monad the operations are
  written in with its symbolic execution rules, a small weakest precondition calculus over
  it, and generic lemmas on lists and words.
\<close>

unbundle bit_operations_syntax

section \<open>Types and lemma collections\<close>

type_synonym u8 = "8 word"
type_synonym u16 = "16 word"
type_synonym u32 = "32 word"
type_synonym u64 = "64 word"

text \<open>Addresses of the 32 bit target; \<open>0\<close> is the \<open>NULL\<close> of \<open>flexpret_const.h\<close>.\<close>

type_synonym addr = "32 word"

abbreviation (input) NULL :: addr where
  "NULL \<equiv> 0"

named_theorems os_run "definitions unfolded to execute an operation symbolically"
named_theorems os_wp "weakest precondition rules"

section \<open>Results of operations\<close>

text \<open>
  An operation returns a value in a new state, or is still polling when the given schedule
  of outside events ends, or makes an access that C leaves undefined.
\<close>

datatype fault = Bad_Index | Null_Deref | Bad_Shift

datatype ('a, 's) result = Ret 'a 's | Blocked 's | Fault fault

abbreviation (input) ret :: "'a \<Rightarrow> 's \<Rightarrow> ('a, 's) result" where
  "ret \<equiv> Ret"

definition bnd :: "('s \<Rightarrow> ('a, 's) result) \<Rightarrow> ('a \<Rightarrow> 's \<Rightarrow> ('b, 's) result) \<Rightarrow> 's \<Rightarrow> ('b, 's) result" where
  "bnd m f s = (case m s of Ret a t \<Rightarrow> f a t | Blocked t \<Rightarrow> Blocked t | Fault e \<Rightarrow> Fault e)"

definition seqm :: "('s \<Rightarrow> ('a, 's) result) \<Rightarrow> ('s \<Rightarrow> ('b, 's) result) \<Rightarrow> 's \<Rightarrow> ('b, 's) result" where
  "seqm m k = bnd m (\<lambda>_. k)"

definition gets :: "('s \<Rightarrow> 'a) \<Rightarrow> 's \<Rightarrow> ('a, 's) result" where
  "gets f s = Ret (f s) s"

definition modify :: "('s \<Rightarrow> 's) \<Rightarrow> 's \<Rightarrow> (unit, 's) result" where
  "modify f s = Ret () (f s)"

definition require :: "bool \<Rightarrow> fault \<Rightarrow> 's \<Rightarrow> (unit, 's) result" where
  "require P e s = (if P then Ret () s else Fault e)"

definition whenm :: "bool \<Rightarrow> ('s \<Rightarrow> (unit, 's) result) \<Rightarrow> 's \<Rightarrow> (unit, 's) result" where
  "whenm b m = (if b then m else ret ())"

text \<open>A \<open>for\<close> loop over a list of index values.\<close>

primrec for_each :: "'i list \<Rightarrow> ('i \<Rightarrow> 's \<Rightarrow> (unit, 's) result) \<Rightarrow> 's \<Rightarrow> (unit, 's) result" where
  "for_each [] body = ret ()"
| "for_each (i # is) body = seqm (body i) (for_each is body)"

subsection \<open>Symbolic execution\<close>

lemma gets_app [simp]: "gets f s = Ret (f s) s"
  by (simp add: gets_def)

lemma modify_app [simp]: "modify f s = Ret () (f s)"
  by (simp add: modify_def)

lemma bnd_Ret [simp]: "m s = Ret a t \<Longrightarrow> bnd m f s = f a t"
  by (simp add: bnd_def)

lemma bnd_Fault [simp]: "m s = Fault e \<Longrightarrow> bnd m f s = Fault e"
  by (simp add: bnd_def)

lemma bnd_Blocked [simp]: "m s = Blocked t \<Longrightarrow> bnd m f s = Blocked t"
  by (simp add: bnd_def)

lemma seqm_Ret [simp]: "m s = Ret a t \<Longrightarrow> seqm m k s = k t"
  by (simp add: seqm_def)

lemma seqm_Fault [simp]: "m s = Fault e \<Longrightarrow> seqm m k s = Fault e"
  by (simp add: seqm_def)

lemma seqm_Blocked [simp]: "m s = Blocked t \<Longrightarrow> seqm m k s = Blocked t"
  by (simp add: seqm_def)

lemma require_True [simp]: "P \<Longrightarrow> require P e s = Ret () s"
  by (simp add: require_def)

lemma require_False [simp]: "\<not> P \<Longrightarrow> require P e s = Fault e"
  by (simp add: require_def)

lemma whenm_True [simp]: "b \<Longrightarrow> whenm b m = m"
  by (simp add: whenm_def)

lemma whenm_False [simp]: "\<not> b \<Longrightarrow> whenm b m = ret ()"
  by (simp add: whenm_def)

text \<open>
  The conditional rules above suit short runs and unknown parts; for a long run it is
  faster to remove them and unfold the two combinators.
\<close>

lemmas exec_eqs = bnd_def seqm_def
lemmas exec_conds = bnd_Ret bnd_Fault bnd_Blocked seqm_Ret seqm_Fault seqm_Blocked

lemma bnd_eq_Ret_iff:
  "bnd m f s = Ret b u \<longleftrightarrow> (\<exists>a t. m s = Ret a t \<and> f a t = Ret b u)"
  by (auto simp: bnd_def split: result.splits)

lemma seqm_eq_Ret_iff:
  "seqm m k s = Ret b u \<longleftrightarrow> (\<exists>a t. m s = Ret a t \<and> k t = Ret b u)"
  by (simp add: seqm_def bnd_eq_Ret_iff)

lemma require_eq_Ret_iff [simp]: "require P e s = Ret a t \<longleftrightarrow> P \<and> t = s"
  by (auto simp: require_def)

lemma bnd_assoc: "bnd (bnd m f) g = bnd m (\<lambda>a. bnd (f a) g)"
  by (rule ext) (simp add: bnd_def split: result.splits)

lemma bnd_ret_right: "bnd m ret = m"
  by (rule ext) (simp add: bnd_def split: result.splits)

text \<open>A loop whose body always returns computes the fold of the body's state change.\<close>

lemma for_each_fold:
  assumes "\<And>i t. i \<in> set is \<Longrightarrow> body i t = Ret () (f i t)"
  shows "for_each is body s = Ret () (fold f is s)"
  using assms by (induction "is" arbitrary: s) simp_all

subsection \<open>Weakest preconditions\<close>

text \<open>
  \<open>wp m Q s\<close>: from \<open>s\<close> the operation makes no undefined access and, if it returns,
  returns with \<open>Q\<close>; \<open>twp\<close> asks for the return as well.
\<close>

definition wp :: "('s \<Rightarrow> ('a, 's) result) \<Rightarrow> ('a \<Rightarrow> 's \<Rightarrow> bool) \<Rightarrow> 's \<Rightarrow> bool" where
  "wp m Q s \<longleftrightarrow> (case m s of Ret a t \<Rightarrow> Q a t | Blocked t \<Rightarrow> True | Fault e \<Rightarrow> False)"

definition twp :: "('s \<Rightarrow> ('a, 's) result) \<Rightarrow> ('a \<Rightarrow> 's \<Rightarrow> bool) \<Rightarrow> 's \<Rightarrow> bool" where
  "twp m Q s \<longleftrightarrow> (\<exists>a t. m s = Ret a t \<and> Q a t)"

lemma wp_ret [os_wp]: "wp (ret a) Q s = Q a s"
  by (simp add: wp_def)

lemma wp_gets [os_wp]: "wp (gets f) Q s = Q (f s) s"
  by (simp add: wp_def)

lemma wp_modify [os_wp]: "wp (modify f) Q s = Q () (f s)"
  by (simp add: wp_def)

lemma wp_require [os_wp]: "wp (require P e) Q s = (P \<and> Q () s)"
  by (simp add: wp_def require_def)

lemma wp_bnd [os_wp]: "wp (bnd m f) Q s = wp m (\<lambda>a. wp (f a) Q) s"
  by (simp add: wp_def bnd_def split: result.splits)

lemma wp_seqm [os_wp]: "wp (seqm m k) Q s = wp m (\<lambda>_. wp k Q) s"
  by (simp add: seqm_def wp_bnd)

lemma wp_if [os_wp]: "wp (if b then m else k) Q s = (if b then wp m Q s else wp k Q s)"
  by simp

lemma wp_whenm [os_wp]: "wp (whenm b m) Q s = (if b then wp m Q s else Q () s)"
  by (simp add: whenm_def wp_ret)

lemma wp_mono: "wp m Q s \<Longrightarrow> (\<And>a t. Q a t \<Longrightarrow> R a t) \<Longrightarrow> wp m R s"
  by (auto simp: wp_def split: result.splits)

lemma wp_RetD: "wp m Q s \<Longrightarrow> m s = Ret a t \<Longrightarrow> Q a t"
  by (simp add: wp_def)

lemma twp_imp_wp: "twp m Q s \<Longrightarrow> wp m Q s"
  by (auto simp: twp_def wp_def)

lemma twp_bnd: "twp m (\<lambda>a. twp (f a) Q) s \<Longrightarrow> twp (bnd m f) Q s"
  by (auto simp: twp_def)

text \<open>The invariant rule for \<open>for\<close> loops.\<close>

lemma wp_for_each:
  assumes "\<And>i t. i \<in> set is \<Longrightarrow> I t \<Longrightarrow> wp (body i) (\<lambda>_. I) t" and "I s"
  shows "wp (for_each is body) (\<lambda>_. I) s"
  using assms
proof (induction "is" arbitrary: s)
  case Nil
  then show ?case by (simp add: wp_ret)
next
  case (Cons i "is")
  have "wp (body i) (\<lambda>_. I) s"
    using Cons.prems by simp
  then have "wp (body i) (\<lambda>_. wp (for_each is body) (\<lambda>_. I)) s"
    by (rule wp_mono) (use Cons in simp)
  then show ?case by (simp add: wp_seqm)
qed

section \<open>Lists\<close>

lemma upt_8: "[0..<8] = [0, 1, 2, 3, 4, 5, 6, 7 :: nat]"
  by (simp add: upt_rec)

lemma less_8_cases:
  fixes i :: nat
  shows "i < 8 \<longleftrightarrow> i = 0 \<or> i = 1 \<or> i = 2 \<or> i = 3 \<or> i = 4 \<or> i = 5 \<or> i = 6 \<or> i = 7"
  by arith

lemma length_8_expand:
  "length xs = 8 \<Longrightarrow> xs = [xs ! 0, xs ! 1, xs ! 2, xs ! 3, xs ! 4, xs ! 5, xs ! 6, xs ! 7]"
  by (rule nth_equalityI) (auto simp: less_8_cases)

section \<open>Words\<close>

lemma word_less_unat_numeral [simp]:
  fixes x :: u32
  shows "unat x < 8 \<longleftrightarrow> x < 8"
  by (simp add: word_less_nat_alt)

lemma u32_less_8_cases:
  fixes t :: u32
  assumes "t < 8"
  shows "t = 0 \<or> t = 1 \<or> t = 2 \<or> t = 3 \<or> t = 4 \<or> t = 5 \<or> t = 6 \<or> t = 7"
proof -
  have "unat t < 8" using assms by simp
  then show ?thesis
    by (simp only: less_8_cases) (simp add: word_unat_eq_iff)
qed

text \<open>The sign bit of a 32 bit word, and negation.\<close>

lemma bit_31_iff: "bit (x :: u32) 31 \<longleftrightarrow> 0x80000000 \<le> x"
proof -
  have b: "bit x 31 \<longleftrightarrow> odd (uint x div 2147483648)"
  proof -
    have "bit x 31 \<longleftrightarrow> bit (uint x) 31"
      by (simp add: bit_uint_iff)
    then show ?thesis by (simp add: bit_iff_odd)
  qed
  have l: "0 \<le> uint x" "uint x < 4294967296"
    using uint_lt2p [of x] by simp_all
  show ?thesis
  proof (cases "2147483648 \<le> uint x")
    case True
    with l have "uint x div 2147483648 = 1"
      by (intro int_div_pos_eq [where r = "uint x - 2147483648"]) simp_all
    with b True show ?thesis by (simp add: word_le_def)
  next
    case False
    with b l show ?thesis by (simp add: word_le_def)
  qed
qed

lemma uint_neg: "0 < n \<Longrightarrow> uint (- n :: u32) = 4294967296 - uint n"
  using uint_lt2p [of n] by (simp add: uint_word_ariths(4) zmod_zminus1_eq_if word_less_def)

lemma bit_31_neg: "0 < n \<Longrightarrow> n \<le> 0x80000000 \<Longrightarrow> bit (- n :: u32) 31"
  by (simp add: bit_31_iff word_le_def uint_neg)

end
