(* ===== verification/Machine.thy ===== *)
theory Machine
  imports Prelude
begin

text \<open>
  The state every component works on: the control and status registers that
  \<^verbatim>\<open>flexpret_encoding.h\<close> reads and writes (with the widths and side effects
  of \<^verbatim>\<open>src/Core/csr.scala\<close>), the global variables of the operating system, and the
  world of one running hardware thread (its \<^verbatim>\<open>hartid\<close> and the schedule of outside events).
  Configuration: \<^verbatim>\<open>FLEXPRET_HW_THREADS_NUMS = 8\<close>, \<^verbatim>\<open>FLEXPRET_DSPM_SIZE = 64\<close>, the
  defaults of \<^verbatim>\<open>flexpret_config.h\<close>.
\<close>

section \<open>Configuration and constants\<close>

abbreviation (input) FLEXPRET_HW_THREADS_NUMS :: nat where
  "FLEXPRET_HW_THREADS_NUMS \<equiv> 8"

abbreviation (input) FLEXPRET_MAX_HW_THREADS_NUMS :: nat where
  "FLEXPRET_MAX_HW_THREADS_NUMS \<equiv> 8"

abbreviation (input) FLEXPRET_MUTEX_MAX_NUM :: nat where
  "FLEXPRET_MUTEX_MAX_NUM \<equiv> 8"

definition FLEXPRET_FREQ :: u32 where
  "FLEXPRET_FREQ = 100000000"

definition FLEXPRET_WAIT_PERIOD :: u32 where
  "FLEXPRET_WAIT_PERIOD = 10000"

text \<open>Slot values (\<^verbatim>\<open>uint8_t\<close> entries of a slot array).\<close>

abbreviation (input) SLOT_S :: u8 where
  "SLOT_S \<equiv> 14"

abbreviation (input) SLOT_D :: u8 where
  "SLOT_D \<equiv> 15"

text \<open>Thread modes: the four values of the register, and the partial changes.\<close>

abbreviation (input) TMODE_HA :: int where
  "TMODE_HA \<equiv> 0"

abbreviation (input) TMODE_HZ :: int where
  "TMODE_HZ \<equiv> 1"

abbreviation (input) TMODE_SA :: int where
  "TMODE_SA \<equiv> 2"

abbreviation (input) TMODE_SZ :: int where
  "TMODE_SZ \<equiv> 3"

abbreviation (input) TMODE_HARD :: int where
  "TMODE_HARD \<equiv> 4"

abbreviation (input) TMODE_SOFT :: int where
  "TMODE_SOFT \<equiv> 5"

abbreviation (input) TMODE_ACTIVE :: int where
  "TMODE_ACTIVE \<equiv> 6"

abbreviation (input) TMODE_ZOMBIE :: int where
  "TMODE_ZOMBIE \<equiv> 7"

text \<open>Priorities are C enum values; callers may pass any of them.\<close>

abbreviation (input) osPriorityNormal :: int where
  "osPriorityNormal \<equiv> 24"

abbreviation (input) osPriorityRealtime :: int where
  "osPriorityRealtime \<equiv> 48"

abbreviation (input) osPriorityError :: int where
  "osPriorityError \<equiv> - 1"

abbreviation osWaitForever :: u32 where
  "osWaitForever \<equiv> 0xFFFFFFFF"

abbreviation (input) osThreadDetached :: u32 where
  "osThreadDetached \<equiv> 0"

abbreviation (input) osThreadJoinable :: u32 where
  "osThreadJoinable \<equiv> 1"

abbreviation (input) osMutexRecursive :: u32 where
  "osMutexRecursive \<equiv> 1"

abbreviation (input) osMutexPrioInherit :: u32 where
  "osMutexPrioInherit \<equiv> 2"

abbreviation (input) osMutexRobust :: u32 where
  "osMutexRobust \<equiv> 8"

datatype osStatus_t = osOK | osError | osErrorTimeout | osErrorResource | osErrorParameter
  | osErrorNoMemory | osErrorISR

datatype osThreadState_t = osThreadInactive | osThreadReady | osThreadRunning | osThreadBlocked
  | osThreadTerminated | osThreadError

datatype osKernelState_t = osKernelInactive | osKernelReady | osKernelRunning | osKernelLocked
  | osKernelSuspended | osKernelError

text \<open>The numeric value of a status; CMSIS orders them, errors being negative.\<close>

fun status_code :: "osStatus_t \<Rightarrow> int" where
  "status_code osOK = 0"
| "status_code osError = -1"
| "status_code osErrorTimeout = -2"
| "status_code osErrorResource = -3"
| "status_code osErrorParameter = -4"
| "status_code osErrorNoMemory = -5"
| "status_code osErrorISR = -6"

instantiation osStatus_t :: linorder
begin

definition less_eq_osStatus_t :: "osStatus_t \<Rightarrow> osStatus_t \<Rightarrow> bool" where
  "less_eq_osStatus_t a b \<longleftrightarrow> status_code a \<le> status_code b"

definition less_osStatus_t :: "osStatus_t \<Rightarrow> osStatus_t \<Rightarrow> bool" where
  "less_osStatus_t a b \<longleftrightarrow> status_code a < status_code b"

instance
proof
  fix a b c :: osStatus_t
  show "(a < b) = (a \<le> b \<and> \<not> b \<le> a)"
    by (auto simp: less_eq_osStatus_t_def less_osStatus_t_def)
  show "a \<le> a" "a \<le> b \<or> b \<le> a" "a \<le> b \<Longrightarrow> b \<le> c \<Longrightarrow> a \<le> c"
    by (auto simp: less_eq_osStatus_t_def)
  show "a \<le> b \<Longrightarrow> b \<le> a \<Longrightarrow> a = b"
    by (cases a; cases b) (simp_all add: less_eq_osStatus_t_def)
qed

end

lemma status_neg_iff: "a < osOK \<longleftrightarrow> a \<noteq> osOK"
  by (cases a) (simp_all add: less_osStatus_t_def)

section \<open>Control blocks\<close>

datatype hwthread_state_type = FLEXPRET_INACTIVE | FLEXPRET_ACTIVE | FLEXPRET_BLOCKED
  | FLEXPRET_TERMINATED

record hwthread_state =
  th_func :: addr
  th_state :: hwthread_state_type
  th_arg :: addr
  th_stack_address :: addr

text \<open>
  An attribute object is one of the static array \<^verbatim>\<open>flexpret_thread_attr\<close> or one the
  application passes by pointer and keeps owning; both are shared through the pointer.
  C strings that are only passed around are \<open>string option\<close>, \<open>None\<close> for \<^verbatim>\<open>NULL\<close>.
\<close>

datatype attr_ref = Attr_static nat | Attr_user nat

record osThreadAttr_t =
  at_name :: "string option"
  at_attr_bits :: u32
  at_cb_mem :: addr
  at_cb_size :: u32
  at_stack_mem :: addr
  at_stack_size :: u32
  at_priority :: int
  at_tz_module :: u32
  at_reserved :: u32

record osTimerAttr_t =
  ta_name :: "string option"
  ta_attr_bits :: u32
  ta_cb_mem :: addr
  ta_cb_size :: u32

record osMutexAttr_t =
  ma_name :: "string option"
  ma_attr_bits :: u32
  ma_cb_mem :: addr
  ma_cb_size :: u32

text \<open>
  The mutex control block. The four \<^verbatim>\<open>unsigned char\<close> flags only ever hold 0 or 1
  (the code writes constants or \<^verbatim>\<open>!!e\<close>). \<^verbatim>\<open>count\<close> is a 32 bit \<^verbatim>\<open>int\<close>.
\<close>

record mutex_state =
  mu_owner :: addr
  mu_name :: "string option"
  mu_csr_addr :: nat
  mu_count :: u32
  mu_ifRecursive :: bool
  mu_ifRobust :: bool
  mu_active :: bool
  mu_ifSpin :: bool

record hwtimer_state =
  tm_ticks :: u32
  tm_func :: addr
  tm_type :: int
  tm_arg :: addr

datatype trap_handler = H_NULL | H_default_ie | H_default_ee | H_default_int | H_default_fault
  | H_timer | H_timer_periodic | H_user nat

section \<open>The machine\<close>

datatype timer_mode = TIMER_OFF | TIMER_DU_WU | TIMER_IE | TIMER_EE

text \<open>
  Fixed-size C arrays are functions from the index; every access of the code with an index
  that is not a loop counter is guarded by \<open>idx\<close> below, so an access out of range is a
  fault. \<open>timer_base\<close>, \<open>mutex_base\<close> and \<open>bss_end_addr\<close> are the addresses the linker
  gives \<^verbatim>\<open>startup_timer_state\<close>, \<^verbatim>\<open>startup_mutex_state\<close> and \<^verbatim>\<open>bss_end\<close>; \<open>gpo_width\<close> is
  \<^verbatim>\<open>gpoPortSizes\<close> of the hardware. No operation changes these. \<open>csr_ie\<close> is the interrupt enable
  bit of the status register, \<open>csr_mtfd\<close> the deadline register, \<open>csr_cycle\<close> and \<open>csr_instret\<close> the 64
  bit counters.
\<close>

record machine =
  csr_slots :: u32
  csr_tmodes :: u16
  csr_time :: u32
  csr_compare :: "nat \<Rightarrow> u32"
  csr_timer :: "nat \<Rightarrow> timer_mode"
  csr_cause :: "nat \<Rightarrow> u32"
  csr_ie :: "nat \<Rightarrow> bool"
  csr_mtfd :: "nat \<Rightarrow> u32"
  csr_cycle :: "nat \<Rightarrow> u64"
  csr_instret :: "nat \<Rightarrow> u64"
  csr_tohost :: u32
  csr_mutex :: "nat \<Rightarrow> 4 word"
  csr_gpi :: "nat \<Rightarrow> u32"
  csr_gpo :: "nat \<Rightarrow> u32"
  gpo_width :: "nat \<Rightarrow> nat"
  timer_base :: addr
  mutex_base :: addr
  bss_end_addr :: addr
  startup_state :: "nat \<Rightarrow> hwthread_state"
  thread_attr :: "attr_ref \<Rightarrow> osThreadAttr_t"
  thread_attr_entry :: "nat \<Rightarrow> attr_ref option"
  flexpret_thread_num :: nat
  default_soft_slot_id :: int
  startup_timer_state :: "nat \<Rightarrow> hwtimer_state"
  timer_attr :: "attr_ref \<Rightarrow> osTimerAttr_t"
  timer_attr_entry :: "nat \<Rightarrow> attr_ref option"
  trap_handler_vector :: "nat \<Rightarrow> nat \<Rightarrow> trap_handler"
  startup_mutex_state :: "nat \<Rightarrow> mutex_state"
  flexpret_mutex_num :: nat
  slot_mutex :: "nat option"
  kernel_state :: osKernelState_t
  qbuf :: "nat \<Rightarrow> string"
  emulator_out :: string

text \<open>Default stacks, from \<^verbatim>\<open>src/os/src/flexpret_threads.c\<close> and \<^verbatim>\<open>asm/startup.S\<close>.\<close>

definition flexpret_thread_init_stack_addr :: "addr list" where
  "flexpret_thread_init_stack_addr =
     [0x20003BFC, 0x200057FC, 0x200073FC, 0x20008FFC, 0x2000ABFC, 0x2000C7FC, 0x2000E3FC, 0x2000FFFC]"

lemma length_init_stack_addr [simp]: "length flexpret_thread_init_stack_addr = 8"
  by (simp add: flexpret_thread_init_stack_addr_def)

text \<open>
  The state in which hardware thread 0 enters \<^verbatim>\<open>main\<close>: the registers at reset (those
  \<^verbatim>\<open>csr.scala\<close> gives no reset value read 0 here; interrupts enabled, which every thread does in
  \<^verbatim>\<open>startup.S\<close> before it runs C code), the initialised data of \<^verbatim>\<open>startup.S\<close>,
  \<^verbatim>\<open>trap.S\<close> and the C files, and cleared \<^verbatim>\<open>.bss\<close>. The addresses are arguments.
\<close>

definition boot_machine :: "addr \<Rightarrow> addr \<Rightarrow> addr \<Rightarrow> addr \<Rightarrow> machine" where
  "boot_machine main_addr timer_addr mutex_addr bss_end =
    \<lparr>csr_slots = 0x0FFFFFFF, csr_tmodes = 0x5554, csr_time = 0, csr_compare = (\<lambda>_. 0),
     csr_timer = (\<lambda>_. TIMER_OFF), csr_cause = (\<lambda>_. 0),
     csr_ie = (\<lambda>_. True), csr_mtfd = (\<lambda>_. 0), csr_cycle = (\<lambda>_. 0), csr_instret = (\<lambda>_. 0), csr_tohost = 0, csr_mutex = (\<lambda>_. 0),
     csr_gpi = (\<lambda>_. 0), csr_gpo = (\<lambda>_. 0), gpo_width = (\<lambda>_. 2),
     timer_base = timer_addr, mutex_base = mutex_addr, bss_end_addr = bss_end,
     startup_state = (\<lambda>t. \<lparr>th_func = (if t = 0 then main_addr else NULL),
       th_state = FLEXPRET_INACTIVE, th_arg = NULL,
       th_stack_address = (if t < 8 then flexpret_thread_init_stack_addr ! t else NULL)\<rparr>),
     thread_attr = (\<lambda>_. \<lparr>at_name = None, at_attr_bits = 0, at_cb_mem = NULL, at_cb_size = 0,
       at_stack_mem = NULL, at_stack_size = 0, at_priority = 0, at_tz_module = 0,
       at_reserved = 0\<rparr>),
     thread_attr_entry = (\<lambda>_. None), flexpret_thread_num = 1, default_soft_slot_id = - 1,
     startup_timer_state = (\<lambda>_. \<lparr>tm_ticks = 0, tm_func = NULL, tm_type = 0, tm_arg = NULL\<rparr>),
     timer_attr = (\<lambda>_. \<lparr>ta_name = None, ta_attr_bits = 0, ta_cb_mem = NULL, ta_cb_size = 0\<rparr>),
     timer_attr_entry = (\<lambda>_. None),
     trap_handler_vector = (\<lambda>_ k. [H_default_ie, H_default_ee, H_default_int, H_default_fault] ! k),
     startup_mutex_state = (\<lambda>_. \<lparr>mu_owner = NULL, mu_name = None, mu_csr_addr = 0, mu_count = 0,
       mu_ifRecursive = False, mu_ifRobust = False, mu_active = False, mu_ifSpin = False\<rparr>),
     flexpret_mutex_num = 0, slot_mutex = None, kernel_state = osKernelInactive,
     qbuf = (\<lambda>_. replicate 9 (CHR 0x00)), emulator_out = []\<rparr>"

section \<open>Control and status registers\<close>

text \<open>
  The registers the C code names, by the meaning \<^verbatim>\<open>flexpret_encoding.h\<close> gives the
  borrowed names (\<^verbatim>\<open>badvaddr\<close>, \<^verbatim>\<open>ptbr\<close>, \<^verbatim>\<open>fflags\<close>, \<^verbatim>\<open>uarch0\<close> to \<^verbatim>\<open>uarch15\<close>).
\<close>

datatype csr = CSR_SLOTS | CSR_TMODES | CSR_CLOCK | CSR_COMPARE | CSR_HARTID | CSR_CAUSE
  | CSR_GPI nat | CSR_GPO nat | CSR_MUTEX nat | CSR_CYCLE | CSR_CYCLEH | CSR_INSTRET | CSR_INSTRETH | CSR_TOHOST

fun read_csr :: "csr \<Rightarrow> nat \<Rightarrow> machine \<Rightarrow> u32" where
  "read_csr CSR_SLOTS h m = csr_slots m"
| "read_csr CSR_TMODES h m = ucast (csr_tmodes m)"
| "read_csr CSR_CLOCK h m = csr_time m"
| "read_csr CSR_COMPARE h m = 0"
| "read_csr CSR_HARTID h m = of_nat h"
| "read_csr CSR_CAUSE h m = csr_cause m h"
| "read_csr (CSR_GPI i) h m = csr_gpi m i"
| "read_csr (CSR_GPO i) h m = csr_gpo m i"
| "read_csr (CSR_MUTEX i) h m = ucast (csr_mutex m i)"
| "read_csr CSR_CYCLE h m = ucast (csr_cycle m h)"
| "read_csr CSR_CYCLEH h m = ucast (drop_bit 32 (csr_cycle m h))"
| "read_csr CSR_INSTRET h m = ucast (csr_instret m h)"
| "read_csr CSR_INSTRETH h m = ucast (drop_bit 32 (csr_instret m h))"
| "read_csr CSR_TOHOST h m = csr_tohost m"

fun write_csr :: "csr \<Rightarrow> nat \<Rightarrow> u32 \<Rightarrow> machine \<Rightarrow> machine" where
  "write_csr CSR_SLOTS h v m = m\<lparr>csr_slots := v\<rparr>"
| "write_csr CSR_TMODES h v m = m\<lparr>csr_tmodes := ucast v\<rparr>"
| "write_csr CSR_COMPARE h v m =
     m\<lparr>csr_compare := (csr_compare m)(h := v), csr_timer := (csr_timer m)(h := TIMER_OFF)\<rparr>"
| "write_csr (CSR_GPO i) h v m =
     m\<lparr>csr_gpo := (csr_gpo m)(i := take_bit (gpo_width m i) v)\<rparr>"
| "write_csr (CSR_MUTEX i) h v m = m\<lparr>csr_mutex := (csr_mutex m)(i := ucast v)\<rparr>"
| "write_csr CSR_TOHOST h v m = m\<lparr>csr_tohost := v\<rparr>"
| "write_csr r h v m = m"

definition swap_csr :: "csr \<Rightarrow> nat \<Rightarrow> u32 \<Rightarrow> machine \<Rightarrow> u32 \<times> machine" where
  "swap_csr r h v m = (read_csr r h m, write_csr r h v m)"

definition set_csr :: "csr \<Rightarrow> nat \<Rightarrow> u32 \<Rightarrow> machine \<Rightarrow> u32 \<times> machine" where
  "set_csr r h v m = (read_csr r h m, write_csr r h (read_csr r h m OR v) m)"

definition clear_csr :: "csr \<Rightarrow> nat \<Rightarrow> u32 \<Rightarrow> machine \<Rightarrow> u32 \<times> machine" where
  "clear_csr r h v m = (read_csr r h m, write_csr r h (read_csr r h m AND NOT v) m)"

section \<open>One running hardware thread\<close>

text \<open>
  \<open>hart\<close> is the number of the hardware thread that executes, \<open>sched\<close> what the rest of the
  system (other hardware threads, interrupt handlers, the clock) does at the successive
  points where this thread polls or sleeps, in order.
\<close>

record world =
  hart :: nat
  mach :: machine
  sched :: "(machine \<Rightarrow> machine) list"

type_synonym 'a os = "world \<Rightarrow> ('a, world) result"

definition rdm :: "(machine \<Rightarrow> 'a) \<Rightarrow> 'a os" where
  "rdm f = gets (\<lambda>w. f (mach w))"

definition upd :: "(machine \<Rightarrow> machine) \<Rightarrow> unit os" where
  "upd f = modify (\<lambda>w. w\<lparr>mach := f (mach w)\<rparr>)"

definition my_hart :: "nat os" where
  "my_hart = gets hart"

definition idx :: "nat \<Rightarrow> nat \<Rightarrow> unit os" where
  "idx i n = require (i < n) Bad_Index"

definition os_read_csr :: "csr \<Rightarrow> u32 os" where
  "os_read_csr r = gets (\<lambda>w. read_csr r (hart w) (mach w))"

definition os_write_csr :: "csr \<Rightarrow> u32 \<Rightarrow> unit os" where
  "os_write_csr r v = modify (\<lambda>w. w\<lparr>mach := write_csr r (hart w) v (mach w)\<rparr>)"

definition os_swap_csr :: "csr \<Rightarrow> u32 \<Rightarrow> u32 os" where
  "os_swap_csr r v w =
     (let (old, m) = swap_csr r (hart w) v (mach w) in Ret old (w\<lparr>mach := m\<rparr>))"

definition os_set_csr :: "csr \<Rightarrow> u32 \<Rightarrow> u32 os" where
  "os_set_csr r v w =
     (let (old, m) = set_csr r (hart w) v (mach w) in Ret old (w\<lparr>mach := m\<rparr>))"

definition os_clear_csr :: "csr \<Rightarrow> u32 \<Rightarrow> u32 os" where
  "os_clear_csr r v w =
     (let (old, m) = clear_csr r (hart w) v (mach w) in Ret old (w\<lparr>mach := m\<rparr>))"

text \<open>One outside event at a polling point; without one the thread is left waiting.\<close>

definition env_step :: "unit os" where
  "env_step w = (case sched w of [] \<Rightarrow> Blocked w
     | e # es \<Rightarrow> Ret () (w\<lparr>mach := e (mach w), sched := es\<rparr>))"

subsection \<open>Symbolic execution of the primitives\<close>

lemma rdm_app [simp]: "rdm f w = Ret (f (mach w)) w"
  by (simp add: rdm_def)

lemma upd_app [simp]: "upd f w = Ret () (w\<lparr>mach := f (mach w)\<rparr>)"
  by (simp add: upd_def)

lemma my_hart_app [simp]: "my_hart w = Ret (hart w) w"
  by (simp add: my_hart_def)

lemma idx_app [simp]: "i < n \<Longrightarrow> idx i n w = Ret () w"
  by (simp add: idx_def)

lemma idx_bad [simp]: "\<not> i < n \<Longrightarrow> idx i n w = Fault Bad_Index"
  by (simp add: idx_def)

lemma os_read_csr_app [simp]: "os_read_csr r w = Ret (read_csr r (hart w) (mach w)) w"
  by (simp add: os_read_csr_def)

lemma os_write_csr_app [simp]:
  "os_write_csr r v w = Ret () (w\<lparr>mach := write_csr r (hart w) v (mach w)\<rparr>)"
  by (simp add: os_write_csr_def)

lemma os_swap_csr_app [simp]:
  "os_swap_csr r v w = Ret (read_csr r (hart w) (mach w))
     (w\<lparr>mach := write_csr r (hart w) v (mach w)\<rparr>)"
  by (simp add: os_swap_csr_def swap_csr_def)

lemma os_set_csr_app [simp]:
  "os_set_csr r v w = Ret (read_csr r (hart w) (mach w))
     (w\<lparr>mach := write_csr r (hart w) (read_csr r (hart w) (mach w) OR v) (mach w)\<rparr>)"
  by (simp add: os_set_csr_def set_csr_def)

lemma os_clear_csr_app [simp]:
  "os_clear_csr r v w = Ret (read_csr r (hart w) (mach w))
     (w\<lparr>mach := write_csr r (hart w) (read_csr r (hart w) (mach w) AND NOT v) (mach w)\<rparr>)"
  by (simp add: os_clear_csr_def clear_csr_def)

lemma env_step_Nil [simp]: "sched w = [] \<Longrightarrow> env_step w = Blocked w"
  by (simp add: env_step_def)

lemma env_step_Cons [simp]:
  "sched w = e # es \<Longrightarrow> env_step w = Ret () (w\<lparr>mach := e (mach w), sched := es\<rparr>)"
  by (simp add: env_step_def)

lemma wp_rdm [os_wp]: "wp (rdm f) Q w = Q (f (mach w)) w"
  by (simp add: wp_def)

lemma wp_upd [os_wp]: "wp (upd f) Q w = Q () (w\<lparr>mach := f (mach w)\<rparr>)"
  by (simp add: wp_def)

lemma wp_my_hart [os_wp]: "wp my_hart Q w = Q (hart w) w"
  by (simp add: wp_def)

lemma wp_idx [os_wp]: "wp (idx i n) Q w = (i < n \<and> Q () w)"
  by (simp add: wp_def idx_def require_def)

end
