(* ===== verification/Io.thy ===== *)
theory Io
  imports Machine
begin

text \<open>
  \<^verbatim>\<open>src/os/src/flexpret_io.c\<close> and \<^verbatim>\<open>include/flexpret_io.h\<close>: the emulator's output port,
  the two number printers with their per-thread buffer \<^verbatim>\<open>qbuf\<close>, and the general purpose
  output and input ports.
\<close>

section \<open>Output\<close>

abbreviation NUL :: char where
  "NUL \<equiv> CHR 0x00"

text \<open>The characters the loop writes to the port: those before the terminator.\<close>

primrec output_loop :: "string \<Rightarrow> machine \<Rightarrow> machine" where
  "output_loop [] m = m"
| "output_loop (c # cs) m =
     (if c = NUL then m else output_loop cs (m\<lparr>emulator_out := emulator_out m @ [c]\<rparr>))"

definition emulator_outputstr :: "string option \<Rightarrow> unit os" where
  "emulator_outputstr str = (case str of None \<Rightarrow> ret () | Some s \<Rightarrow> upd (output_loop s))"

lemma output_loop_eq:
  "output_loop s m = m\<lparr>emulator_out := emulator_out m @ takeWhile (\<lambda>c. c \<noteq> NUL) s\<rparr>"
  by (induction s arbitrary: m) simp_all

section \<open>Printing numbers\<close>

definition hex_char :: "u32 \<Rightarrow> char" where
  "hex_char d = (let c = unat d + 48 in char_of (if 58 \<le> c then c + 7 else c))"

text \<open>\<^verbatim>\<open>for (i = 7; i >= 0; i--)\<close>: the argument is the number of positions left.\<close>

fun itoa_loop :: "nat \<Rightarrow> u32 \<Rightarrow> string \<Rightarrow> string" where
  "itoa_loop 0 n buf = buf"
| "itoa_loop (Suc i) n buf = itoa_loop i (drop_bit 4 n) (buf[i := hex_char (n AND 15)])"

text \<open>
  The C functions return a pointer into \<^verbatim>\<open>qbuf[tid]\<close>; the model returns the string it
  points to, which the callers use before the next conversion overwrites it.
\<close>

definition itoa_hex :: "u32 \<Rightarrow> string os" where
  "itoa_hex n =
     bnd my_hart (\<lambda>tid.
     seqm (idx tid FLEXPRET_HW_THREADS_NUMS)
     (bnd (rdm (\<lambda>m. (itoa_loop 8 n (qbuf m tid))[8 := NUL])) (\<lambda>buf.
     seqm (upd (\<lambda>m. m\<lparr>qbuf := (qbuf m)(tid := buf)\<rparr>))
     (ret (takeWhile (\<lambda>c. c \<noteq> NUL) buf)))))"

text \<open>\<^verbatim>\<open>for (i = 0; i < 7 && qbuf[tid][i] == '0'; i++)\<close>, from position \<open>i\<close>.\<close>

function skip_zeros :: "nat \<Rightarrow> string \<Rightarrow> nat" where
  "skip_zeros i buf = (if i < 7 \<and> buf ! i = CHR ''0'' then skip_zeros (Suc i) buf else i)"
  by pat_completeness auto
termination
  by (relation "measure (\<lambda>(i, buf). 7 - i)") auto

declare skip_zeros.simps [simp del]

definition itoa_hex_removing_ldz :: "u32 \<Rightarrow> string os" where
  "itoa_hex_removing_ldz n =
     bnd my_hart (\<lambda>tid.
     seqm (idx tid FLEXPRET_HW_THREADS_NUMS)
     (bnd (rdm (\<lambda>m. (itoa_loop 8 n (qbuf m tid))[8 := NUL])) (\<lambda>buf.
     seqm (upd (\<lambda>m. m\<lparr>qbuf := (qbuf m)(tid := buf)\<rparr>))
     (ret (takeWhile (\<lambda>c. c \<noteq> NUL) (drop (skip_zeros 0 buf) buf))))))"

subsection \<open>What the printers compute\<close>

fun hex_digits :: "nat \<Rightarrow> u32 \<Rightarrow> string" where
  "hex_digits 0 n = []"
| "hex_digits (Suc i) n = hex_digits i (drop_bit 4 n) @ [hex_char (n AND 15)]"

definition hex_digit_val :: "char \<Rightarrow> nat" where
  "hex_digit_val c = (let d = of_char c in if d \<le> 57 then d - 48 else d - 55)"

definition hex_val :: "string \<Rightarrow> nat" where
  "hex_val s = foldl (\<lambda>a c. 16 * a + hex_digit_val c) 0 s"

lemma length_hex_digits [simp]: "length (hex_digits i n) = i"
  by (induction i arbitrary: n) simp_all

lemma itoa_loop_digits:
  "i \<le> length buf \<Longrightarrow> itoa_loop i n buf = hex_digits i n @ drop i buf"
proof (induction i arbitrary: n buf)
  case 0
  then show ?case by simp
next
  case (Suc i)
  then have "drop i (buf[i := hex_char (n AND 15)]) = hex_char (n AND 15) # drop (Suc i) buf"
    by (simp add: drop_update_swap flip: Cons_nth_drop_Suc)
  with Suc show ?case by simp
qed

lemma unat_and_15: "unat ((n :: u32) AND 15) = unat n mod 16"
proof -
  have "n AND 15 = take_bit 4 n"
    by (simp add: take_bit_eq_mask mask_eq_exp_minus_1)
  then have "unat (n AND 15) = take_bit 4 (unat n)"
    by (simp only: unsigned_take_bit_eq)
  then show ?thesis by (simp add: take_bit_eq_mod)
qed

lemma and_15_less: "unat ((n :: u32) AND 15) < 16"
  by (simp add: unat_and_15)

lemma of_char_hex_char:
  assumes "unat d < 16"
  shows "of_char (hex_char d) = (if unat d < 10 then unat d + 48 else unat d + 55 :: nat)"
proof -
  have "of_char (char_of k) = k" if "k < 256" for k :: nat
    using that by (simp add: of_char_of)
  with assms show ?thesis by (auto simp: hex_char_def Let_def)
qed

lemma hex_digit_val_char: "unat d < 16 \<Longrightarrow> hex_digit_val (hex_char d) = unat d"
  by (simp add: hex_digit_val_def Let_def of_char_hex_char)

lemma hex_char_not_NUL: "unat d < 16 \<Longrightarrow> hex_char d \<noteq> NUL"
  using of_char_hex_char [of d] by (auto split: if_splits)

lemma NUL_notin_hex_digits: "NUL \<notin> set (hex_digits i n)"
  by (induction i arbitrary: n) (auto dest: sym simp: and_15_less hex_char_not_NUL)

lemma takeWhile_c_string:
  "NUL \<notin> set s \<Longrightarrow> takeWhile (\<lambda>c. c \<noteq> NUL) (s @ NUL # xs) = s"
  by (induction s) auto

lemma takeWhile_hex_digits [simp]:
  "takeWhile (\<lambda>c. c \<noteq> NUL) (hex_digits i n @ NUL # xs) = hex_digits i n"
  by (rule takeWhile_c_string) (rule NUL_notin_hex_digits)

lemma hex_val_digits: "hex_val (hex_digits i n) = unat n mod 16 ^ i"
proof (induction i arbitrary: n)
  case 0
  then show ?case by (simp add: hex_val_def)
next
  case (Suc i)
  have "hex_val (hex_digits (Suc i) n) = 16 * hex_val (hex_digits i (drop_bit 4 n)) + unat n mod 16"
    by (simp add: hex_val_def hex_digit_val_char and_15_less unat_and_15)
  also have "\<dots> = 16 * (unat n div 16 mod 16 ^ i) + unat n mod 16"
    by (simp add: Suc.IH drop_bit_eq_div unat_div_distrib)
  also have "\<dots> = unat n mod 16 ^ Suc i"
    by (simp add: mod_mult2_eq)
  finally show ?case .
qed

text \<open>A printed number: the buffer after either printer, and the digits.\<close>

lemma itoa_buffer:
  "length buf = 9 \<Longrightarrow> (itoa_loop 8 n buf)[8 := NUL] = hex_digits 8 n @ [NUL]"
  by (auto simp: itoa_loop_digits list_update_append length_Suc_conv numeral_eq_Suc)

definition qbuf_ok :: "machine \<Rightarrow> bool" where
  "qbuf_ok m \<longleftrightarrow> (\<forall>t < FLEXPRET_HW_THREADS_NUMS. length (qbuf m t) = 9)"

lemma itoa_hex_run:
  "hart w < 8 \<Longrightarrow> qbuf_ok (mach w) \<Longrightarrow>
    itoa_hex n w = Ret (hex_digits 8 n)
      (w\<lparr>mach := (mach w)\<lparr>qbuf := (qbuf (mach w))(hart w := hex_digits 8 n @ [NUL])\<rparr>\<rparr>)"
  by (simp add: itoa_hex_def itoa_buffer qbuf_ok_def)

lemma skip_zeros_le: "i \<le> 7 \<Longrightarrow> skip_zeros i buf \<le> 7"
  by (induction i buf rule: skip_zeros.induct) (subst skip_zeros.simps, auto)

lemma skip_zeros_stop:
  "i \<le> 7 \<Longrightarrow> skip_zeros i buf < 7 \<Longrightarrow> buf ! (skip_zeros i buf) \<noteq> CHR ''0''"
proof (induction i buf rule: skip_zeros.induct)
  case (1 i buf)
  then show ?case
    by (cases "i < 7 \<and> buf ! i = CHR ''0''") (auto simp: skip_zeros.simps [of i buf])
qed

lemma skip_zeros_before: "i \<le> k \<Longrightarrow> k < skip_zeros i buf \<Longrightarrow> buf ! k = CHR ''0''"
proof (induction i buf rule: skip_zeros.induct)
  case (1 i buf)
  then show ?case
    by (cases "i < 7 \<and> buf ! i = CHR ''0''"; cases "k = i")
      (auto simp: skip_zeros.simps [of i buf])
qed

lemma hex_val_zeros:
  "(\<And>k. k < length zs \<Longrightarrow> zs ! k = CHR ''0'') \<Longrightarrow> hex_val (zs @ xs) = hex_val xs"
proof (induction zs)
  case Nil
  then show ?case by simp
next
  case (Cons z zs)
  have z: "z = CHR ''0''"
    using Cons.prems [of 0] by simp
  have "hex_val (zs @ xs) = hex_val xs"
    by (rule Cons.IH) (use Cons.prems in force)
  then show ?case
    by (simp add: hex_val_def z hex_digit_val_def)
qed

lemma itoa_hex_removing_ldz_run:
  assumes "hart w < 8" "qbuf_ok (mach w)"
    and k: "k = skip_zeros 0 (hex_digits 8 n @ [NUL])"
  shows "itoa_hex_removing_ldz n w = Ret (drop k (hex_digits 8 n))
      (w\<lparr>mach := (mach w)\<lparr>qbuf := (qbuf (mach w))(hart w := hex_digits 8 n @ [NUL])\<rparr>\<rparr>)"
proof -
  have "k \<le> 7" unfolding k by (rule skip_zeros_le) simp
  moreover have "NUL \<notin> set (drop k (hex_digits 8 n))"
    using NUL_notin_hex_digits by (meson in_set_dropD)
  ultimately have "takeWhile (\<lambda>c. c \<noteq> NUL) (drop k (hex_digits 8 n @ [NUL])) = drop k (hex_digits 8 n)"
    by (simp add: takeWhile_c_string)
  with assms(1,2) show ?thesis
    unfolding k by (simp add: itoa_hex_removing_ldz_def itoa_buffer qbuf_ok_def)
qed

text \<open>
  C35: both printers write the number they are given: the eight digits read as a hexadecimal
  number give it back, and so do the digits without leading zeros, of which there is always
  one.
\<close>

theorem itoa_roundtrip:
  assumes "hart w < 8" "qbuf_ok (mach w)"
  shows "\<exists>s s' w1 w2. itoa_hex n w = Ret s w1 \<and> length s = 8 \<and> hex_val s = unat n \<and>
    itoa_hex_removing_ldz n w = Ret s' w2 \<and> hex_val s' = unat n \<and> s' \<noteq> [] \<and>
    (hd s' = CHR ''0'' \<longrightarrow> s' = ''0'') \<and> qbuf_ok (mach w1) \<and> qbuf_ok (mach w2)"
proof -
  let ?s = "hex_digits 8 n"
  let ?k = "skip_zeros 0 (?s @ [NUL])"
  have k: "?k \<le> 7"
    by (rule skip_zeros_le) simp
  have v: "hex_val ?s = unat n"
    using unsigned_less [of n, where 'a = nat] by (simp add: hex_val_digits)
  have zeros: "take ?k ?s ! i = CHR ''0''" if "i < length (take ?k ?s)" for i
    using skip_zeros_before [of 0 i "?s @ [NUL]"] that by (simp add: nth_append)
  then have "hex_val (drop ?k ?s) = unat n"
    using hex_val_zeros [of "take ?k ?s" "drop ?k ?s"] v by simp
  moreover have "drop ?k ?s = ''0''" if "hd (drop ?k ?s) = CHR ''0''"
  proof -
    have "?k = 7"
      using skip_zeros_stop [of 0 "?s @ [NUL]"] k that by (force simp: hd_drop_conv_nth nth_append)
    moreover have "drop 7 ?s = [hd (drop 7 ?s)]"
      by (cases "drop 7 ?s") (auto dest: arg_cong [of _ _ length])
    ultimately show ?thesis
      using that by simp
  qed
  ultimately show ?thesis
    using itoa_hex_run [OF assms, of n] itoa_hex_removing_ldz_run [OF assms refl, of n] v k assms(2)
    by (auto simp: qbuf_ok_def)
qed

theorem itoa_roundtrip_witness:
  "\<exists>s w w'. itoa_hex_removing_ldz 0x2A w = Ret s w' \<and> hex_val s = 42"
proof -
  let ?w = "\<lparr>hart = 2, mach = boot_machine 0x200 0x20000100 0x20000200 0x20000600, sched = []\<rparr>"
  have "qbuf_ok (mach ?w)"
    by (simp add: qbuf_ok_def boot_machine_def)
  then obtain s w where "itoa_hex_removing_ldz 0x2A ?w = Ret s w" "hex_val s = 42"
    using itoa_roundtrip [of ?w "0x2A"] by auto
  then show ?thesis by blast
qed

section \<open>General purpose ports\<close>

definition gpo_write :: "nat \<Rightarrow> u32 \<Rightarrow> unit os" where
  "gpo_write i v = os_write_csr (CSR_GPO i) v"

definition gpo_set :: "nat \<Rightarrow> u32 \<Rightarrow> unit os" where
  "gpo_set i mask_v = bnd (os_set_csr (CSR_GPO i) mask_v) (\<lambda>_. ret ())"

definition gpo_clear :: "nat \<Rightarrow> u32 \<Rightarrow> unit os" where
  "gpo_clear i mask_v = bnd (os_clear_csr (CSR_GPO i) mask_v) (\<lambda>_. ret ())"

definition gpo_read :: "nat \<Rightarrow> u32 os" where
  "gpo_read i = os_read_csr (CSR_GPO i)"

definition gpi_read :: "nat \<Rightarrow> u32 os" where
  "gpi_read i = os_read_csr (CSR_GPI i)"

end
