(* ===== verification/Utils.thy ===== *)
theory Utils
  imports Io
begin

text \<open>
  \<^verbatim>\<open>src/os/src/flexpret_utils.c\<close>: messages, the freestanding string and memory routines,
  and the conversion of thread and timer identifiers (pointers into the control block
  arrays) to hardware thread numbers.
\<close>

section \<open>Messages\<close>

definition flexpret_error :: "string \<Rightarrow> unit os" where
  "flexpret_error msg = emulator_outputstr (Some msg)"

definition flexpret_info :: "string \<Rightarrow> unit os" where
  "flexpret_info msg = emulator_outputstr (Some msg)"

definition flexpret_warn :: "string \<Rightarrow> unit os" where
  "flexpret_warn msg = emulator_outputstr (Some msg)"

definition flexpret_not_implemented :: "string \<Rightarrow> unit os" where
  "flexpret_not_implemented f =
     seqm (flexpret_error ''Function `'')
     (seqm (flexpret_error f)
     (flexpret_error (''` is not implemented.'' @ [CHR 0x0A])))"

definition flexpret_not_supported :: "string \<Rightarrow> unit os" where
  "flexpret_not_supported f =
     seqm (flexpret_error ''Function `'')
     (seqm (flexpret_error f)
     (flexpret_error (''` is not supported.'' @ [CHR 0x0A])))"

text \<open>A message changes the output port only.\<close>

definition say :: "string \<Rightarrow> machine \<Rightarrow> machine" where
  "say msg m = m\<lparr>emulator_out := emulator_out m @ takeWhile (\<lambda>c. c \<noteq> NUL) msg\<rparr>"

lemma output_loop_say: "output_loop = say"
  by (intro ext) (simp add: output_loop_eq say_def)

lemma flexpret_error_app [simp]: "flexpret_error msg w = Ret () (w\<lparr>mach := say msg (mach w)\<rparr>)"
  by (simp add: flexpret_error_def emulator_outputstr_def output_loop_say)

lemma flexpret_info_app [simp]: "flexpret_info msg w = Ret () (w\<lparr>mach := say msg (mach w)\<rparr>)"
  by (simp add: flexpret_info_def emulator_outputstr_def output_loop_say)

lemma say_simps [simp]:
  "csr_slots (say x m) = csr_slots m" "csr_tmodes (say x m) = csr_tmodes m"
  "csr_time (say x m) = csr_time m" "csr_compare (say x m) = csr_compare m"
  "csr_timer (say x m) = csr_timer m" "csr_mutex (say x m) = csr_mutex m"
  "csr_cause (say x m) = csr_cause m" "csr_gpo (say x m) = csr_gpo m"
  "timer_base (say x m) = timer_base m" "mutex_base (say x m) = mutex_base m"
  "bss_end_addr (say x m) = bss_end_addr m"
  "startup_state (say x m) = startup_state m" "thread_attr (say x m) = thread_attr m"
  "thread_attr_entry (say x m) = thread_attr_entry m"
  "flexpret_thread_num (say x m) = flexpret_thread_num m"
  "default_soft_slot_id (say x m) = default_soft_slot_id m"
  "startup_timer_state (say x m) = startup_timer_state m"
  "timer_attr (say x m) = timer_attr m"
  "timer_attr_entry (say x m) = timer_attr_entry m"
  "trap_handler_vector (say x m) = trap_handler_vector m"
  "startup_mutex_state (say x m) = startup_mutex_state m"
  "flexpret_mutex_num (say x m) = flexpret_mutex_num m"
  "slot_mutex (say x m) = slot_mutex m" "kernel_state (say x m) = kernel_state m"
  "qbuf (say x m) = qbuf m"
  by (simp_all add: say_def)

section \<open>Strings and memory\<close>

text \<open>
  An object is a list of bytes; a store or a load outside it is \<open>None\<close>. A source string is
  the object from the pointer on.
\<close>

definition store :: "'a list \<Rightarrow> nat \<Rightarrow> 'a \<Rightarrow> 'a list option" where
  "store xs i x = (if i < length xs then Some (xs[i := x]) else None)"

fun strncpy_loop :: "string \<Rightarrow> nat \<Rightarrow> string \<Rightarrow> u32 \<Rightarrow> string option" where
  "strncpy_loop dest d [] n = None"
| "strncpy_loop dest d (c # src) n =
     (if c \<noteq> NUL \<and> n \<noteq> 0
      then Option.bind (store dest d c) (\<lambda>dest'. strncpy_loop dest' (Suc d) src (n - 1))
      else store dest d NUL)"

definition strncpy :: "string option \<Rightarrow> nat \<Rightarrow> string \<Rightarrow> u32 \<Rightarrow> string option option" where
  "strncpy dest d src n = (case dest of None \<Rightarrow> Some None
     | Some b \<Rightarrow> map_option Some (strncpy_loop b d src n))"

fun strlen :: "string \<Rightarrow> nat option" where
  "strlen [] = None"
| "strlen (c # s) = (if c = NUL then Some 0 else map_option Suc (strlen s))"

function memset_loop :: "nat \<Rightarrow> u8 list \<Rightarrow> u8 \<Rightarrow> nat \<Rightarrow> u8 list option" where
  "memset_loop i s c n =
     (if i < n then Option.bind (store s i c) (\<lambda>s'. memset_loop (Suc i) s' c n) else Some s)"
  by pat_completeness auto
termination
  by (relation "measure (\<lambda>(i, s, c, n). n - i)") auto

definition memset :: "u8 list \<Rightarrow> int \<Rightarrow> nat \<Rightarrow> u8 list option" where
  "memset s c n = memset_loop 0 s (word_of_int c) n"

function memcpy_loop :: "nat \<Rightarrow> u8 list \<Rightarrow> u8 list \<Rightarrow> nat \<Rightarrow> u8 list option" where
  "memcpy_loop i d s n =
     (if i < n
      then (if i < length s
            then Option.bind (store d i (s ! i)) (\<lambda>d'. memcpy_loop (Suc i) d' s n) else None)
      else Some d)"
  by pat_completeness auto
termination
  by (relation "measure (\<lambda>(i, d, s, n). n - i)") auto

definition memcpy :: "u8 list \<Rightarrow> u8 list \<Rightarrow> nat \<Rightarrow> u8 list option" where
  "memcpy d s n = memcpy_loop 0 d s n"

declare memset_loop.simps [simp del] memcpy_loop.simps [simp del]

lemma strlen_c_string: "NUL \<notin> set s \<Longrightarrow> strlen (s @ NUL # xs) = Some (length s)"
  by (induction s) auto

text \<open>
  \<^verbatim>\<open>strncpy\<close> stores the characters before the terminator, at most \<open>size\<close> of them, and then
  always one \<^verbatim>\<open>'\0'\<close> more: it needs room for one byte beyond the count copied.
\<close>

lemma strncpy_loop_Some:
  assumes "NUL \<notin> set s" "d + min (length s) (unat n) < length dest"
  shows "strncpy_loop dest d (s @ NUL # xs) n =
    Some (take d dest @ take (unat n) s @ NUL # drop (Suc (d + min (length s) (unat n))) dest)"
  using assms
proof (induction s arbitrary: dest d n)
  case Nil
  then show ?case by (simp add: store_def upd_conv_take_nth_drop)
next
  case (Cons c s)
  show ?case
  proof (cases "n = 0")
    case True
    with Cons.prems show ?thesis by (simp add: store_def upd_conv_take_nth_drop)
  next
    case False
    then obtain k where k: "unat n = Suc k"
      by (metis not0_implies_Suc unat_eq_0)
    then have k': "unat (n - 1) = k"
      by (simp add: unat_minus_one False)
    have "strncpy_loop (dest[d := c]) (Suc d) (s @ NUL # xs) (n - 1) =
        Some (take (Suc d) (dest[d := c]) @ take k s @
          NUL # drop (Suc (Suc d + min (length s) k)) (dest[d := c]))"
      using Cons.IH [of "Suc d" "n - 1" "dest[d := c]"] Cons.prems k k' by simp
    then show ?thesis
      using Cons.prems False k by (auto simp: store_def take_Suc_conv_app_nth)
  qed
qed

lemma strncpy_loop_None:
  assumes "NUL \<notin> set s" "length dest \<le> d + min (length s) (unat n)"
  shows "strncpy_loop dest d (s @ NUL # xs) n = None"
  using assms
proof (induction s arbitrary: dest d n)
  case Nil
  then show ?case by (simp add: store_def)
next
  case (Cons c s)
  show ?case
  proof (cases "n = 0")
    case True
    with Cons.prems show ?thesis by (simp add: store_def)
  next
    case False
    then obtain k where k: "unat n = Suc k"
      by (metis not0_implies_Suc unat_eq_0)
    then have "unat (n - 1) = k"
      by (simp add: unat_minus_one False)
    then show ?thesis
      using Cons.IH [of "dest[d := c]" "Suc d" "n - 1"] Cons.prems False k
      by (auto simp: store_def)
  qed
qed

lemma memcpy_loop_eq:
  "i \<le> n \<Longrightarrow> n \<le> length s \<Longrightarrow> n \<le> length d \<Longrightarrow>
    memcpy_loop i d s n = Some (take i d @ take (n - i) (drop i s) @ drop n d)"
proof (induction i d s n rule: memcpy_loop.induct)
  case (1 i d s n)
  show ?case
  proof (cases "i < n")
    case True
    with 1 have "memcpy_loop (Suc i) (d[i := s ! i]) s n =
        Some (take (Suc i) (d[i := s ! i]) @ take (n - Suc i) (drop (Suc i) s) @ drop n (d[i := s ! i]))"
      by (simp add: store_def)
    moreover have "take (n - i) (drop i s) = s ! i # take (n - Suc i) (drop (Suc i) s)"
      using True 1 by (simp add: Suc_diff_Suc take_Suc_conv_app_nth flip: Cons_nth_drop_Suc)
        (metis Suc_diff_Suc take_Suc_Cons)
    ultimately show ?thesis
      using True 1 by (simp add: memcpy_loop.simps [of i d s n] store_def take_Suc_conv_app_nth)
  next
    case False
    with 1 have "i = n" by simp
    then show ?thesis by (simp add: memcpy_loop.simps [of n d s n])
  qed
qed

lemma memcpy_eq:
  "n \<le> length s \<Longrightarrow> n \<le> length d \<Longrightarrow> memcpy d s n = Some (take n s @ drop n d)"
  by (simp add: memcpy_def memcpy_loop_eq)

section \<open>Identifiers\<close>

text \<open>
  \<^verbatim>\<open>layout.ld\<close> puts \<^verbatim>\<open>startup.o\<close>'s data first, at \<^verbatim>\<open>DATA_START_ADDR\<close>, and \<^verbatim>\<open>startup_state\<close>
  is its first object. \<^verbatim>\<open>sizeof(hwthread_state)\<close> and \<^verbatim>\<open>sizeof(hwtimer_state)\<close> are four
  words.
\<close>

definition startup_state_addr :: addr where
  "startup_state_addr = 0x20000000"

definition sizeof_hwthread_state :: u32 where
  "sizeof_hwthread_state = 16"

definition sizeof_hwtimer_state :: u32 where
  "sizeof_hwtimer_state = 16"

definition thread_ptr :: "nat \<Rightarrow> addr" where
  "thread_ptr t = startup_state_addr + sizeof_hwthread_state * of_nat t"

definition timer_ptr :: "machine \<Rightarrow> nat \<Rightarrow> addr" where
  "timer_ptr m t = timer_base m + sizeof_hwtimer_state * of_nat t"

definition get_tid :: "addr \<Rightarrow> u32 os" where
  "get_tid thread_id =
     (let offset = thread_id - startup_state_addr; sz = sizeof_hwthread_state in
      if offset = 0 then ret 0
      else if offset = sz then ret 1
      else if offset = push_bit 1 sz then ret 2
      else if offset = push_bit 1 sz + sz then ret 3
      else if offset = push_bit 2 sz then ret 4
      else if offset = push_bit 2 sz + sz then ret 5
      else if offset = push_bit 2 sz + push_bit 1 sz then ret 6
      else if offset = push_bit 2 sz + push_bit 1 sz + sz then ret 7
      else seqm (flexpret_error (''bad offset calling get_tid'' @ [CHR 0x0A])) (ret (- 1)))"

definition get_timer_tid :: "addr \<Rightarrow> u32 os" where
  "get_timer_tid timer_id =
     bnd (rdm timer_base) (\<lambda>base.
     let offset = timer_id - base; sz = sizeof_hwtimer_state in
      if offset = 0 then ret 0
      else if offset = sz then ret 1
      else if offset = push_bit 1 sz then ret 2
      else if offset = push_bit 1 sz + sz then ret 3
      else if offset = push_bit 2 sz then ret 4
      else if offset = push_bit 2 sz + sz then ret 5
      else if offset = push_bit 2 sz + push_bit 1 sz then ret 6
      else if offset = push_bit 2 sz + push_bit 1 sz + sz then ret 7
      else seqm (flexpret_error (''bad offset calling get_timer_tid'' @ [CHR 0x0A])) (ret 0))"

lemma get_tid_thread_ptr [simp]: "t < 8 \<Longrightarrow> get_tid (thread_ptr t) w = Ret (of_nat t) w"
  by (auto simp: less_8_cases get_tid_def thread_ptr_def sizeof_hwthread_state_def)

lemma get_tid_bad:
  assumes "\<And>t. t < 8 \<Longrightarrow> p \<noteq> thread_ptr t"
  shows "get_tid p w = Ret (- 1)
    (w\<lparr>mach := say (''bad offset calling get_tid'' @ [CHR 0x0A]) (mach w)\<rparr>)"
proof -
  have *: "p - startup_state_addr \<noteq> 16 * of_nat t" if "t < 8" for t
    using assms [OF that] by (auto simp: thread_ptr_def sizeof_hwthread_state_def algebra_simps)
  show ?thesis
    using * [of 0] * [of 1] * [of 2] * [of 3] * [of 4] * [of 5] * [of 6] * [of 7]
    by (simp add: get_tid_def sizeof_hwthread_state_def)
qed

lemma get_timer_tid_timer_ptr [simp]:
  "t < 8 \<Longrightarrow> get_timer_tid (timer_ptr (mach w) t) w = Ret (of_nat t) w"
  by (auto simp: less_8_cases get_timer_tid_def timer_ptr_def sizeof_hwtimer_state_def)

lemma thread_ptr_inj: "t < 8 \<Longrightarrow> u < 8 \<Longrightarrow> thread_ptr t = thread_ptr u \<longleftrightarrow> t = u"
  by (auto simp: less_8_cases thread_ptr_def sizeof_hwthread_state_def)

lemma thread_ptr_not_NULL: "t < 8 \<Longrightarrow> thread_ptr t \<noteq> NULL"
  by (auto simp: less_8_cases thread_ptr_def sizeof_hwthread_state_def startup_state_addr_def)

lemma get_tid_cases:
  obtains t where "t < 8" "p = thread_ptr t" "get_tid p w = Ret (of_nat t) w"
  | "\<And>t. t < 8 \<Longrightarrow> p \<noteq> thread_ptr t"
    "get_tid p w = Ret (- 1) (w\<lparr>mach := say (''bad offset calling get_tid'' @ [CHR 0x0A]) (mach w)\<rparr>)"
  by (metis get_tid_bad get_tid_thread_ptr)

end
