(* ===== verification/Slots.thy ===== *)
theory Slots
  imports Utils
begin

text \<open>
  The scheduler registers as \<^verbatim>\<open>include/flexpret_threads.h\<close> accesses them: eight 4 bit slots
  in \<^verbatim>\<open>badvaddr\<close> (\<^verbatim>\<open>get_slots\<close>, \<^verbatim>\<open>set_slots\<close>) and eight 2 bit thread modes in \<^verbatim>\<open>ptbr\<close>
  (\<^verbatim>\<open>get_tmodes\<close>, \<^verbatim>\<open>set_tmodes\<close>). Both are packed arrays; the locale \<open>packed_reg\<close> states what
  their users rely on.
\<close>

section \<open>Packed registers\<close>

locale packed_reg =
  fixes width :: nat and fields :: nat
    and pack :: "u32 list \<Rightarrow> u32" and unpack :: "u32 \<Rightarrow> u32 list"
  assumes length_unpack: "length (unpack v) = fields"
    and unpack_nth_fits: "i < fields \<Longrightarrow> take_bit width (unpack v ! i) = unpack v ! i"
    and unpack_pack_nth: "length xs = fields \<Longrightarrow> i < fields \<Longrightarrow>
      unpack (pack xs) ! i = take_bit width (xs ! i)"
    and pack_unpack: "pack (unpack v) = take_bit (fields * width) v"
begin

lemma unpack_pack: "length xs = fields \<Longrightarrow> unpack (pack xs) = map (take_bit width) xs"
  by (rule nth_equalityI) (simp_all add: length_unpack unpack_pack_nth)

lemma roundtrip:
  "length xs = fields \<Longrightarrow> (\<And>x. x \<in> set xs \<Longrightarrow> take_bit width x = x) \<Longrightarrow> unpack (pack xs) = xs"
  by (simp add: unpack_pack map_idI)

lemma unpack_fits: "x \<in> set (unpack v) \<Longrightarrow> take_bit width x = x"
  by (metis in_set_conv_nth length_unpack unpack_nth_fits)

text \<open>Writing one field of a read register back changes that field only.\<close>

lemma update_field:
  "i < fields \<Longrightarrow> unpack (pack ((unpack v)[i := x])) = (unpack v)[i := take_bit width x]"
proof (rule nth_equalityI)
  fix j assume i: "i < fields" and "j < length (unpack (pack ((unpack v)[i := x])))"
  then have j: "j < fields" by (simp add: length_unpack)
  with i show "unpack (pack ((unpack v)[i := x])) ! j = (unpack v)[i := take_bit width x] ! j"
    by (cases "j = i") (simp_all add: unpack_pack_nth length_unpack unpack_nth_fits)
qed (simp add: length_unpack)

lemma unpack_inj:
  "unpack v = unpack u \<Longrightarrow> take_bit (fields * width) v = take_bit (fields * width) u"
  by (metis pack_unpack)

end

section \<open>Slots\<close>

definition pack_slots :: "u32 list \<Rightarrow> u32" where
  "pack_slots s =
     push_bit 28 (s ! 7 AND 0xF) OR push_bit 24 (s ! 6 AND 0xF) OR
     push_bit 20 (s ! 5 AND 0xF) OR push_bit 16 (s ! 4 AND 0xF) OR
     push_bit 12 (s ! 3 AND 0xF) OR push_bit 8 (s ! 2 AND 0xF) OR
     push_bit 4 (s ! 1 AND 0xF) OR push_bit 0 (s ! 0 AND 0xF)"

definition unpack_slots :: "u32 \<Rightarrow> u32 list" where
  "unpack_slots v =
     [drop_bit 0 v AND 0xF, drop_bit 4 v AND 0xF, drop_bit 8 v AND 0xF, drop_bit 12 v AND 0xF,
      drop_bit 16 v AND 0xF, drop_bit 20 v AND 0xF, drop_bit 24 v AND 0xF, drop_bit 28 v AND 0xF]"

lemma and_0xF: "x AND 0xF = take_bit 4 (x :: u32)"
  by (simp add: take_bit_eq_mask mask_eq_exp_minus_1)

lemma and_0x3: "x AND 0x3 = take_bit 2 (x :: u32)"
  by (simp add: take_bit_eq_mask mask_eq_exp_minus_1)

text \<open>Reading one field of a register assembled by shifts and ors.\<close>

lemma field_same:
  "k + w \<le> 32 \<Longrightarrow> take_bit w (drop_bit k (push_bit k (take_bit w (x :: u32)))) = take_bit w x"
  by (rule bit_word_eqI) (auto simp: bit_simps)

lemma field_below:
  "j + w \<le> k \<Longrightarrow> take_bit w (drop_bit k (push_bit j (take_bit w (x :: u32)))) = 0"
  by (rule bit_word_eqI) (auto simp: bit_simps)

lemma field_above:
  "k + w \<le> j \<Longrightarrow> take_bit w (drop_bit k (push_bit j (take_bit w (x :: u32)))) = 0"
  by (rule bit_word_eqI) (auto simp: bit_simps)

lemma field_below_0: "w \<le> k \<Longrightarrow> take_bit w (drop_bit k (take_bit w (x :: u32))) = 0"
  by (rule bit_word_eqI) (auto simp: bit_simps)

lemma field_above_0: "w \<le> j \<Longrightarrow> take_bit w (push_bit j (take_bit w (x :: u32))) = 0"
  by (rule bit_word_eqI) (auto simp: bit_simps)

text \<open>Putting the fields of a register back together, from the lowest one up.\<close>

lemma field_join:
  "push_bit k (take_bit w (drop_bit k (v :: u32))) OR take_bit k v = take_bit (k + w) v"
  by (rule bit_word_eqI) (auto simp: bit_simps)

lemmas reg_field_simps = field_same field_below field_above field_below_0 field_above_0

interpretation slot_reg: packed_reg 4 8 pack_slots unpack_slots
proof (unfold_locales, goal_cases)
  case (1 v)
  show ?case by (simp add: unpack_slots_def)
next
  case (2 i v)
  then show ?case by (auto simp: less_8_cases unpack_slots_def and_0xF)
next
  case (3 xs i)
  from \<open>i < 8\<close> show ?case
    unfolding less_8_cases pack_slots_def unpack_slots_def and_0xF
    by (elim disjE) (simp_all add: reg_field_simps)
next
  case (4 v)
  show ?case
    unfolding pack_slots_def unpack_slots_def and_0xF
    by (simp add: field_join)
qed

definition get_slots :: "u8 list os" where
  "get_slots = bnd (os_read_csr CSR_SLOTS) (\<lambda>v. ret (map ucast (unpack_slots v)))"

definition set_slots :: "u8 list \<Rightarrow> unit os" where
  "set_slots s = bnd (os_swap_csr CSR_SLOTS (pack_slots (map ucast s))) (\<lambda>_. ret ())"

definition slots_of :: "machine \<Rightarrow> u8 list" where
  "slots_of m = map ucast (unpack_slots (csr_slots m))"

section \<open>Thread modes\<close>

definition pack_tmodes :: "u32 list \<Rightarrow> u32" where
  "pack_tmodes t =
     push_bit 14 (t ! 7 AND 0x3) OR push_bit 12 (t ! 6 AND 0x3) OR
     push_bit 10 (t ! 5 AND 0x3) OR push_bit 8 (t ! 4 AND 0x3) OR
     push_bit 6 (t ! 3 AND 0x3) OR push_bit 4 (t ! 2 AND 0x3) OR
     push_bit 2 (t ! 1 AND 0x3) OR push_bit 0 (t ! 0 AND 0x3)"

definition unpack_tmodes :: "u32 \<Rightarrow> u32 list" where
  "unpack_tmodes v =
     [v AND 0x3, drop_bit 2 v AND 0x3, drop_bit 4 v AND 0x3, drop_bit 6 v AND 0x3,
      drop_bit 8 v AND 0x3, drop_bit 10 v AND 0x3, drop_bit 12 v AND 0x3, drop_bit 14 v AND 0x3]"

interpretation tmode_reg: packed_reg 2 8 pack_tmodes unpack_tmodes
proof (unfold_locales, goal_cases)
  case (1 v)
  show ?case by (simp add: unpack_tmodes_def)
next
  case (2 i v)
  then show ?case by (auto simp: less_8_cases unpack_tmodes_def and_0x3)
next
  case (3 xs i)
  from \<open>i < 8\<close> show ?case
    unfolding less_8_cases pack_tmodes_def unpack_tmodes_def and_0x3
    by (elim disjE) (simp_all add: reg_field_simps)
next
  case (4 v)
  show ?case
    unfolding pack_tmodes_def unpack_tmodes_def and_0x3
    by (simp add: field_join)
qed

definition get_tmodes :: "u32 list os" where
  "get_tmodes = bnd (os_read_csr CSR_TMODES) (\<lambda>v. ret (unpack_tmodes v))"

definition set_tmodes :: "int list \<Rightarrow> unit os" where
  "set_tmodes t = os_write_csr CSR_TMODES (pack_tmodes (map word_of_int t))"

definition tmodes_of :: "machine \<Rightarrow> u32 list" where
  "tmodes_of m = unpack_tmodes (ucast (csr_tmodes m))"

subsection \<open>Four threads\<close>

text \<open>The variants for a processor with four threads use the low half of the register.\<close>

definition pack_tmodes_4 :: "u32 list \<Rightarrow> u32" where
  "pack_tmodes_4 t =
     push_bit 6 (t ! 3 AND 0x3) OR push_bit 4 (t ! 2 AND 0x3) OR
     push_bit 2 (t ! 1 AND 0x3) OR push_bit 0 (t ! 0 AND 0x3)"

definition unpack_tmodes_4 :: "u32 \<Rightarrow> u32 list" where
  "unpack_tmodes_4 v = [v AND 0x3, drop_bit 2 v AND 0x3, drop_bit 4 v AND 0x3, drop_bit 6 v AND 0x3]"

lemma less_4_cases: "i < 4 \<longleftrightarrow> i = 0 \<or> i = 1 \<or> i = 2 \<or> i = (3 :: nat)"
  by auto

interpretation tmode_reg_4: packed_reg 2 4 pack_tmodes_4 unpack_tmodes_4
proof (unfold_locales, goal_cases)
  case (1 v)
  show ?case by (simp add: unpack_tmodes_4_def)
next
  case (2 i v)
  then show ?case by (auto simp: less_4_cases unpack_tmodes_4_def and_0x3)
next
  case (3 xs i)
  from \<open>i < 4\<close> show ?case
    unfolding less_4_cases pack_tmodes_4_def unpack_tmodes_4_def and_0x3
    by (elim disjE) (simp_all add: reg_field_simps)
next
  case (4 v)
  show ?case
    unfolding pack_tmodes_4_def unpack_tmodes_4_def and_0x3
    by (simp add: field_join)
qed

definition get_tmodes_4 :: "u32 list os" where
  "get_tmodes_4 = bnd (os_read_csr CSR_TMODES) (\<lambda>v. ret (unpack_tmodes_4 v))"

definition set_tmodes_4 :: "int list \<Rightarrow> unit os" where
  "set_tmodes_4 t = os_write_csr CSR_TMODES (pack_tmodes_4 (map word_of_int t))"

text \<open>On the register of eight threads they read the first four modes, and reset the others when they write.\<close>

lemma unpack_tmodes_4: "unpack_tmodes_4 v = take 4 (unpack_tmodes v)"
  by (simp add: unpack_tmodes_def unpack_tmodes_4_def numeral_eq_Suc)

lemma pack_tmodes_4: "length t = 4 \<Longrightarrow> pack_tmodes_4 t = pack_tmodes (t @ [0, 0, 0, 0])"
  by (simp add: pack_tmodes_def pack_tmodes_4_def nth_append)

subsection \<open>Running the accessors\<close>

lemma length_slots_of [simp]: "length (slots_of m) = 8"
  by (simp add: slots_of_def slot_reg.length_unpack)

lemma length_tmodes_of [simp]: "length (tmodes_of m) = 8"
  by (simp add: tmodes_of_def tmode_reg.length_unpack)

lemma take_bit_4_ucast: "take_bit 4 (ucast (x :: u32) :: u8) = ucast (take_bit 4 x)"
  by (rule bit_word_eqI) (auto simp: bit_simps)

lemma ucast_nibble: "take_bit 4 (x :: u32) = x \<Longrightarrow> take_bit 4 (ucast x :: u8) = ucast x"
  by (simp add: take_bit_4_ucast)

lemma slots_of_fits: "x \<in> set (slots_of m) \<Longrightarrow> take_bit 4 x = x"
  by (auto simp: slots_of_def intro!: ucast_nibble dest: slot_reg.unpack_fits)

lemma get_slots_app [simp]: "get_slots w = Ret (slots_of (mach w)) w"
  by (simp add: get_slots_def slots_of_def)

lemma set_slots_app [simp]:
  "set_slots s w = Ret () (w\<lparr>mach := (mach w)\<lparr>csr_slots := pack_slots (map ucast s)\<rparr>\<rparr>)"
  by (simp add: set_slots_def)

lemma ucast_take_bit_4: "ucast (take_bit 4 (ucast (x :: u8) :: u32)) = take_bit 4 x"
  by (rule bit_word_eqI) (auto simp: bit_simps)

lemma slots_of_pack [simp]:
  "length s = 8 \<Longrightarrow> slots_of (m\<lparr>csr_slots := pack_slots (map ucast s)\<rparr>) = map (take_bit 4) s"
  by (simp add: slots_of_def slot_reg.unpack_pack ucast_take_bit_4)

lemma get_tmodes_app [simp]: "get_tmodes w = Ret (tmodes_of (mach w)) w"
  by (simp add: get_tmodes_def tmodes_of_def)

lemma set_tmodes_app [simp]:
  "set_tmodes t w =
     Ret () (w\<lparr>mach := (mach w)\<lparr>csr_tmodes := ucast (pack_tmodes (map word_of_int t))\<rparr>\<rparr>)"
  by (simp add: set_tmodes_def)

text \<open>The register holds the 16 bits of the eight modes; the read is zero extended.\<close>

lemma ucast_16: "(ucast (ucast (v :: u32) :: u16) :: u32) = take_bit 16 v"
  by (rule bit_word_eqI) (auto simp: bit_simps)

lemma field_of_take_bit:
  "k + w \<le> n \<Longrightarrow> take_bit w (drop_bit k (take_bit n (v :: u32))) = take_bit w (drop_bit k v)"
  by (rule bit_word_eqI) (auto simp: bit_simps)

lemma unpack_tmodes_16: "unpack_tmodes (take_bit 16 v) = unpack_tmodes v"
  by (simp add: unpack_tmodes_def and_0x3 field_of_take_bit)

lemma tmodes_of_ucast: "tmodes_of (m\<lparr>csr_tmodes := ucast v\<rparr>) = unpack_tmodes v"
  by (simp add: tmodes_of_def ucast_16 unpack_tmodes_16)

lemma tmodes_of_fits: "x \<in> set (tmodes_of m) \<Longrightarrow> take_bit 2 x = x"
  by (auto simp: tmodes_of_def dest: tmode_reg.unpack_fits)

text \<open>Setting and clearing the bits \<open>x\<close> of the mode of thread \<open>t\<close>.\<close>

lemma unpack_tmodes_or:
  assumes "t < 8"
  shows "unpack_tmodes (v OR push_bit (2 * t) (take_bit 2 x)) =
    (unpack_tmodes v)[t := unpack_tmodes v ! t OR take_bit 2 x]"
  using assms unfolding less_8_cases unpack_tmodes_def and_0x3
  by (elim disjE) (simp_all add: reg_field_simps)

lemma field_and_not:
  "take_bit w (drop_bit k (v AND NOT y)) = take_bit w (drop_bit k (v :: u32)) AND NOT (take_bit w (drop_bit k y))"
  by (rule bit_word_eqI) (auto simp: bit_simps dest: bit_imp_le_length)

lemma unpack_tmodes_and_not:
  assumes "t < 8"
  shows "unpack_tmodes (v AND NOT (push_bit (2 * t) (take_bit 2 x))) =
    (unpack_tmodes v)[t := unpack_tmodes v ! t AND NOT (take_bit 2 x)]"
proof -
  have *: "take_bit 2 (v AND NOT y) = take_bit 2 v AND NOT (take_bit 2 y)" for y
    using field_and_not [of 2 0 v y] by simp
  from assms show ?thesis
    unfolding less_8_cases unpack_tmodes_def and_0x3 field_and_not *
    by (elim disjE) (simp_all add: reg_field_simps)
qed

lemma slots_of_cong: "csr_slots m' = csr_slots m \<Longrightarrow> slots_of m' = slots_of m"
  by (simp add: slots_of_def)

lemma tmodes_of_cong: "csr_tmodes m' = csr_tmodes m \<Longrightarrow> tmodes_of m' = tmodes_of m"
  by (simp add: tmodes_of_def)

end
