(* ===== verification/Clock.thy ===== *)
theory Clock
  imports Slots
begin

text \<open>
  The timing instructions of \<^verbatim>\<open>include/flexpret_timing.h\<close> and the wait functions built on
  them. \<^verbatim>\<open>delay_until\<close> (\<^verbatim>\<open>DU\<close>) branches to itself until the compare value has expired and
  sleeps meanwhile (\<^verbatim>\<open>src/Core/csr.scala\<close>, \<^verbatim>\<open>control.scala\<close>): the thread's mode gets its
  zombie bit, and the hardware clears it when the comparison of the running clock succeeds.
\<close>

definition get_time :: "u32 os" where
  "get_time = os_read_csr CSR_CLOCK"

definition set_compare :: "u32 \<Rightarrow> unit os" where
  "set_compare v = os_write_csr CSR_COMPARE v"

text \<open>
  \<^verbatim>\<open>expired(tid) := (reg_time - reg_compare(tid))(timeBits-1) === 0\<close>: the sign bit of the
  32 bit difference.
\<close>

definition expired :: "machine \<Rightarrow> nat \<Rightarrow> bool" where
  "expired m t \<longleftrightarrow> \<not> bit (csr_time m - csr_compare m t) 31"

definition du_sleep :: "nat \<Rightarrow> machine \<Rightarrow> machine" where
  "du_sleep h m = m\<lparr>csr_tmodes := csr_tmodes m OR push_bit (2 * h) 1,
                    csr_timer := (csr_timer m)(h := TIMER_DU_WU)\<rparr>"

definition du_wake :: "nat \<Rightarrow> machine \<Rightarrow> machine" where
  "du_wake h m =
     (if csr_timer m h = TIMER_DU_WU \<and> expired m h
      then m\<lparr>csr_tmodes := csr_tmodes m AND NOT (push_bit (2 * h) 1),
             csr_timer := (csr_timer m)(h := TIMER_OFF)\<rparr>
      else m)"

text \<open>Each pass of the instruction lets one outside event happen.\<close>

function delay_until :: "unit os" where
  "delay_until w =
     (if expired (mach w) (hart w) then Ret () w
      else case sched w of
          [] \<Rightarrow> Blocked (w\<lparr>mach := du_sleep (hart w) (mach w)\<rparr>)
        | e # es \<Rightarrow> delay_until
            (w\<lparr>mach := du_wake (hart w) (e (du_sleep (hart w) (mach w))), sched := es\<rparr>))"
  by pat_completeness auto
termination
  by (relation "measure (\<lambda>w. length (sched w))") auto

declare delay_until.simps [simp del]

text \<open>\<^verbatim>\<open>*time += period; set_compare(*time); delay_until();\<close>, returning the new \<^verbatim>\<open>*time\<close>.\<close>

definition delay_until_periodic :: "u32 \<Rightarrow> u32 \<Rightarrow> u32 os" where
  "delay_until_periodic time period =
     (let time' = time + period in
      seqm (set_compare time') (seqm delay_until (ret time')))"

definition interrupt_expire :: "unit os" where
  "interrupt_expire = bnd my_hart (\<lambda>h. upd (\<lambda>m. m\<lparr>csr_timer := (csr_timer m)(h := TIMER_IE)\<rparr>))"

definition exception_expire :: "unit os" where
  "exception_expire = bnd my_hart (\<lambda>h. upd (\<lambda>m. m\<lparr>csr_timer := (csr_timer m)(h := TIMER_EE)\<rparr>))"

text \<open>
  The emulator's cycle counter switches: \<^verbatim>\<open>csrrsi x0, uarch14, 1\<close> and
  \<^verbatim>\<open>csrrsi x0, uarch15, 1\<close>. These are the registers of mutexes 6 and 7.
\<close>

definition counters_start :: "unit os" where
  "counters_start = bnd (os_set_csr (CSR_MUTEX 6) 1) (\<lambda>_. ret ())"

definition counters_end :: "unit os" where
  "counters_end = bnd (os_set_csr (CSR_MUTEX 7) 1) (\<lambda>_. ret ())"

text \<open>From \<^verbatim>\<open>src/os/src/flexpret_threads.c\<close>.\<close>

definition osThreadGetId :: "addr os" where
  "osThreadGetId = bnd my_hart (\<lambda>tid. ret (thread_ptr tid))"

definition osDelay :: "u32 \<Rightarrow> osStatus_t os" where
  "osDelay ticks =
     bnd get_time (\<lambda>time.
     bnd (delay_until_periodic time ticks) (\<lambda>_.
     ret osOK))"

section \<open>Waiting\<close>

lemma get_time_app [simp]: "get_time w = Ret (csr_time (mach w)) w"
  by (simp add: get_time_def)

lemma osThreadGetId_app [simp]: "osThreadGetId w = Ret (thread_ptr (hart w)) w"
  by (simp add: osThreadGetId_def)

text \<open>A wait that returns has expired, runs on the same hart and used up part of the schedule.\<close>

lemma delay_until_post:
  "delay_until w = Ret a w' \<Longrightarrow>
    expired (mach w') (hart w') \<and> hart w' = hart w \<and> length (sched w') \<le> length (sched w)"
proof (induction w rule: delay_until.induct)
  case (1 w)
  show ?case
  proof (cases "expired (mach w) (hart w)")
    case True
    with 1 show ?thesis by (simp add: delay_until.simps [of w])
  next
    case False
    with 1 obtain e es where es: "sched w = e # es"
      by (cases "sched w") (simp_all add: delay_until.simps [of w])
    with 1 False show ?thesis by (fastforce simp: delay_until.simps [of w])
  qed
qed

lemma delay_until_no_fault: "delay_until w \<noteq> Fault f"
proof (induction w rule: delay_until.induct)
  case (1 w)
  then show ?case
    by (cases "sched w"; cases "expired (mach w) (hart w)")
      (simp_all add: delay_until.simps [of w])
qed

lemma delay_until_consumes:
  assumes "\<not> expired (mach w) (hart w)" "delay_until w = Ret a w'"
  shows "length (sched w') < length (sched w)"
proof -
  obtain e es where es: "sched w = e # es"
    using assms by (cases "sched w") (simp_all add: delay_until.simps [of w])
  with assms show ?thesis
    using delay_until_post by (fastforce simp: delay_until.simps [of w])
qed

text \<open>A clock tick of \<open>d\<close>, the event of a system in which only time passes.\<close>

definition tick :: "u32 \<Rightarrow> machine \<Rightarrow> machine" where
  "tick d m = m\<lparr>csr_time := csr_time m + d\<rparr>"

text \<open>
  A relative delay of \<open>n\<close>, below half the clock's range, has not expired at its start: the
  thread always gives up the processor at least once.
\<close>

lemma not_expired_start:
  "0 < n \<Longrightarrow> n \<le> 0x80000000 \<Longrightarrow> csr_compare m h = csr_time m + n \<Longrightarrow> \<not> expired m h"
  by (simp add: expired_def bit_31_neg)

end
