(* ===== verification/Mutex.thy ===== *)
theory Mutex
  imports Clock
begin

text \<open>
  \<^verbatim>\<open>src/os/src/flexpret_mutex.c\<close>: mutexes over the eight mutex registers of the hardware.
  A register holds \<open>FLEXPRET_MUTEX_INACTIVE\<close> (1) while the mutex is taken and
  \<open>FLEXPRET_MUTEX_ACTIVE\<close> (0) while it is free; \<^verbatim>\<open>swap_mutex_csr\<close> is the atomic swap the
  lock is built on. A mutex identifier is \<^verbatim>\<open>NULL\<close> or points into
  \<^verbatim>\<open>startup_mutex_state\<close>; the model keeps the index (\<open>nat option\<close>), since the code never
  computes with such a pointer.
\<close>

abbreviation (input) FLEXPRET_MUTEX_INACTIVE :: u32 where
  "FLEXPRET_MUTEX_INACTIVE \<equiv> 1"

abbreviation (input) FLEXPRET_MUTEX_ACTIVE :: u32 where
  "FLEXPRET_MUTEX_ACTIVE \<equiv> 0"

section \<open>Operations\<close>

definition write_mutex_csr :: "nat \<Rightarrow> u32 \<Rightarrow> unit os" where
  "write_mutex_csr i v = (if i < 8 then os_write_csr (CSR_MUTEX i) v else ret ())"

definition swap_mutex_csr :: "nat \<Rightarrow> u32 \<Rightarrow> u32 os" where
  "swap_mutex_csr i v = (if i < 8 then os_swap_csr (CSR_MUTEX i) v else ret (- 1))"

text \<open>Loads and stores through a mutex pointer.\<close>

definition mu_get :: "nat \<Rightarrow> mutex_state os" where
  "mu_get i = seqm (idx i FLEXPRET_MUTEX_MAX_NUM) (rdm (\<lambda>m. startup_mutex_state m i))"

definition mu_upd :: "nat \<Rightarrow> (mutex_state \<Rightarrow> mutex_state) \<Rightarrow> unit os" where
  "mu_upd i f = seqm (idx i FLEXPRET_MUTEX_MAX_NUM)
     (upd (\<lambda>m. m\<lparr>startup_mutex_state :=
        (startup_mutex_state m)(i := f (startup_mutex_state m i))\<rparr>))"

definition osMutexNew :: "osMutexAttr_t option \<Rightarrow> nat option os" where
  "osMutexNew attr = (case attr of
     None \<Rightarrow>
       seqm (flexpret_error (''Dynamic memory alloc of mutex is currently not supported, plz use static alloc instead.'' @ [CHR 0x0A]))
       (ret None)
   | Some a \<Rightarrow>
       bnd (rdm flexpret_mutex_num) (\<lambda>num.
       if FLEXPRET_MUTEX_MAX_NUM \<le> num
       then seqm (flexpret_error (''Max mutex num exceed'' @ [CHR 0x0A])) (ret None)
       else
         seqm (whenm (ma_attr_bits a AND osMutexPrioInherit \<noteq> 0)
           (flexpret_error (''osMutexPrioInherit attr is not support.'' @ [CHR 0x0A])))
         (bnd (rdm flexpret_mutex_num) (\<lambda>mid.
         seqm (upd (\<lambda>m. m\<lparr>flexpret_mutex_num := flexpret_mutex_num m + 1\<rparr>))
         (seqm (mu_upd mid (\<lambda>mu. mu
            \<lparr>mu_csr_addr := mid,
             mu_ifRecursive := (ma_attr_bits a AND osMutexRecursive \<noteq> 0),
             mu_ifRobust := (ma_attr_bits a AND osMutexRobust \<noteq> 0),
             mu_ifSpin := False,
             mu_owner := NULL,
             mu_name := ma_name a,
             mu_active := True,
             mu_count := 0\<rparr>))
         (seqm (write_mutex_csr mid FLEXPRET_MUTEX_ACTIVE)
         (ret (Some mid))))))))"

definition osMutexGetName :: "nat option \<Rightarrow> string option os" where
  "osMutexGetName mutex_id = (case mutex_id of
     Some i \<Rightarrow> bnd (mu_get i) (\<lambda>mu. ret (mu_name mu))
   | None \<Rightarrow> ret (Some ''''))"

text \<open>\<open>mutex->owner = osThreadGetId(); mutex->count = 1;\<close>\<close>

definition take_ownership :: "nat \<Rightarrow> unit os" where
  "take_ownership i =
     bnd osThreadGetId (\<lambda>me.
     mu_upd i (\<lambda>mu. mu\<lparr>mu_owner := me, mu_count := 1\<rparr>))"

text \<open>
  The three waiting loops. Every pass lets at least one outside event happen (in
  \<open>osDelay\<close>, or between two polls of a spinning thread), so the length of the schedule
  bounds the passes; the callers start with one pass more (\<open>wait_forever_fuel\<close> below).
\<close>

fun wait_forever :: "nat \<Rightarrow> nat \<Rightarrow> unit os" where
  "wait_forever 0 i = (\<lambda>w. Blocked w)"
| "wait_forever (Suc n) i =
     bnd (mu_get i) (\<lambda>mu.
     bnd (swap_mutex_csr (mu_csr_addr mu) FLEXPRET_MUTEX_INACTIVE) (\<lambda>old.
     if old = FLEXPRET_MUTEX_ACTIVE then ret ()
     else bnd (mu_get i) (\<lambda>mu.
       seqm (if \<not> mu_ifSpin mu
             then bnd (osDelay FLEXPRET_WAIT_PERIOD) (\<lambda>_. ret ())
             else env_step)
       (wait_forever n i))))"

fun wait_spin :: "nat \<Rightarrow> nat \<Rightarrow> u32 \<Rightarrow> u32 \<Rightarrow> osStatus_t os" where
  "wait_spin 0 i timeout ctime = (\<lambda>w. Blocked w)"
| "wait_spin (Suc n) i timeout ctime =
     bnd (mu_get i) (\<lambda>mu.
     bnd (swap_mutex_csr (mu_csr_addr mu) FLEXPRET_MUTEX_INACTIVE) (\<lambda>old.
     if old = FLEXPRET_MUTEX_ACTIVE then seqm (take_ownership i) (ret osOK)
     else seqm env_step
       (bnd get_time (\<lambda>t.
        if t < timeout + ctime then wait_spin n i timeout ctime else ret osErrorTimeout))))"

fun wait_sleep :: "nat \<Rightarrow> nat \<Rightarrow> u32 \<Rightarrow> u32 \<Rightarrow> u32 \<Rightarrow> osStatus_t os" where
  "wait_sleep 0 i timeout time_period all_time = (\<lambda>w. Blocked w)"
| "wait_sleep (Suc n) i timeout time_period all_time =
     bnd (osDelay time_period) (\<lambda>_.
     bnd (mu_get i) (\<lambda>mu.
     bnd (swap_mutex_csr (mu_csr_addr mu) FLEXPRET_MUTEX_INACTIVE) (\<lambda>old.
     if old = FLEXPRET_MUTEX_ACTIVE then seqm (take_ownership i) (ret osOK)
     else
       (let all_time' = all_time + time_period in
        if all_time' < timeout then wait_sleep n i timeout time_period all_time'
        else ret osErrorTimeout))))"

definition osMutexAcquire :: "nat option \<Rightarrow> u32 \<Rightarrow> osStatus_t os" where
  "osMutexAcquire mutex_id timeout = (case mutex_id of
     None \<Rightarrow> ret osErrorParameter
   | Some i \<Rightarrow>
       bnd (mu_get i) (\<lambda>mu.
       if \<not> mu_active mu then ret osErrorParameter
       else bnd (swap_mutex_csr (mu_csr_addr mu) FLEXPRET_MUTEX_INACTIVE) (\<lambda>old.
         if old = FLEXPRET_MUTEX_ACTIVE then
           bnd (mu_get i) (\<lambda>mu.
           if mu_owner mu = NULL then seqm (take_ownership i) (ret osOK)
           else
             seqm (flexpret_error (''Bad mutex status'' @ [CHR 0x0A]))
             (bnd (mu_get i) (\<lambda>mu.
             seqm (write_mutex_csr (mu_csr_addr mu) FLEXPRET_MUTEX_ACTIVE)
             (ret osError))))
         else
           bnd (mu_get i) (\<lambda>mu.
           bnd osThreadGetId (\<lambda>me.
           if mu_owner mu = me \<and> mu_ifRecursive mu then
             seqm (mu_upd i (\<lambda>mu. mu\<lparr>mu_count := mu_count mu + 1\<rparr>)) (ret osOK)
           else if timeout = 0 then ret osErrorResource
           else if timeout = osWaitForever then
             seqm (\<lambda>w. wait_forever (Suc (length (sched w))) i w)
             (seqm (take_ownership i) (ret osOK))
           else if mu_ifSpin mu then
             bnd get_time (\<lambda>ctime.
             (\<lambda>w. wait_spin (Suc (length (sched w))) i timeout ctime w))
           else
             (let time_period = (if FLEXPRET_WAIT_PERIOD < timeout
                                 then FLEXPRET_WAIT_PERIOD else timeout) in
              (\<lambda>w. wait_sleep (Suc (length (sched w))) i timeout time_period 0 w)))))))"

definition osMutexRelease :: "nat option \<Rightarrow> osStatus_t os" where
  "osMutexRelease mutex_id = (case mutex_id of
     None \<Rightarrow> ret osErrorParameter
   | Some i \<Rightarrow>
       bnd (mu_get i) (\<lambda>mu.
       if \<not> mu_active mu then ret osErrorParameter
       else bnd osThreadGetId (\<lambda>me.
         if mu_owner mu = NULL \<or> mu_owner mu \<noteq> me then ret osErrorResource
         else
           seqm (mu_upd i (\<lambda>mu. mu\<lparr>mu_count := mu_count mu - 1\<rparr>))
           (bnd (mu_get i) (\<lambda>mu.
           seqm (whenm (mu_count mu = 0)
             (seqm (mu_upd i (\<lambda>mu. mu\<lparr>mu_owner := NULL\<rparr>))
              (bnd (mu_get i) (\<lambda>mu. write_mutex_csr (mu_csr_addr mu) FLEXPRET_MUTEX_ACTIVE))))
           (ret osOK))))))"

definition osMutexGetOwner :: "nat option \<Rightarrow> addr os" where
  "osMutexGetOwner mutex_id = (case mutex_id of
     None \<Rightarrow> ret NULL
   | Some i \<Rightarrow>
       bnd (mu_get i) (\<lambda>mu.
       if \<not> mu_active mu then ret NULL else ret (mu_owner mu)))"

definition osMutexDelete :: "nat option \<Rightarrow> osStatus_t os" where
  "osMutexDelete mutex_id = (case mutex_id of
     None \<Rightarrow> ret osErrorParameter
   | Some i \<Rightarrow>
       bnd (mu_get i) (\<lambda>mu.
       if \<not> mu_active mu then ret osErrorParameter
       else seqm (mu_upd i (\<lambda>mu. mu\<lparr>mu_active := False\<rparr>)) (ret osOK)))"

definition osMutexSetSpin :: "nat option \<Rightarrow> int \<Rightarrow> osStatus_t os" where
  "osMutexSetSpin mutex_id ifSpin = (case mutex_id of
     None \<Rightarrow> ret osErrorParameter
   | Some i \<Rightarrow>
       bnd (mu_get i) (\<lambda>mu.
       if \<not> mu_active mu then ret osErrorParameter
       else seqm (mu_upd i (\<lambda>mu. mu\<lparr>mu_ifSpin := (ifSpin \<noteq> 0)\<rparr>)) (ret osOK)))"

definition osMutexGetSpin :: "nat option \<Rightarrow> bool os" where
  "osMutexGetSpin mutex_id = (case mutex_id of
     None \<Rightarrow> ret False
   | Some i \<Rightarrow>
       bnd (mu_get i) (\<lambda>mu.
       if \<not> mu_active mu then ret False else ret (mu_ifSpin mu)))"

section \<open>Symbolic execution\<close>

lemma mu_get_app [simp]: "i < 8 \<Longrightarrow> mu_get i w = Ret (startup_mutex_state (mach w) i) w"
  by (simp add: mu_get_def)

lemma mu_upd_app [simp]: "i < 8 \<Longrightarrow> mu_upd i f w = Ret () (w\<lparr>mach := (mach w)
    \<lparr>startup_mutex_state := (startup_mutex_state (mach w))(i := f (startup_mutex_state (mach w) i))\<rparr>\<rparr>)"
  by (simp add: mu_upd_def)

lemma swap_mutex_csr_app [simp]:
  "i < 8 \<Longrightarrow> swap_mutex_csr i v w = Ret (ucast (csr_mutex (mach w) i))
     (w\<lparr>mach := (mach w)\<lparr>csr_mutex := (csr_mutex (mach w))(i := ucast v)\<rparr>\<rparr>)"
  by (simp add: swap_mutex_csr_def)

lemma write_mutex_csr_app [simp]:
  "i < 8 \<Longrightarrow> write_mutex_csr i v w =
     Ret () (w\<lparr>mach := (mach w)\<lparr>csr_mutex := (csr_mutex (mach w))(i := ucast v)\<rparr>\<rparr>)"
  by (simp add: write_mutex_csr_def)

lemma take_ownership_app [simp]:
  "i < 8 \<Longrightarrow> take_ownership i w = Ret () (w\<lparr>mach := (mach w)
    \<lparr>startup_mutex_state := (startup_mutex_state (mach w))
       (i := (startup_mutex_state (mach w) i)\<lparr>mu_owner := thread_ptr (hart w), mu_count := 1\<rparr>)\<rparr>\<rparr>)"
  by (simp add: take_ownership_def)

lemma ucast_4_eq_0 [simp]: "(ucast (x :: 4 word) :: u32) = 0 \<longleftrightarrow> x = 0"
proof
  assume "(ucast x :: u32) = 0"
  then have "bit (ucast x :: u32) n = False" for n by simp
  then have "\<not> bit x n" if "n < 4" for n
    using that by (auto simp: bit_simps)
  then show "x = 0"
    by (intro bit_word_eqI) simp
qed simp

lemma flag_bits:
  "(x :: u32) AND osMutexRecursive \<noteq> 0 \<longleftrightarrow> bit x 0"
  "x AND osMutexRobust \<noteq> 0 \<longleftrightarrow> bit x 3"
  "x AND osMutexRecursive = 0 \<longleftrightarrow> \<not> bit x 0"
  "x AND osMutexRobust = 0 \<longleftrightarrow> \<not> bit x 3"
  using and_exp_eq_0_iff_not_bit [of x 0] and_exp_eq_0_iff_not_bit [of x 3] by simp_all

section \<open>The lock as a service\<close>

text \<open>
  What a client of a lock relies on: an available lock is acquired at once, and releasing
  it gives back the state it was acquired in, so that a critical section behaves as its
  body does. A recursive lock gives this to any depth below its counter's range.
\<close>

locale lock_service =
  fixes acquire release :: "'s \<Rightarrow> (osStatus_t, 's) result"
    and avail :: "'s \<Rightarrow> bool" and taken :: "'s \<Rightarrow> 's"
  assumes acquire_avail: "avail s \<Longrightarrow> acquire s = Ret osOK (taken s)"
    and release_taken: "avail s \<Longrightarrow> release (taken s) = Ret osOK s"
begin

text \<open>A critical section whose body, run with the lock taken, acts as \<open>f\<close> without it.\<close>

lemma critical_section:
  assumes "avail s" "body (taken s) = Ret a (taken t)" "avail t"
  shows "bnd acquire (\<lambda>r. bnd body (\<lambda>a. bnd release (\<lambda>r'. k r a r'))) s = k osOK a osOK t"
  using assms by (simp add: acquire_avail release_taken)

lemma critical_section_unit:
  assumes "avail s" "body (taken s) = Ret a (taken t)" "avail t"
  shows "seqm acquire (seqm body (seqm release (ret r))) s = Ret r t"
  using assms by (simp add: acquire_avail release_taken)

end

locale recursive_lock =
  fixes acquire release :: "'s \<Rightarrow> (osStatus_t, 's) result"
    and avail :: "'s \<Rightarrow> bool" and held :: "nat \<Rightarrow> 's \<Rightarrow> 's" and max_depth :: nat
  assumes held_0: "held 0 s = s"
    and acquire_held: "avail s \<Longrightarrow> n < max_depth \<Longrightarrow> acquire (held n s) = Ret osOK (held (Suc n) s)"
    and release_held: "avail s \<Longrightarrow> n < max_depth \<Longrightarrow> release (held (Suc n) s) = Ret osOK (held n s)"
    and max_depth_pos: "0 < max_depth"
begin

lemma acquire_n:
  "avail s \<Longrightarrow> n + k \<le> max_depth \<Longrightarrow>
    for_each (replicate n ()) (\<lambda>_. bnd acquire (\<lambda>_. ret ())) (held k s) = Ret () (held (n + k) s)"
proof (induction n arbitrary: k)
  case 0
  then show ?case by simp
next
  case (Suc n)
  then show ?case using Suc.IH [of "Suc k"] by (simp add: acquire_held)
qed

lemma release_n:
  "avail s \<Longrightarrow> n + k \<le> max_depth \<Longrightarrow>
    for_each (replicate n ()) (\<lambda>_. bnd release (\<lambda>_. ret ())) (held (n + k) s) = Ret () (held k s)"
proof (induction n)
  case 0
  then show ?case by simp
next
  case (Suc n)
  then show ?case by (simp add: release_held)
qed

lemma nested_roundtrip:
  assumes "avail s" "n \<le> max_depth"
  shows "seqm (for_each (replicate n ()) (\<lambda>_. bnd acquire (\<lambda>_. ret ())))
     (for_each (replicate n ()) (\<lambda>_. bnd release (\<lambda>_. ret ()))) s = Ret () s"
  using acquire_n [of s n 0] release_n [of s n 0] assms by (simp add: held_0)

end

sublocale recursive_lock \<subseteq> service: lock_service acquire release avail "held 1"
proof
  show "acquire s = Ret osOK (held 1 s)" if "avail s" for s
    using acquire_held [of s 0] that by (simp add: held_0 max_depth_pos)
  show "release (held 1 s) = Ret osOK s" if "avail s" for s
    using release_held [of s 0] that by (simp add: held_0 max_depth_pos)
qed

section \<open>The mutexes provide it\<close>

text \<open>Mutex \<open>i\<close> has been created, not deleted, and nobody holds it.\<close>

definition mutex_avail :: "machine \<Rightarrow> nat \<Rightarrow> bool" where
  "mutex_avail m i \<longleftrightarrow> i < 8 \<and> csr_mutex m i = 0 \<and>
     (let mu = startup_mutex_state m i in
      mu_active mu \<and> mu_csr_addr mu = i \<and> mu_owner mu = NULL \<and> mu_count mu = 0)"

text \<open>Thread \<open>h\<close> holds it \<open>n\<close> deep.\<close>

definition mutex_held :: "nat \<Rightarrow> nat \<Rightarrow> nat \<Rightarrow> machine \<Rightarrow> machine" where
  "mutex_held i h n m = (if n = 0 then m else m
     \<lparr>csr_mutex := (csr_mutex m)(i := 1),
      startup_mutex_state := (startup_mutex_state m)
        (i := (startup_mutex_state m i)\<lparr>mu_owner := thread_ptr h, mu_count := of_nat n\<rparr>)\<rparr>)"

definition held_by_me :: "nat \<Rightarrow> nat \<Rightarrow> world \<Rightarrow> world" where
  "held_by_me i n w = w\<lparr>mach := mutex_held i (hart w) n (mach w)\<rparr>"

lemma of_nat_u32_eq_0: "n < 2 ^ 32 \<Longrightarrow> (of_nat n :: u32) = 0 \<longleftrightarrow> n = 0"
  by (auto simp: word_of_nat_eq_0_iff dest: dvd_imp_le)

lemma acquire_avail_run:
  assumes "mutex_avail (mach w) i"
  shows "osMutexAcquire (Some i) timeout w = Ret osOK (held_by_me i 1 w)"
  using assms
  by (simp add: osMutexAcquire_def mutex_avail_def Let_def held_by_me_def mutex_held_def)

lemma acquire_nested_run:
  assumes "mutex_avail (mach w) i" "hart w < 8" "mu_ifRecursive (startup_mutex_state (mach w) i)"
    "0 < n"
  shows "osMutexAcquire (Some i) timeout (held_by_me i n w) = Ret osOK (held_by_me i (Suc n) w)"
  using assms
  by (simp add: osMutexAcquire_def mutex_avail_def Let_def held_by_me_def mutex_held_def add.commute)

lemma mutex_upd_same: "mu_count mu = n \<Longrightarrow> mu_owner mu = p \<Longrightarrow> mu\<lparr>mu_count := n, mu_owner := p\<rparr> = mu"
  by (cases mu) simp

lemma release_run:
  assumes "mutex_avail (mach w) i" "hart w < 8" "Suc n < 2 ^ 32"
  shows "osMutexRelease (Some i) (held_by_me i (Suc n) w) = Ret osOK (held_by_me i n w)"
proof (cases "n = 0")
  case True
  have "osMutexRelease (Some i) (held_by_me i (Suc n) w) = Ret osOK (w\<lparr>mach := (mach w)
     \<lparr>startup_mutex_state := (startup_mutex_state (mach w))
        (i := (startup_mutex_state (mach w) i)\<lparr>mu_count := 0, mu_owner := NULL\<rparr>),
      csr_mutex := (csr_mutex (mach w))(i := 0)\<rparr>\<rparr>)"
    using assms True
    by (simp add: osMutexRelease_def mutex_avail_def Let_def held_by_me_def mutex_held_def thread_ptr_not_NULL
        exec_eqs del: exec_conds)
  moreover have "(startup_mutex_state (mach w) i)\<lparr>mu_count := 0, mu_owner := NULL\<rparr> = startup_mutex_state (mach w) i"
    "csr_mutex (mach w) i = 0"
    using assms(1) by (simp_all add: mutex_avail_def Let_def mutex_upd_same)
  ultimately show ?thesis
    by (simp add: True held_by_me_def mutex_held_def fun_upd_idem)
next
  case False
  with assms show ?thesis
    by (simp add: osMutexRelease_def mutex_avail_def Let_def held_by_me_def mutex_held_def thread_ptr_not_NULL
        of_nat_u32_eq_0 exec_eqs del: exec_conds)
qed

definition recursive_avail :: "nat \<Rightarrow> world \<Rightarrow> bool" where
  "recursive_avail i w \<longleftrightarrow> mutex_avail (mach w) i \<and> hart w < 8 \<and>
     mu_ifRecursive (startup_mutex_state (mach w) i)"

interpretation mutex_lock: recursive_lock "osMutexAcquire (Some i) timeout" "osMutexRelease (Some i)"
  "recursive_avail i" "held_by_me i" "2 ^ 32 - 1" for i timeout
proof (unfold_locales, goal_cases)
  case (1 s)
  show ?case by (simp add: held_by_me_def mutex_held_def)
next
  case (2 s n)
  then show ?case
    by (cases "n = 0")
      (simp_all add: acquire_nested_run recursive_avail_def acquire_avail_run
        held_by_me_def [of i 0] mutex_held_def [of i _ 0])
next
  case (3 s n)
  then show ?case by (simp add: release_run recursive_avail_def)
next
  case 4
  show ?case by simp
qed

section \<open>Waiting under any environment\<close>

text \<open>
  A fact about the machine that outside events and the sleeping thread itself keep is kept
  by a wait.
\<close>

definition kept_by :: "(machine \<Rightarrow> bool) \<Rightarrow> (machine \<Rightarrow> machine) list \<Rightarrow> bool" where
  "kept_by P es \<longleftrightarrow> (\<forall>e \<in> set es. \<forall>m. P m \<longrightarrow> P (e m))"

definition clock_blind :: "(machine \<Rightarrow> bool) \<Rightarrow> bool" where
  "clock_blind P \<longleftrightarrow> (\<forall>m t c r. P m \<longrightarrow>
     P (m\<lparr>csr_tmodes := t, csr_timer := r\<rparr>) \<and> P (m\<lparr>csr_compare := c, csr_timer := r\<rparr>))"

lemma delay_until_keeps:
  assumes "clock_blind P"
  shows "delay_until w = Ret a w' \<Longrightarrow> kept_by P (sched w) \<Longrightarrow> P (mach w) \<Longrightarrow>
    P (mach w') \<and> hart w' = hart w \<and> set (sched w') \<subseteq> set (sched w)"
proof (induction w rule: delay_until.induct)
  case (1 w)
  show ?case
  proof (cases "expired (mach w) (hart w)")
    case True
    with 1 show ?thesis by (simp add: delay_until.simps [of w])
  next
    case False
    with 1 obtain e es where es: "sched w = e # es"
      by (cases "sched w") (simp_all add: delay_until.simps [of w])
    let ?w = "w\<lparr>mach := du_wake (hart w) (e (du_sleep (hart w) (mach w))), sched := es\<rparr>"
    have "P (mach ?w)"
      using 1 es assms by (auto simp: clock_blind_def kept_by_def du_wake_def du_sleep_def)
    moreover have "kept_by P (sched ?w)"
      using 1 es by (simp add: kept_by_def)
    moreover have "delay_until ?w = Ret a w'"
      using 1 False es by (simp add: delay_until.simps [of w])
    ultimately show ?thesis using 1(1) [OF False es] es by auto
  qed
qed

lemma osDelay_keeps:
  assumes "clock_blind P" "osDelay n w = Ret a w'" "kept_by P (sched w)" "P (mach w)"
  shows "P (mach w') \<and> hart w' = hart w \<and> kept_by P (sched w')"
proof -
  let ?w = "w\<lparr>mach := write_csr CSR_COMPARE (hart w) (csr_time (mach w) + n) (mach w)\<rparr>"
  obtain b where d: "delay_until ?w = Ret b w'"
    using assms(2)
    by (auto simp: osDelay_def delay_until_periodic_def Let_def set_compare_def bnd_eq_Ret_iff
        seqm_eq_Ret_iff)
  have "P (mach ?w)"
    using assms(1,4) by (auto simp: clock_blind_def)
  with delay_until_keeps [OF assms(1) d] assms(3) show ?thesis
    by (auto simp: kept_by_def)
qed

text \<open>The identity of mutex \<open>i\<close>: its register is its own. Nothing but \<open>osMutexNew\<close> writes it.\<close>

definition own_csr :: "nat \<Rightarrow> machine \<Rightarrow> bool" where
  "own_csr i m \<longleftrightarrow> mu_csr_addr (startup_mutex_state m i) = i"

lemma own_csr_blind: "clock_blind (own_csr i)"
  by (simp add: clock_blind_def own_csr_def)

lemma own_csr_update [simp]:
  "own_csr i (m\<lparr>csr_mutex := c\<rparr>) = own_csr i m"
  by (simp add: own_csr_def)

text \<open>What a thread knows once it has taken the mutex.\<close>

definition owns :: "nat \<Rightarrow> nat \<Rightarrow> machine \<Rightarrow> bool" where
  "owns i h m \<longleftrightarrow> csr_mutex m i = 1 \<and> mu_owner (startup_mutex_state m i) = thread_ptr h"

lemma wait_forever_post:
  "i < 8 \<Longrightarrow> wait_forever n i w = Ret () w' \<Longrightarrow> kept_by (own_csr i) (sched w) \<Longrightarrow>
    own_csr i (mach w) \<Longrightarrow> csr_mutex (mach w') i = 1 \<and> hart w' = hart w"
proof (induction n arbitrary: w)
  case 0
  then show ?case by simp
next
  case (Suc n)
  let ?w = "w\<lparr>mach := (mach w)\<lparr>csr_mutex := (csr_mutex (mach w))(i := 1)\<rparr>\<rparr>"
  have i: "mu_csr_addr (startup_mutex_state (mach w) i) = i"
    using Suc.prems by (simp add: own_csr_def)
  show ?case
  proof (cases "csr_mutex (mach w) i = 0")
    case True
    with Suc.prems i show ?thesis by auto
  next
    case False
    then obtain w1 where w1: "wait_forever n i w1 = Ret () w'"
      and step: "(if \<not> mu_ifSpin (startup_mutex_state (mach w) i)
        then bnd (osDelay FLEXPRET_WAIT_PERIOD) (\<lambda>_. ret ()) else env_step) ?w = Ret () w1"
      using Suc.prems i by (auto simp: seqm_eq_Ret_iff)
    have "own_csr i (mach w1) \<and> hart w1 = hart w \<and> kept_by (own_csr i) (sched w1)"
    proof (cases "mu_ifSpin (startup_mutex_state (mach w) i)")
      case True
      with step Suc.prems show ?thesis
        by (cases "sched w") (auto simp: kept_by_def)
    next
      case False
      then obtain r where "osDelay FLEXPRET_WAIT_PERIOD ?w = Ret r w1"
        using step by (auto simp: bnd_eq_Ret_iff)
      from osDelay_keeps [OF own_csr_blind this] Suc.prems show ?thesis by simp
    qed
    with Suc.IH [OF Suc.prems(1) w1] show ?thesis by simp
  qed
qed

lemma wait_spin_post:
  "i < 8 \<Longrightarrow> wait_spin n i timeout ctime w = Ret osOK w' \<Longrightarrow> kept_by (own_csr i) (sched w) \<Longrightarrow>
    own_csr i (mach w) \<Longrightarrow> owns i (hart w) (mach w') \<and> hart w' = hart w"
proof (induction n arbitrary: w)
  case 0
  then show ?case by simp
next
  case (Suc n)
  have i: "mu_csr_addr (startup_mutex_state (mach w) i) = i"
    using Suc.prems by (simp add: own_csr_def)
  show ?case
  proof (cases "csr_mutex (mach w) i = 0")
    case True
    with Suc.prems i show ?thesis by (auto simp: owns_def)
  next
    case False
    with Suc.prems i obtain e es where es: "sched w = e # es"
      by (cases "sched w") simp_all
    let ?w = "w\<lparr>mach := e ((mach w)\<lparr>csr_mutex := (csr_mutex (mach w))(i := 1)\<rparr>), sched := es\<rparr>"
    have "wait_spin n i timeout ctime ?w = Ret osOK w'"
      using Suc.prems i False es by (simp split: if_splits)
    moreover have "kept_by (own_csr i) (sched ?w)" "own_csr i (mach ?w)"
      using Suc.prems es by (auto simp: kept_by_def)
    ultimately show ?thesis
      using Suc.IH [of ?w] Suc.prems(1) by simp
  qed
qed

lemma wait_sleep_post:
  "i < 8 \<Longrightarrow> wait_sleep n i timeout period all w = Ret osOK w' \<Longrightarrow>
    kept_by (own_csr i) (sched w) \<Longrightarrow> own_csr i (mach w) \<Longrightarrow>
    owns i (hart w) (mach w') \<and> hart w' = hart w"
proof (induction n arbitrary: w all)
  case 0
  then show ?case by simp
next
  case (Suc n)
  then obtain r w1 where d: "osDelay period w = Ret r w1"
    by (auto simp: bnd_eq_Ret_iff)
  have k: "own_csr i (mach w1)" "hart w1 = hart w" "kept_by (own_csr i) (sched w1)"
    using osDelay_keeps [OF own_csr_blind d] Suc.prems by simp_all
  then have i: "mu_csr_addr (startup_mutex_state (mach w1) i) = i"
    by (simp add: own_csr_def)
  show ?case
  proof (cases "csr_mutex (mach w1) i = 0")
    case True
    with Suc.prems d k i show ?thesis by (auto simp: owns_def)
  next
    case False
    let ?w = "w1\<lparr>mach := (mach w1)\<lparr>csr_mutex := (csr_mutex (mach w1))(i := 1)\<rparr>\<rparr>"
    have "wait_sleep n i timeout period (all + period) ?w = Ret osOK w'"
      using Suc.prems d i False by (simp add: Let_def split: if_splits)
    with Suc.IH [of "all + period" ?w] Suc.prems(1) k show ?thesis by simp
  qed
qed

declare wait_forever.simps [simp del] wait_spin.simps [simp del] wait_sleep.simps [simp del]

section \<open>The fuel of the waiting loops\<close>

lemma delay_until_blocked: "delay_until w = Blocked w' \<Longrightarrow> sched w' = []"
proof (induction w rule: delay_until.induct)
  case (1 w)
  then show ?case
    by (cases "sched w"; cases "expired (mach w) (hart w)")
      (auto simp: delay_until.simps [of w])
qed

lemma osDelay_blocked: "osDelay n w = Blocked w' \<Longrightarrow> sched w' = []"
  by (cases "delay_until (w\<lparr>mach := write_csr CSR_COMPARE (hart w) (csr_time (mach w) + n) (mach w)\<rparr>)")
    (auto simp: osDelay_def delay_until_periodic_def Let_def set_compare_def
      intro: delay_until_blocked)

lemma osDelay_consumes:
  assumes "osDelay n w = Ret r w'" "0 < n" "n \<le> 0x80000000"
  shows "length (sched w') < length (sched w)"
proof -
  let ?w = "w\<lparr>mach := write_csr CSR_COMPARE (hart w) (csr_time (mach w) + n) (mach w)\<rparr>"
  obtain b where d: "delay_until ?w = Ret b w'"
    using assms(1)
    by (auto simp: osDelay_def delay_until_periodic_def Let_def set_compare_def bnd_eq_Ret_iff
        seqm_eq_Ret_iff)
  have "\<not> expired (mach ?w) (hart ?w)"
    using not_expired_start [OF assms(2,3)] by simp
  from delay_until_consumes [OF this d] show ?thesis by simp
qed

lemma osDelay_no_fault: "osDelay n w \<noteq> Fault e"
  by (cases "delay_until (w\<lparr>mach := write_csr CSR_COMPARE (hart w) (csr_time (mach w) + n) (mach w)\<rparr>)")
    (auto simp: osDelay_def delay_until_periodic_def Let_def set_compare_def delay_until_no_fault)

lemma swap_mutex_csr_total: "\<exists>old w'. swap_mutex_csr i v w = Ret old w' \<and> sched w' = sched w"
  by (cases "i < 8") (simp_all add: swap_mutex_csr_def)

lemma write_mutex_csr_total: "write_mutex_csr i v w \<noteq> Blocked w'"
  by (cases "i < 8") (simp_all add: write_mutex_csr_def)

lemma wait_forever_blocked:
  assumes "i < 8"
  shows "length (sched w) < n \<Longrightarrow> wait_forever n i w = Blocked w' \<Longrightarrow> sched w' = []"
proof (induction n arbitrary: w)
  case 0
  then show ?case by simp
next
  case (Suc n)
  obtain old w1 where sw: "swap_mutex_csr (mu_csr_addr (startup_mutex_state (mach w) i)) 1 w = Ret old w1"
      "sched w1 = sched w"
    using swap_mutex_csr_total by blast
  show ?case
  proof (cases "mu_ifSpin (startup_mutex_state (mach w1) i)")
    case True
    with Suc.prems sw assms Suc.IH [of "w1\<lparr>mach := hd (sched w) (mach w1), sched := tl (sched w)\<rparr>"]
    show ?thesis
      by (cases "sched w") (auto simp: wait_forever.simps(2) split: if_splits)
  next
    case False
    show ?thesis
    proof (cases "osDelay FLEXPRET_WAIT_PERIOD w1")
      case (Ret r w2)
      with osDelay_consumes [OF Ret] Suc.prems(1) sw
      have "length (sched w2) < n" by (simp add: FLEXPRET_WAIT_PERIOD_def)
      from Suc.IH [OF this] Ret Suc.prems sw assms False show ?thesis
        by (auto simp: wait_forever.simps(2) split: if_splits)
    next
      case (Blocked w2)
      with Suc.prems sw assms False osDelay_blocked [OF Blocked] show ?thesis
        by (auto simp: wait_forever.simps(2) split: if_splits)
    next
      case (Fault e)
      then show ?thesis using osDelay_no_fault by blast
    qed
  qed
qed

lemma wait_spin_blocked:
  assumes "i < 8"
  shows "length (sched w) < n \<Longrightarrow> wait_spin n i timeout ctime w = Blocked w' \<Longrightarrow> sched w' = []"
proof (induction n arbitrary: w)
  case 0
  then show ?case by simp
next
  case (Suc n)
  obtain old w1 where sw: "swap_mutex_csr (mu_csr_addr (startup_mutex_state (mach w) i)) 1 w = Ret old w1"
      "sched w1 = sched w"
    using swap_mutex_csr_total by blast
  with Suc.prems assms Suc.IH [of "w1\<lparr>mach := hd (sched w) (mach w1), sched := tl (sched w)\<rparr>"]
  show ?case
    by (cases "sched w") (auto simp: wait_spin.simps(2) split: if_splits)
qed

lemma wait_sleep_blocked:
  assumes "i < 8" "0 < period" "period \<le> 0x80000000"
  shows "length (sched w) < n \<Longrightarrow> wait_sleep n i timeout period all w = Blocked w' \<Longrightarrow> sched w' = []"
proof (induction n arbitrary: w all)
  case 0
  then show ?case by simp
next
  case (Suc n)
  show ?case
  proof (cases "osDelay period w")
    case (Ret r w2)
    obtain old w1 where sw: "swap_mutex_csr (mu_csr_addr (startup_mutex_state (mach w2) i)) 1 w2 = Ret old w1"
        "sched w1 = sched w2"
      using swap_mutex_csr_total by blast
    have "length (sched w1) < n"
      using osDelay_consumes [OF Ret assms(2,3)] Suc.prems(1) sw by simp
    from Suc.IH [OF this] Ret Suc.prems sw assms show ?thesis
      by (auto simp: wait_sleep.simps(2) Let_def split: if_splits)
  next
    case (Blocked w2)
    with Suc.prems osDelay_blocked [OF Blocked] show ?thesis
      by (simp add: wait_sleep.simps(2))
  next
    case (Fault e)
    then show ?thesis using osDelay_no_fault by blast
  qed
qed

text \<open>A system with all eight mutexes created and free, to run the theorems on.\<close>

definition example_machine :: machine where
  "example_machine = (boot_machine 0x200 0x20000100 0x20000200 0x20000600)
     \<lparr>startup_mutex_state := (\<lambda>i. \<lparr>mu_owner = NULL, mu_name = Some ''example'', mu_csr_addr = i,
        mu_count = 0, mu_ifRecursive = True, mu_ifRobust = True, mu_active = True,
        mu_ifSpin = True\<rparr>),
      flexpret_mutex_num := 8, slot_mutex := Some 0\<rparr>"

definition example_world :: "nat \<Rightarrow> (machine \<Rightarrow> machine) list \<Rightarrow> world" where
  "example_world h es = \<lparr>hart = h, mach = example_machine, sched = es\<rparr>"

lemma example_world_simps [simp]:
  "hart (example_world h es) = h" "mach (example_world h es) = example_machine"
  "sched (example_world h es) = es"
  by (simp_all add: example_world_def)

lemma example_avail: "i < 8 \<Longrightarrow> mutex_avail example_machine i"
  by (simp add: mutex_avail_def example_machine_def boot_machine_def)

lemma example_own_csr: "own_csr i example_machine"
  by (simp add: own_csr_def example_machine_def boot_machine_def)

lemma example_flags:
  "mu_ifRecursive (startup_mutex_state example_machine i)"
  "mu_active (startup_mutex_state example_machine i)"
  "mu_ifSpin (startup_mutex_state example_machine i)"
  "mu_owner (startup_mutex_state example_machine i) = NULL"
  "csr_mutex example_machine i = 0" "csr_time example_machine = 0"
  by (simp_all add: example_machine_def boot_machine_def)

section \<open>Properties\<close>

text \<open>The waiting part of \<^verbatim>\<open>osMutexAcquire\<close>, reached when the mutex is taken by another thread.\<close>

definition acquire_wait :: "nat \<Rightarrow> u32 \<Rightarrow> osStatus_t os" where
  "acquire_wait i timeout w =
     (let n = Suc (length (sched w)) in
      if timeout = 0 then Ret osErrorResource w
      else if timeout = osWaitForever then seqm (\<lambda>w. wait_forever (Suc (length (sched w))) i w) (seqm (take_ownership i) (ret osOK)) w
      else if mu_ifSpin (startup_mutex_state (mach w) i) then wait_spin n i timeout (csr_time (mach w)) w
      else wait_sleep n i timeout (if FLEXPRET_WAIT_PERIOD < timeout then FLEXPRET_WAIT_PERIOD else timeout) 0 w)"

lemma acquire_waits:
  assumes "i < 8" "mu_active (startup_mutex_state (mach w) i)"
    and "swap_mutex_csr (mu_csr_addr (startup_mutex_state (mach w) i)) 1 w = Ret old v" "old \<noteq> 0"
    and "\<not> (mu_owner (startup_mutex_state (mach v) i) = thread_ptr (hart v) \<and> mu_ifRecursive (startup_mutex_state (mach v) i))"
  shows "osMutexAcquire (Some i) timeout w = acquire_wait i timeout v"
  using assms by (auto simp: osMutexAcquire_def acquire_wait_def Let_def)

lemma acquire_wait_owns:
  assumes "i < 8" "own_csr i (mach w)" "kept_by (own_csr i) (sched w)" "acquire_wait i timeout w = Ret osOK w'"
  shows "owns i (hart w) (mach w') \<and> hart w' = hart w"
proof -
  have "timeout \<noteq> 0"
    using assms(4) by (auto simp: acquire_wait_def Let_def)
  then consider (forever) "timeout = osWaitForever"
    | (spin) "timeout \<noteq> osWaitForever" "mu_ifSpin (startup_mutex_state (mach w) i)"
    | (sleep) "timeout \<noteq> osWaitForever" "\<not> mu_ifSpin (startup_mutex_state (mach w) i)" by blast
  then show ?thesis
  proof cases
    case forever
    then obtain w1 where w1: "wait_forever (Suc (length (sched w))) i w = Ret () w1" "take_ownership i w1 = Ret () w'"
      using assms(4) by (auto simp: acquire_wait_def Let_def seqm_eq_Ret_iff)
    from wait_forever_post [OF assms(1) w1(1) assms(3,2)] w1(2) assms(1) show ?thesis
      by (auto simp: owns_def)
  next
    case spin
    with \<open>timeout \<noteq> 0\<close> assms(4) show ?thesis
      by (intro wait_spin_post [OF assms(1) _ assms(3,2)]) (auto simp: acquire_wait_def Let_def)
  next
    case sleep
    with \<open>timeout \<noteq> 0\<close> assms(4) show ?thesis
      by (intro wait_sleep_post [OF assms(1) _ assms(3,2)]) (auto simp: acquire_wait_def Let_def)
  qed
qed

text \<open>
  C8: whatever the other threads do while it waits, and on whichever path it succeeds, a
  call of \<^verbatim>\<open>osMutexAcquire\<close> that returns \<^verbatim>\<open>osOK\<close> leaves the calling thread the recorded
  owner with the lock register taken.
\<close>

theorem acquire_ok_owns:
  assumes "i < 8" "own_csr i (mach w)" "kept_by (own_csr i) (sched w)"
    and "osMutexAcquire (Some i) timeout w = Ret osOK w'"
  shows "owns i (hart w) (mach w') \<and> hart w' = hart w"
proof -
  let ?m = "mach w" and ?mu = "startup_mutex_state (mach w) i"
  let ?w = "w\<lparr>mach := ?m\<lparr>csr_mutex := (csr_mutex ?m)(i := 1)\<rparr>\<rparr>"
  have i: "mu_csr_addr ?mu = i"
    using assms(2) by (simp add: own_csr_def)
  have act: "mu_active ?mu"
    using assms(1,4) by (auto simp: osMutexAcquire_def split: if_splits)
  show ?thesis
  proof (cases "csr_mutex ?m i \<noteq> 0 \<and> \<not> (mu_owner ?mu = thread_ptr (hart w) \<and> mu_ifRecursive ?mu)")
    case True
    with act i assms(1) have "osMutexAcquire (Some i) timeout w = acquire_wait i timeout ?w"
      by (intro acquire_waits) auto
    with acquire_wait_owns [of i ?w timeout w'] assms show ?thesis by simp
  next
    case False
    with assms(4) i act assms(1) show ?thesis
      by (auto simp: osMutexAcquire_def owns_def split: if_splits)
  qed
qed

theorem acquire_ok_owns_witness:
  "\<exists>w w' :: world. osMutexAcquire (Some 0) 0 w = Ret osOK w' \<and> owns 0 (hart w) (mach w')"
proof -
  let ?w = "example_world 3 []"
  have r: "osMutexAcquire (Some 0) 0 ?w = Ret osOK (held_by_me 0 1 ?w)"
    by (rule acquire_avail_run) (simp add: example_avail)
  have "owns 0 (hart ?w) (mach (held_by_me 0 1 ?w)) \<and> hart (held_by_me 0 1 ?w) = hart ?w"
    by (rule acquire_ok_owns [OF _ _ _ r]) (simp_all add: kept_by_def example_own_csr)
  with r show ?thesis by blast
qed



text \<open>
  A mutex another thread holds can be neither taken (without waiting) nor released,
  and the attempts change nothing.
\<close>

theorem held_by_other_refused:
  assumes "i < 8" "own_csr i (mach w)" "mu_active (startup_mutex_state (mach w) i)"
    and "owns i h (mach w)" "h < 8" "hart w < 8" "h \<noteq> hart w"
  shows "osMutexAcquire (Some i) 0 w = Ret osErrorResource w \<and>
    osMutexRelease (Some i) w = Ret osErrorResource w"
proof -
  have "thread_ptr h \<noteq> thread_ptr (hart w)" "thread_ptr h \<noteq> NULL"
    using assms by (simp_all add: thread_ptr_inj thread_ptr_not_NULL)
  with assms show ?thesis
    by (simp add: osMutexAcquire_def osMutexRelease_def own_csr_def owns_def fun_upd_idem)
qed

theorem held_by_other_refused_witness:
  "\<exists>w. osMutexAcquire (Some 0) 0 w = Ret osErrorResource w \<and>
    osMutexRelease (Some 0) w = Ret osErrorResource w \<and> owns 0 5 (mach w)"
proof -
  let ?w = "(example_world 3 [])\<lparr>mach := mutex_held 0 5 1 example_machine\<rparr>"
  have o: "owns 0 5 (mach ?w)"
    by (simp add: owns_def mutex_held_def)
  have "osMutexAcquire (Some 0) 0 ?w = Ret osErrorResource ?w \<and>
    osMutexRelease (Some 0) ?w = Ret osErrorResource ?w"
    by (rule held_by_other_refused [OF _ _ _ o])
      (simp_all add: mutex_held_def own_csr_def example_machine_def boot_machine_def)
  with o show ?thesis by blast
qed

text \<open>
  The reference for a spinning wait: after each failed poll (which leaves the register
  taken) one outside event; \<open>Some\<close> of the machine and the events left when a poll first
  finds the register free.
\<close>

fun first_free :: "nat \<Rightarrow> (machine \<Rightarrow> machine) list \<Rightarrow> machine \<Rightarrow>
    (machine \<times> (machine \<Rightarrow> machine) list) option" where
  "first_free i [] m = (if csr_mutex m i = 0 then Some (m, []) else None)"
| "first_free i (e # es) m =
     (if csr_mutex m i = 0 then Some (m, e # es)
      else first_free i es (e (m\<lparr>csr_mutex := (csr_mutex m)(i := 1)\<rparr>)))"

definition spinning :: "nat \<Rightarrow> machine \<Rightarrow> bool" where
  "spinning i m \<longleftrightarrow> own_csr i m \<and> mu_ifSpin (startup_mutex_state m i)"

lemma wait_forever_first_free:
  assumes "i < 8"
  shows "length (sched w) < n \<Longrightarrow> kept_by (spinning i) (sched w) \<Longrightarrow> spinning i (mach w) \<Longrightarrow>
    (case first_free i (sched w) (mach w) of
       Some (m, es) \<Rightarrow> wait_forever n i w = Ret ()
         (w\<lparr>mach := m\<lparr>csr_mutex := (csr_mutex m)(i := 1)\<rparr>, sched := es\<rparr>)
     | None \<Rightarrow> \<exists>w'. wait_forever n i w = Blocked w')"
proof (induction "sched w" arbitrary: w n)
  case Nil
  then obtain k where "n = Suc k" by (cases n) simp_all
  with Nil assms show ?case
    by (cases w) (auto simp: wait_forever.simps spinning_def own_csr_def)
next
  case (Cons e es)
  then obtain k where k: "n = Suc k" by (cases n) simp_all
  let ?w = "w\<lparr>mach := e ((mach w)\<lparr>csr_mutex := (csr_mutex (mach w))(i := 1)\<rparr>), sched := es\<rparr>"
  note es = Cons.hyps(2) [symmetric]
  have c: "mu_csr_addr (startup_mutex_state (mach w) i) = i" "mu_ifSpin (startup_mutex_state (mach w) i)"
    using Cons.prems by (simp_all add: spinning_def own_csr_def)
  show ?case
  proof (cases "csr_mutex (mach w) i = 0")
    case True
    then show ?thesis
      using assms k es c by (cases w) (simp add: wait_forever.simps)
  next
    case False
    have "spinning i (mach ?w)" "kept_by (spinning i) es" "length es < k"
      using Cons.prems k es by (auto simp: kept_by_def spinning_def own_csr_def)
    with Cons.hyps(1) [of ?w k] show ?thesis
      using assms es c False unfolding k
      by (simp add: wait_forever.simps(2) split: option.splits prod.splits)
  qed
qed

lemma acquire_forever_run:
  assumes "i < 8" "own_csr i (mach w)" "mu_active (startup_mutex_state (mach w) i)"
    and "csr_mutex (mach w) i = 1" "mu_owner (startup_mutex_state (mach w) i) \<noteq> thread_ptr (hart w)"
  shows "osMutexAcquire (Some i) osWaitForever w =
    seqm (wait_forever (Suc (length (sched w))) i) (seqm (take_ownership i) (ret osOK)) w"
proof -
  have "w\<lparr>mach := (mach w)\<lparr>csr_mutex := (csr_mutex (mach w))(i := 1)\<rparr>\<rparr> = w"
    using assms(4) by (simp add: fun_upd_idem)
  with assms show ?thesis
    by (simp add: osMutexAcquire_def own_csr_def seqm_def bnd_def)
qed

text \<open>
  C28: \<^verbatim>\<open>osMutexAcquire(m, osWaitForever)\<close> on a spinning mutex that another thread holds
  returns \<^verbatim>\<open>osOK\<close>, as its owner, at the first poll that finds the mutex released,
  and keeps waiting exactly when there is none.
\<close>

theorem acquire_forever_spin:
  assumes "i < 8" "spinning i (mach w)" "kept_by (spinning i) (sched w)"
    and "mu_active (startup_mutex_state (mach w) i)"
    and "csr_mutex (mach w) i = 1" "mu_owner (startup_mutex_state (mach w) i) \<noteq> thread_ptr (hart w)"
  shows "case first_free i (sched w) (mach w) of
     Some (m, es) \<Rightarrow> osMutexAcquire (Some i) osWaitForever w = Ret osOK
       (w\<lparr>mach := m\<lparr>csr_mutex := (csr_mutex m)(i := 1),
            startup_mutex_state := (startup_mutex_state m)(i := (startup_mutex_state m i)
              \<lparr>mu_owner := thread_ptr (hart w), mu_count := 1\<rparr>)\<rparr>, sched := es\<rparr>)
   | None \<Rightarrow> \<exists>w'. osMutexAcquire (Some i) osWaitForever w = Blocked w'"
proof -
  have "w\<lparr>mach := (mach w)\<lparr>csr_mutex := (csr_mutex (mach w))(i := 1)\<rparr>\<rparr> = w"
    using assms(5) by (simp add: fun_upd_idem)
  then show ?thesis
    using wait_forever_first_free [OF assms(1) lessI assms(3,2)] assms
    by (auto simp: osMutexAcquire_def spinning_def own_csr_def fun_upd_idem split: option.splits)
qed

theorem acquire_forever_spin_witness:
  "\<exists>w w'. osMutexAcquire (Some 0) osWaitForever w = Ret osOK w' \<and> owns 0 5 (mach w) \<and> owns 0 3 (mach w')"
proof -
  define rel :: "machine \<Rightarrow> machine" where "rel = (\<lambda>m. m\<lparr>csr_mutex := (csr_mutex m)(0 := 0),
    startup_mutex_state := (startup_mutex_state m)(0 := (startup_mutex_state m 0)\<lparr>mu_owner := NULL\<rparr>)\<rparr>)"
  let ?w = "(example_world 3 [tick 10, rel])\<lparr>mach := mutex_held 0 5 1 example_machine\<rparr>"
  have o: "owns 0 5 (mach ?w)"
    by (simp add: owns_def mutex_held_def)
  obtain m es where ff: "first_free 0 (sched ?w) (mach ?w) = Some (m, es)"
    by (simp add: rel_def tick_def mutex_held_def)
  have run: "case first_free 0 (sched ?w) (mach ?w) of
     Some (m, es) \<Rightarrow> osMutexAcquire (Some 0) osWaitForever ?w = Ret osOK
       (?w\<lparr>mach := m\<lparr>csr_mutex := (csr_mutex m)(0 := 1),
            startup_mutex_state := (startup_mutex_state m)(0 := (startup_mutex_state m 0)
              \<lparr>mu_owner := thread_ptr (hart ?w), mu_count := 1\<rparr>)\<rparr>, sched := es\<rparr>)
   | None \<Rightarrow> \<exists>w'. osMutexAcquire (Some 0) osWaitForever ?w = Blocked w'"
    by (rule acquire_forever_spin)
      (simp_all add: spinning_def kept_by_def rel_def tick_def own_csr_def mutex_held_def
        example_machine_def boot_machine_def thread_ptr_inj)
  obtain w' where "osMutexAcquire (Some 0) osWaitForever ?w = Ret osOK w'" "owns 0 3 (mach w')"
    using run [unfolded ff option.case prod.case] by (simp add: owns_def)
  with o show ?thesis by blast
qed

text \<open>
  The deadline of a timed wait on a spinning mutex is computed in 32 bits. Where
  \<^verbatim>\<open>timeout + ctime\<close> wraps, the call gives up at its first look at the clock, however
  little of the timeout has passed.
\<close>

theorem timed_spin_wrap_gives_up:
  assumes "i < 8" "spinning i (mach w)" "mu_active (startup_mutex_state (mach w) i)"
    and "csr_mutex (mach w) i = 1" "mu_owner (startup_mutex_state (mach w) i) \<noteq> thread_ptr (hart w)"
    and "0 < timeout" "timeout \<noteq> osWaitForever" "timeout + csr_time (mach w) < csr_time (mach w)"
    and "sched w = tick d # es" "csr_time (mach w) \<le> csr_time (mach w) + d" "d < timeout"
  shows "\<exists>w'. osMutexAcquire (Some i) timeout w = Ret osErrorTimeout w' \<and>
    csr_time (mach w') - csr_time (mach w) = d"
proof -
  have "w\<lparr>mach := (mach w)\<lparr>csr_mutex := (csr_mutex (mach w))(i := 1)\<rparr>\<rparr> = w"
    using assms(4) by (simp add: fun_upd_idem)
  moreover have "\<not> csr_time (mach w) + d < timeout + csr_time (mach w)"
    using assms(8,10) by simp
  ultimately show ?thesis
    using assms by (auto simp: osMutexAcquire_def spinning_def own_csr_def wait_spin.simps
        fun_upd_idem tick_def)
qed

theorem timed_spin_wrap_gives_up_witness:
  "\<exists>w w'. osMutexAcquire (Some 0) 1000 w = Ret osErrorTimeout w' \<and>
    csr_time (mach w') - csr_time (mach w) = 10"
proof -
  let ?w = "(example_world 3 [tick 10])
    \<lparr>mach := (mutex_held 0 5 1 example_machine)\<lparr>csr_time := 0xFFFFFF00\<rparr>\<rparr>"
  have "\<exists>w'. osMutexAcquire (Some 0) 1000 ?w = Ret osErrorTimeout w' \<and>
    csr_time (mach w') - csr_time (mach ?w) = 10"
    by (rule timed_spin_wrap_gives_up)
      (simp_all add: spinning_def own_csr_def mutex_held_def example_machine_def boot_machine_def
        thread_ptr_inj)
  then show ?thesis by blast
qed

text \<open>
  \<^verbatim>\<open>osMutexNew\<close> hands out the next control block, with its own register, free and not
  spinning, without touching the others, at most \<^verbatim>\<open>FLEXPRET_MUTEX_MAX_NUM\<close> times.
\<close>

theorem osMutexNew_spec:
  "\<exists>w'. osMutexNew (Some a) w =
      Ret (if flexpret_mutex_num (mach w) < 8 then Some (flexpret_mutex_num (mach w)) else None) w' \<and>
    (let k = flexpret_mutex_num (mach w); m = mach w; m' = mach w' in
     if k < 8
     then mutex_avail m' k \<and> flexpret_mutex_num m' = Suc k \<and>
       (mu_ifRecursive (startup_mutex_state m' k) \<longleftrightarrow> bit (ma_attr_bits a) 0) \<and>
       (mu_ifRobust (startup_mutex_state m' k) \<longleftrightarrow> bit (ma_attr_bits a) 3) \<and>
       \<not> mu_ifSpin (startup_mutex_state m' k) \<and>
       startup_mutex_state m' = (startup_mutex_state m)(k := startup_mutex_state m' k) \<and>
       csr_mutex m' = (csr_mutex m)(k := 0)
     else m' = say (''Max mutex num exceed'' @ [CHR 0x0A]) m)"
  by (cases "flexpret_mutex_num (mach w) < 8"; cases "ma_attr_bits a AND osMutexPrioInherit = 0")
    (simp_all add: osMutexNew_def mutex_avail_def Let_def flag_bits)

text \<open>
  The emulator's \<^verbatim>\<open>counters_start\<close> sets the register of mutex 6. If that mutex was
  free, it is then taken although nobody owns it: no thread can take it without
  waiting, none can release it.
\<close>

theorem counters_start_jams_mutex_6:
  assumes "mutex_avail (mach w) 6" "h < 8"
  shows "\<exists>w'. counters_start w = Ret () w' \<and>
    osMutexAcquire (Some 6) 0 (w'\<lparr>hart := h\<rparr>) = Ret osErrorResource (w'\<lparr>hart := h\<rparr>) \<and>
    osMutexRelease (Some 6) (w'\<lparr>hart := h\<rparr>) = Ret osErrorResource (w'\<lparr>hart := h\<rparr>)"
proof -
  have "NULL \<noteq> thread_ptr h"
    using thread_ptr_not_NULL [OF assms(2)] by simp
  then show ?thesis
    using assms
    by (simp add: counters_start_def osMutexAcquire_def osMutexRelease_def mutex_avail_def Let_def
        fun_upd_idem)
qed

theorem counters_start_jams_mutex_6_witness:
  "\<exists>w w'. counters_start w = Ret () w' \<and> mutex_avail (mach w) 6 \<and>
    osMutexAcquire (Some 6) 0 (w'\<lparr>hart := 2\<rparr>) = Ret osErrorResource (w'\<lparr>hart := 2\<rparr>)"
proof -
  have a: "mutex_avail (mach (example_world 0 [])) 6"
    by (simp add: example_avail)
  from counters_start_jams_mutex_6 [OF a, of 2] a show ?thesis by fastforce
qed

lemma acquire_wait_blocked:
  assumes "i < 8" "acquire_wait i timeout w = Blocked w'"
  shows "sched w' = []"
proof -
  let ?n = "Suc (length (sched w))"
  consider "timeout = 0" | (forever) "timeout = osWaitForever"
    | (spin) "timeout \<noteq> 0" "timeout \<noteq> osWaitForever" "mu_ifSpin (startup_mutex_state (mach w) i)"
    | (sleep) "timeout \<noteq> 0" "timeout \<noteq> osWaitForever" "\<not> mu_ifSpin (startup_mutex_state (mach w) i)" by blast
  then show ?thesis
  proof cases
    case forever
    with assms show ?thesis
      by (cases "wait_forever ?n i w") (auto simp: acquire_wait_def Let_def intro: wait_forever_blocked [OF assms(1) lessI])
  next
    case spin
    with assms(2) show ?thesis
      by (intro wait_spin_blocked [OF assms(1) lessI]) (simp add: acquire_wait_def Let_def)
  next
    case sleep
    with assms(2) have "wait_sleep ?n i timeout
      (if FLEXPRET_WAIT_PERIOD < timeout then FLEXPRET_WAIT_PERIOD else timeout) 0 w = Blocked w'"
      by (simp add: acquire_wait_def Let_def)
    moreover have "0 < timeout" "0 < FLEXPRET_WAIT_PERIOD" "FLEXPRET_WAIT_PERIOD \<le> 0x80000000"
      using sleep(1) by (simp_all add: FLEXPRET_WAIT_PERIOD_def word_gt_0)
    ultimately show ?thesis
      by (intro wait_sleep_blocked [OF assms(1) _ _ lessI]) (auto simp: not_less split: if_splits intro: order_trans)
  qed (use assms in \<open>simp add: acquire_wait_def\<close>)
qed

text \<open>
  A call of \<^verbatim>\<open>osMutexAcquire\<close> that has not returned is waiting for an outside event:
  the bound on the passes of the waiting loops never stops a call early.
\<close>

theorem acquire_blocks_at_schedule_end:
  assumes "osMutexAcquire mutex_id timeout w = Blocked w'"
  shows "sched w' = []"
proof -
  obtain i where i: "mutex_id = Some i" "i < 8"
    using assms by (cases mutex_id; cases "the mutex_id < 8") (auto simp: osMutexAcquire_def mu_get_def)
  let ?mu = "startup_mutex_state (mach w) i"
  obtain old w1 where sw: "swap_mutex_csr (mu_csr_addr ?mu) 1 w = Ret old w1" "sched w1 = sched w"
    using swap_mutex_csr_total by blast
  let ?mu1 = "startup_mutex_state (mach w1) i"
  show ?thesis
  proof (cases "mu_active ?mu \<and> old \<noteq> 0 \<and> \<not> (mu_owner ?mu1 = thread_ptr (hart w1) \<and> mu_ifRecursive ?mu1)")
    case True
    with acquire_waits [OF i(2) _ sw(1), of timeout] assms i show ?thesis
      by (intro acquire_wait_blocked [OF i(2), of timeout w1]) simp
  next
    case False
    with assms i sw show ?thesis
      by (auto simp: osMutexAcquire_def seqm_def bnd_def write_mutex_csr_total split: result.splits if_splits)
  qed
qed

theorem acquire_blocks_at_schedule_end_witness:
  "\<exists>w w'. osMutexAcquire (Some 0) osWaitForever w = Blocked w' \<and> sched w \<noteq> [] \<and> sched w' = []"
proof -
  let ?w = "(example_world 3 [tick 10])\<lparr>mach := mutex_held 0 5 1 example_machine\<rparr>"
  have "\<exists>w'. wait_forever 2 0 ?w = Blocked w'"
    using wait_forever_first_free [of 0 ?w 2]
    by (simp add: kept_by_def spinning_def own_csr_def tick_def mutex_held_def example_flags
        example_own_csr [unfolded own_csr_def])
  then obtain w' where b: "osMutexAcquire (Some 0) osWaitForever ?w = Blocked w'"
    by (auto simp: acquire_forever_run mutex_held_def example_flags thread_ptr_inj
        own_csr_def example_own_csr [unfolded own_csr_def] numeral_2_eq_2)
  from acquire_blocks_at_schedule_end [OF b] b show ?thesis by fastforce
qed

end
