(* ===== verification/Scheduler.thy ===== *)
theory Scheduler
  imports Mutex
begin

text \<open>
  \<^verbatim>\<open>src/os/src/flexpret_scheduler.c\<close>: the slot table and the thread modes. The slot table
  is read, changed and written back under the slot mutex; the thread modes are changed bit
  by bit with the atomic \<^verbatim>\<open>csrrs\<close> and \<^verbatim>\<open>csrrc\<close>.
\<close>

section \<open>Operations\<close>

text \<open>The counting loop of \<^verbatim>\<open>osSchedulerGetFreq\<close>: thread, soft and active counts.\<close>

fun freq_loop :: "u32 \<Rightarrow> u8 list \<Rightarrow> u8 \<times> u8 \<times> u8 \<Rightarrow> u8 \<times> u8 \<times> u8" where
  "freq_loop tid [] c = c"
| "freq_loop tid (s # slots) (thread_count, soft_count, active_count) =
     (let (thread_count, soft_count) =
            (if ucast s = tid then (thread_count + 1, soft_count)
             else if s = SLOT_S then (thread_count, soft_count + 1)
             else (thread_count, soft_count));
          active_count = (if s \<noteq> SLOT_D then active_count + 1 else active_count) in
      freq_loop tid slots (thread_count, soft_count, active_count))"

definition osSchedulerGetFreq :: "addr \<Rightarrow> u32 os" where
  "osSchedulerGetFreq thread_id =
     bnd get_slots (\<lambda>slots.
     bnd (get_tid thread_id) (\<lambda>tid.
     let (thread_count, soft_count, active_count) = freq_loop tid slots (0, 0, 0) in
     ret (push_bit 8 (ucast thread_count AND 0xF) OR push_bit 4 (ucast soft_count AND 0xF) OR
          (ucast active_count AND 0xF))))"

definition THREAD_FREQ :: "u32 \<Rightarrow> u32" where
  "THREAD_FREQ res = drop_bit 8 res AND 0xF"

definition SOFT_SLOT_COUNT :: "u32 \<Rightarrow> u32" where
  "SOFT_SLOT_COUNT res = drop_bit 4 res AND 0xF"

definition ALL_SLOT_COUNT :: "u32 \<Rightarrow> u32" where
  "ALL_SLOT_COUNT res = drop_bit 0 res AND 0xF"

text \<open>
  \<^verbatim>\<open>set_slot_num\<close>: its counting loop, and the loop that rewrites the first \<open>n\<close> slots with a
  given property (\<open>n\<close> is positive where it is called).
\<close>

fun num_loop :: "int \<Rightarrow> u8 list \<Rightarrow> int \<times> int \<Rightarrow> int \<times> int" where
  "num_loop tid [] c = c"
| "num_loop tid (s # slots) (active_count, thread_count) = num_loop tid slots
     (if uint s = tid then (active_count + 1, thread_count + 1)
      else if s \<noteq> SLOT_D then (active_count + 1, thread_count)
      else (active_count, thread_count))"

fun rewrite_loop :: "(u8 \<Rightarrow> bool) \<Rightarrow> u8 \<Rightarrow> u8 list \<Rightarrow> int \<Rightarrow> u8 list" where
  "rewrite_loop P x [] n = []"
| "rewrite_loop P x (s # slots) n =
     (if P s then (if n - 1 = 0 then x # slots else x # rewrite_loop P x slots (n - 1))
      else s # rewrite_loop P x slots n)"

definition set_slot_num :: "int \<Rightarrow> int \<Rightarrow> osStatus_t os" where
  "set_slot_num tid count =
     bnd get_slots (\<lambda>slots.
     let (active_count, thread_count) = num_loop tid slots (0, 0) in
     if count = thread_count then ret osOK
     else if thread_count < count then
       (let slot_to_be_added = count - thread_count in
        if int FLEXPRET_MAX_HW_THREADS_NUMS - 1 < active_count + slot_to_be_added
        then seqm (flexpret_error ''Bad slot count'') (ret osError)
        else seqm (set_slots (rewrite_loop (\<lambda>s. s = SLOT_D) (word_of_int tid) slots slot_to_be_added))
          (ret osOK))
     else
       (let slot_to_be_reduced = thread_count - count in
        seqm (set_slots (rewrite_loop (\<lambda>s. uint s = tid) SLOT_D slots slot_to_be_reduced))
          (ret osOK)))"

text \<open>The lock around the table; each function reads the global \<^verbatim>\<open>slot_mutex\<close> anew.\<close>

definition slot_mutex_acquire :: "osStatus_t os" where
  "slot_mutex_acquire = bnd (rdm slot_mutex) (\<lambda>m. osMutexAcquire m osWaitForever)"

definition slot_mutex_release :: "osStatus_t os" where
  "slot_mutex_release = bnd (rdm slot_mutex) osMutexRelease"

definition set_slot_num_locked :: "int \<Rightarrow> int \<Rightarrow> osStatus_t os" where
  "set_slot_num_locked tid count =
     bnd slot_mutex_acquire (\<lambda>r.
     seqm (whenm (r \<noteq> osOK) (flexpret_error (''Error acquire slot mutex.'' @ [CHR 0x0A])))
     (bnd (set_slot_num tid count) (\<lambda>res.
     bnd slot_mutex_release (\<lambda>r.
     seqm (whenm (r \<noteq> osOK) (flexpret_error (''Error release slot mutex.'' @ [CHR 0x0A])))
     (ret res)))))"

definition osSchedulerSetSlotNum :: "addr \<Rightarrow> int \<Rightarrow> osStatus_t os" where
  "osSchedulerSetSlotNum thread_id count =
     (if count < 0 \<or> int FLEXPRET_MAX_HW_THREADS_NUMS - 1 \<le> count then ret osErrorParameter
      else bnd (get_tid thread_id) (\<lambda>tid. set_slot_num_locked (sint tid) count))"

definition osSchedulerSetSoftSlotNum :: "int \<Rightarrow> osStatus_t os" where
  "osSchedulerSetSoftSlotNum count =
     (if count < 0 \<or> int FLEXPRET_MAX_HW_THREADS_NUMS - 1 \<le> count then ret osErrorParameter
      else set_slot_num_locked (uint SLOT_S) count)"

text \<open>\<^verbatim>\<open>1 << n\<close> is undefined from 32 on.\<close>

definition shift_one :: "u32 \<Rightarrow> u32 os" where
  "shift_one n = seqm (require (n < 32) Bad_Shift) (ret (push_bit (unat n) 1))"

definition set_thread_mode :: "u32 \<Rightarrow> int \<Rightarrow> osStatus_t os" where
  "set_thread_mode tid tmode =
     bnd (shift_one (push_bit 1 tid + 1)) (\<lambda>hbit.
     bnd (shift_one (push_bit 1 tid + 0)) (\<lambda>lbit.
     seqm (if tmode = TMODE_HARD then bnd (os_clear_csr CSR_TMODES hbit) (\<lambda>_. ret ())
       else if tmode = TMODE_SOFT then bnd (os_set_csr CSR_TMODES hbit) (\<lambda>_. ret ())
       else if tmode = TMODE_ACTIVE then bnd (os_clear_csr CSR_TMODES lbit) (\<lambda>_. ret ())
       else if tmode = TMODE_ZOMBIE then bnd (os_set_csr CSR_TMODES lbit) (\<lambda>_. ret ())
       else if tmode = TMODE_SZ then
         seqm (os_set_csr CSR_TMODES hbit) (bnd (os_set_csr CSR_TMODES lbit) (\<lambda>_. ret ()))
       else if tmode = TMODE_SA then
         seqm (os_set_csr CSR_TMODES hbit) (bnd (os_clear_csr CSR_TMODES lbit) (\<lambda>_. ret ()))
       else if tmode = TMODE_HZ then
         seqm (os_clear_csr CSR_TMODES hbit) (bnd (os_set_csr CSR_TMODES lbit) (\<lambda>_. ret ()))
       else if tmode = TMODE_HA then
         seqm (os_clear_csr CSR_TMODES hbit) (bnd (os_clear_csr CSR_TMODES lbit) (\<lambda>_. ret ()))
       else ret ())
     (ret osOK)))"

definition osSchedulerSetTmodes :: "addr \<Rightarrow> int \<Rightarrow> osStatus_t os" where
  "osSchedulerSetTmodes thread_id tmode =
     bnd (get_tid thread_id) (\<lambda>tid. set_thread_mode tid tmode)"

definition osSchedulerGetTmodes :: "addr \<Rightarrow> int os" where
  "osSchedulerGetTmodes thread_id =
     bnd (get_tid thread_id) (\<lambda>tid.
     bnd get_tmodes (\<lambda>tmodes.
     seqm (idx (unat tid) FLEXPRET_HW_THREADS_NUMS)
     (ret (sint (tmodes ! unat tid)))))"

text \<open>
  The loops that count soft threads: those in a soft mode that have a function to run,
  over a list of thread numbers.
\<close>

definition is_soft :: "u32 \<Rightarrow> bool" where
  "is_soft mode \<longleftrightarrow> mode = word_of_int TMODE_SA \<or> mode = word_of_int TMODE_SZ"

fun srtt_loop :: "u32 list \<Rightarrow> (nat \<Rightarrow> hwthread_state) \<Rightarrow> (nat \<Rightarrow> bool) \<Rightarrow> nat list \<Rightarrow> int \<Rightarrow> int" where
  "srtt_loop tmodes st skip [] res = res"
| "srtt_loop tmodes st skip (i # is) res =
     srtt_loop tmodes st skip is
       (if skip i then res
        else if is_soft (tmodes ! i) then (if th_func (st i) \<noteq> NULL then res + 1 else res)
        else res)"

definition osSchedulerGetSRTTNum :: "int os" where
  "osSchedulerGetSRTTNum =
     bnd get_tmodes (\<lambda>tmodes.
     bnd (rdm startup_state) (\<lambda>st.
     ret (srtt_loop tmodes st (\<lambda>i. False) [0..<FLEXPRET_HW_THREADS_NUMS] 0)))"

definition acquire_slot_mutex :: "unit os" where
  "acquire_slot_mutex = bnd slot_mutex_acquire (\<lambda>_. ret ())"

definition release_slot_mutex :: "unit os" where
  "release_slot_mutex = bnd slot_mutex_release (\<lambda>_. ret ())"

definition srtt_terminate :: "u32 \<Rightarrow> unit os" where
  "srtt_terminate tid =
     seqm acquire_slot_mutex
     (seqm
       (bnd get_tmodes (\<lambda>tmodes.
        bnd (rdm startup_state) (\<lambda>st.
        let res = srtt_loop tmodes st (\<lambda>i. of_nat i = tid) [0..<FLEXPRET_HW_THREADS_NUMS] 0 in
        seqm (set_slot_num (sint tid) 0)
        (whenm (res = 0) (bnd (set_slot_num (uint SLOT_S) 0) (\<lambda>_. ret ()))))))
     release_slot_mutex)"

text \<open>The counting loop of the two mode changes: soft and thread counts.\<close>

fun change_loop :: "u32 \<Rightarrow> u8 list \<Rightarrow> int \<times> int \<Rightarrow> int \<times> int" where
  "change_loop tid [] c = c"
| "change_loop tid (s # slots) (soft_count, thread_count) = change_loop tid slots
     (if ucast s = tid then (soft_count, thread_count + 1)
      else if s = SLOT_S then (soft_count + 1, thread_count)
      else (soft_count, thread_count))"

definition change_srtt_to_hrtt :: "u32 \<Rightarrow> unit os" where
  "change_srtt_to_hrtt tid =
     seqm acquire_slot_mutex
     (seqm
       (bnd get_slots (\<lambda>slots.
        bnd get_tmodes (\<lambda>tmodes.
        let (soft_count, thread_count) = change_loop tid slots (0, 0) in
        bnd (rdm startup_state) (\<lambda>st.
        let srtt_num = srtt_loop tmodes st (\<lambda>i. of_nat i = tid) [0..<FLEXPRET_HW_THREADS_NUMS] 0 in
        seqm (whenm (thread_count = 0) (bnd (set_slot_num (sint tid) 1) (\<lambda>_. ret ())))
        (seqm (set_thread_mode tid TMODE_HARD)
        (whenm (srtt_num = 0 \<and> soft_count \<noteq> 0) (bnd (set_slot_num (uint SLOT_S) 0) (\<lambda>_. ret ()))))))))
     release_slot_mutex)"

definition change_hrtt_to_srtt :: "u32 \<Rightarrow> unit os" where
  "change_hrtt_to_srtt tid =
     seqm acquire_slot_mutex
     (seqm
       (bnd get_slots (\<lambda>slots.
        bnd get_tmodes (\<lambda>tmodes.
        let (soft_count, thread_count) = change_loop tid slots (0, 0) in
        bnd (rdm startup_state) (\<lambda>st.
        let srtt_num = srtt_loop tmodes st (\<lambda>i. of_nat i = tid) [0..<FLEXPRET_HW_THREADS_NUMS] 0 in
        seqm (whenm (srtt_num = 0 \<and> soft_count = 0) (bnd (set_slot_num (uint SLOT_S) 1) (\<lambda>_. ret ())))
        (seqm (set_thread_mode tid TMODE_SOFT)
        (whenm (thread_count \<noteq> 0) (bnd (set_slot_num (sint tid) 0) (\<lambda>_. ret ()))))))))
     release_slot_mutex)"

text \<open>Loads through \<^verbatim>\<open>flexpret_thread_attr_entry[tid]\<close>.\<close>

definition attr_get :: "nat \<Rightarrow> osThreadAttr_t os" where
  "attr_get tid =
     seqm (idx tid FLEXPRET_HW_THREADS_NUMS)
     (bnd (rdm (\<lambda>m. thread_attr_entry m tid)) (\<lambda>p.
      case p of None \<Rightarrow> (\<lambda>w. Fault Null_Deref) | Some r \<Rightarrow> rdm (\<lambda>m. thread_attr m r)))"

text \<open>
  In the soft branch \<^verbatim>\<open>soft_count\<close> stays 0, after a message, when the thread has no
  function.
\<close>

definition thread_after_create :: "u32 \<Rightarrow> unit os" where
  "thread_after_create tid =
     seqm acquire_slot_mutex
     (seqm
       (bnd (attr_get (unat tid)) (\<lambda>at.
        if at_priority at = osPriorityRealtime then
          seqm (set_thread_mode tid TMODE_HA)
          (bnd (set_slot_num (sint tid) 1) (\<lambda>_. ret ()))
        else bnd (attr_get (unat tid)) (\<lambda>at.
        if at_priority at = osPriorityNormal then
          seqm (set_thread_mode tid TMODE_SA)
          (bnd get_slots (\<lambda>slots.
           bnd (rdm (\<lambda>m. th_func (startup_state m (unat tid)))) (\<lambda>func.
           let soft_count =
             (if func \<noteq> NULL then foldl (\<lambda>c s. if s = SLOT_S then c + 1 else c) (0 :: int) slots else 0) in
           seqm (whenm (func = NULL) (flexpret_error (''Internal error'' @ [CHR 0x0A])))
           (whenm (soft_count = 0) (bnd (set_slot_num (uint SLOT_S) 1) (\<lambda>_. ret ()))))))
        else flexpret_error (''Unsupported priority'' @ [CHR 0x0A]))))
     release_slot_mutex)"

section \<open>The loops\<close>

lemma num_loop_eq:
  "num_loop tid slots (a, t) =
    (a + int (length (filter (\<lambda>s. uint s = tid \<or> s \<noteq> SLOT_D) slots)),
     t + int (length (filter (\<lambda>s. uint s = tid) slots)))"
  by (induction slots arbitrary: a t) auto

lemma change_loop_eq:
  "change_loop tid slots (a, t) =
    (a + int (length (filter (\<lambda>s. ucast s \<noteq> tid \<and> s = SLOT_S) slots)),
     t + int (length (filter (\<lambda>s. ucast s = tid) slots)))"
  by (induction slots arbitrary: a t) auto

lemma freq_loop_eq:
  "freq_loop tid slots (t, s, a) =
    (t + of_nat (length (filter (\<lambda>s. ucast s = tid) slots)),
     s + of_nat (length (filter (\<lambda>s. ucast s \<noteq> tid \<and> s = SLOT_S) slots)),
     a + of_nat (length (filter (\<lambda>s. s \<noteq> SLOT_D) slots)))"
  by (induction slots arbitrary: t s a) (auto simp: Let_def)

lemma srtt_loop_eq:
  "srtt_loop tmodes st skip is res = res +
    int (length (filter (\<lambda>i. \<not> skip i \<and> is_soft (tmodes ! i) \<and> th_func (st i) \<noteq> NULL) is))"
  by (induction "is" arbitrary: res) auto

lemma soft_foldl_eq:
  "foldl (\<lambda>c s. if s = SLOT_S then c + 1 else c) (n :: int) slots = n + int (count_list slots SLOT_S)"
  by (induction slots arbitrary: n) auto

text \<open>
  Rewriting the first \<open>n\<close> slots that hold \<open>x\<close> to \<open>y\<close>: \<open>n\<close> of them change, from \<open>x\<close> to \<open>y\<close>,
  and nothing else does.
\<close>

lemma length_rewrite_loop [simp]: "length (rewrite_loop P y ss n) = length ss"
  by (induction ss arbitrary: n) auto

lemma rewrite_loop_pointwise:
  "list_all2 (\<lambda>a b. b = a \<or> P a \<and> b = y) ss (rewrite_loop P y ss n)"
  by (induction ss arbitrary: n) (auto intro: list_all2_refl)

lemma rewrite_loop_count:
  assumes "x \<noteq> y"
  shows "0 < n \<Longrightarrow> n \<le> int (count_list ss x) \<Longrightarrow>
    int (count_list (rewrite_loop (\<lambda>s. s = x) y ss n) y) = int (count_list ss y) + n \<and>
    int (count_list (rewrite_loop (\<lambda>s. s = x) y ss n) x) = int (count_list ss x) - n"
  using assms
proof (induction ss arbitrary: n)
  case Nil
  then show ?case by simp
next
  case (Cons s ss)
  show ?case
  proof (cases "s = x \<and> n \<noteq> 1")
    case True
    with Cons.IH [of "n - 1"] Cons.prems show ?thesis by auto
  next
    case False
    with Cons.IH [of n] Cons.prems show ?thesis by auto
  qed
qed

lemma rewrite_loop_count_other:
  "z \<noteq> y \<Longrightarrow> \<not> P z \<Longrightarrow> count_list (rewrite_loop P y ss n) z = count_list ss z"
  by (induction ss arbitrary: n) auto

lemma length_filter_eq_count: "length (filter (\<lambda>s. s = x) ss) = count_list ss x"
  by (induction ss) auto

lemma length_filter_neq_count: "length (filter (\<lambda>s. s \<noteq> x) ss) + count_list ss x = length ss"
  by (induction ss) auto

section \<open>The slot table\<close>

text \<open>
  \<^verbatim>\<open>set_slot_num\<close> as a function of the table, for a thread or \<^verbatim>\<open>SLOT_S\<close> (a value other than
  \<^verbatim>\<open>SLOT_D\<close>): \<open>None\<close> when the free slots do not suffice, one being kept in reserve.
\<close>

definition resize :: "u8 \<Rightarrow> nat \<Rightarrow> u8 list \<Rightarrow> u8 list option" where
  "resize x n slots =
     (let own = count_list slots x in
      if n = own then Some slots
      else if own < n then
        (if n - own < count_list slots SLOT_D
         then Some (rewrite_loop (\<lambda>s. s = SLOT_D) x slots (int (n - own))) else None)
      else Some (rewrite_loop (\<lambda>s. s = x) SLOT_D slots (int (own - n))))"

text \<open>What resizing does: the row of \<open>x\<close> gets length \<open>n\<close>, at the expense of free slots only.\<close>

lemma resize_Some:
  assumes "resize x n slots = Some slots'" "x \<noteq> SLOT_D"
  shows "count_list slots' x = n" "length slots' = length slots"
    "int (count_list slots' SLOT_D) = int (count_list slots SLOT_D) + int (count_list slots x) - int n"
    "y \<noteq> x \<Longrightarrow> y \<noteq> SLOT_D \<Longrightarrow> count_list slots' y = count_list slots y"
    "list_all2 (\<lambda>a b. b = a \<or> a = SLOT_D \<and> b = x \<or> a = x \<and> b = SLOT_D) slots slots'"
proof -
  let ?own = "count_list slots x"
  consider "n = ?own" "slots' = slots"
    | "?own < n" "n - ?own < count_list slots SLOT_D"
      "slots' = rewrite_loop (\<lambda>s. s = SLOT_D) x slots (int (n - ?own))"
    | "n < ?own" "slots' = rewrite_loop (\<lambda>s. s = x) SLOT_D slots (int (?own - n))"
    using assms(1) by (auto simp: resize_def Let_def split: if_splits)
  then have "count_list slots' x = n \<and> length slots' = length slots \<and>
    int (count_list slots' SLOT_D) = int (count_list slots SLOT_D) + int (count_list slots x) - int n \<and>
    (y \<noteq> x \<longrightarrow> y \<noteq> SLOT_D \<longrightarrow> count_list slots' y = count_list slots y) \<and>
    list_all2 (\<lambda>a b. b = a \<or> a = SLOT_D \<and> b = x \<or> a = x \<and> b = SLOT_D) slots slots'"
  proof cases
    case 1
    then show ?thesis by (simp add: list.rel_refl)
  next
    case 2
    then show ?thesis
      using rewrite_loop_count [of SLOT_D x "int (n - ?own)" slots] assms(2)
        rewrite_loop_pointwise [of "\<lambda>s. s = SLOT_D" x slots "int (n - ?own)"]
      by (auto simp: rewrite_loop_count_other elim: list_all2_mono)
  next
    case 3
    then show ?thesis
      using rewrite_loop_count [of x SLOT_D "int (?own - n)" slots] assms(2)
        rewrite_loop_pointwise [of "\<lambda>s. s = x" SLOT_D slots "int (?own - n)"]
      by (auto simp: rewrite_loop_count_other elim: list_all2_mono)
  qed
  then show "count_list slots' x = n" "length slots' = length slots"
    "int (count_list slots' SLOT_D) = int (count_list slots SLOT_D) + int (count_list slots x) - int n"
    "y \<noteq> x \<Longrightarrow> y \<noteq> SLOT_D \<Longrightarrow> count_list slots' y = count_list slots y"
    "list_all2 (\<lambda>a b. b = a \<or> a = SLOT_D \<and> b = x \<or> a = x \<and> b = SLOT_D) slots slots'"
    by simp_all
qed

lemma resize_0: "resize x 0 slots \<noteq> None"
  by (simp add: resize_def Let_def)

lemma resize_fits:
  assumes "resize x n slots = Some slots'" "x \<noteq> SLOT_D" "take_bit 4 x = x"
    and "\<forall>s \<in> set slots. take_bit 4 s = s"
  shows "\<forall>s \<in> set slots'. take_bit 4 s = s"
proof
  fix s assume "s \<in> set slots'"
  then obtain j where j: "j < length slots'" "s = slots' ! j" by (metis in_set_conv_nth)
  have f: "take_bit 4 (SLOT_D :: u8) = SLOT_D" by (simp add: take_bit_eq_mask mask_eq_exp_minus_1)
  from resize_Some(2,5) [OF assms(1,2)] j
  have "slots' ! j = slots ! j \<or> slots' ! j = x \<or> slots' ! j = SLOT_D" "j < length slots"
    by (auto simp: list_all2_conv_all_nth)
  with assms(3,4) j f show "take_bit 4 s = s" by auto
qed

text \<open>The effect on the machine.\<close>

definition slot_effect :: "u8 \<Rightarrow> nat \<Rightarrow> machine \<Rightarrow> machine" where
  "slot_effect x n m = (case resize x n (slots_of m) of
     None \<Rightarrow> say ''Bad slot count'' m
   | Some s \<Rightarrow> m\<lparr>csr_slots := pack_slots (map ucast s)\<rparr>)"

definition slot_status :: "u8 \<Rightarrow> nat \<Rightarrow> machine \<Rightarrow> osStatus_t" where
  "slot_status x n m = (if resize x n (slots_of m) = None then osError else osOK)"

lemma slots_write_back [simp]: "pack_slots (map ucast (slots_of m)) = csr_slots m"
proof -
  have "map ucast (slots_of m) = unpack_slots (csr_slots m)"
  proof -
    have "ucast (ucast x :: u8) = x" if "x \<in> set (unpack_slots (csr_slots m))" for x :: u32
    proof (rule bit_word_eqI)
      fix n assume "n < LENGTH(32)"
      have "take_bit 4 x = x" by (rule slot_reg.unpack_fits [OF that])
      then have "bit x n \<longleftrightarrow> n < 4 \<and> bit x n" by (metis bit_take_bit_iff)
      then show "bit (ucast (ucast x :: u8) :: u32) n = bit x n"
        by (auto simp: bit_simps)
    qed
    then show ?thesis by (simp add: slots_of_def map_idI)
  qed
  then show ?thesis
    using slot_reg.pack_unpack [of "csr_slots m"] by (simp add: take_bit_word_eq_self)
qed

lemma slots_of_effect:
  assumes "x \<noteq> SLOT_D" "take_bit 4 x = x"
  shows "slots_of (slot_effect x n m) =
    (case resize x n (slots_of m) of None \<Rightarrow> slots_of m | Some s \<Rightarrow> s)"
proof (cases "resize x n (slots_of m)")
  case None
  then show ?thesis by (simp add: slot_effect_def slots_of_def)
next
  case (Some s)
  have "\<forall>s \<in> set s. take_bit 4 s = s"
    by (rule resize_fits [OF Some assms]) (simp add: slots_of_fits)
  with Some resize_Some(2) [OF Some assms(1)] show ?thesis
    by (simp add: slot_effect_def map_idI)
qed

lemma set_slot_num_app:
  assumes "x \<noteq> SLOT_D"
  shows "set_slot_num (uint x) (int n) w =
    Ret (slot_status x n (mach w)) (w\<lparr>mach := slot_effect x n (mach w)\<rparr>)"
proof -
  let ?s = "slots_of (mach w)"
  have u: "uint s = uint x \<longleftrightarrow> s = x" for s :: u8
    by (simp add: word_uint_eq_iff)
  have own: "length (filter (\<lambda>s. uint s = uint x) ?s) = count_list ?s x"
    by (simp add: u length_filter_eq_count)
  have "filter (\<lambda>s. uint s = uint x \<or> s \<noteq> SLOT_D) ?s = filter (\<lambda>s. s \<noteq> SLOT_D) ?s"
    using assms by (auto simp: u intro: filter_cong)
  then have act: "length (filter (\<lambda>s. uint s = uint x \<or> s \<noteq> SLOT_D) ?s) + count_list ?s SLOT_D = 8"
    using length_filter_neq_count [of SLOT_D ?s] by simp
  show ?thesis
    using own act
    by (auto simp: u length_filter_eq_count set_slot_num_def num_loop_eq slot_status_def slot_effect_def resize_def Let_def
        of_nat_diff)
qed

section \<open>Thread modes\<close>

definition new_mode :: "int \<Rightarrow> u32 \<Rightarrow> u32" where
  "new_mode tmode old =
     (if tmode = TMODE_HARD then old AND NOT 2 else if tmode = TMODE_SOFT then old OR 2
      else if tmode = TMODE_ACTIVE then old AND NOT 1 else if tmode = TMODE_ZOMBIE then old OR 1
      else if 0 \<le> tmode \<and> tmode < 4 then word_of_int tmode else old)"

text \<open>\<^verbatim>\<open>csrrs\<close> and \<^verbatim>\<open>csrrc\<close> on the mode of one thread.\<close>

definition or_mode :: "nat \<Rightarrow> u32 \<Rightarrow> machine \<Rightarrow> machine" where
  "or_mode t x m = m\<lparr>csr_tmodes := ucast (ucast (csr_tmodes m) OR push_bit (2 * t) x)\<rparr>"

definition clear_mode :: "nat \<Rightarrow> u32 \<Rightarrow> machine \<Rightarrow> machine" where
  "clear_mode t x m = m\<lparr>csr_tmodes := ucast (ucast (csr_tmodes m) AND NOT (push_bit (2 * t) x))\<rparr>"

lemma tmodes_of_or_mode: "t < 8 \<Longrightarrow> take_bit 2 x = x \<Longrightarrow>
    tmodes_of (or_mode t x m) = (tmodes_of m)[t := tmodes_of m ! t OR x]"
  using unpack_tmodes_or [of t "ucast (csr_tmodes m)" x]
  by (simp add: or_mode_def tmodes_of_ucast) (simp add: tmodes_of_def)

lemma tmodes_of_clear_mode: "t < 8 \<Longrightarrow> take_bit 2 x = x \<Longrightarrow>
    tmodes_of (clear_mode t x m) = (tmodes_of m)[t := tmodes_of m ! t AND NOT x]"
  using unpack_tmodes_and_not [of t "ucast (csr_tmodes m)" x]
  by (simp add: clear_mode_def tmodes_of_ucast) (simp add: tmodes_of_def)

definition mode_effect :: "nat \<Rightarrow> int \<Rightarrow> machine \<Rightarrow> machine" where
  "mode_effect t tmode m =
     (if tmode = TMODE_HARD then clear_mode t 2 m else if tmode = TMODE_SOFT then or_mode t 2 m
      else if tmode = TMODE_ACTIVE then clear_mode t 1 m else if tmode = TMODE_ZOMBIE then or_mode t 1 m
      else if tmode = TMODE_SZ then or_mode t 1 (or_mode t 2 m)
      else if tmode = TMODE_SA then clear_mode t 1 (or_mode t 2 m)
      else if tmode = TMODE_HZ then or_mode t 1 (clear_mode t 2 m)
      else if tmode = TMODE_HA then clear_mode t 1 (clear_mode t 2 m) else m)"

lemma shift_one_app:
  assumes "t < 8"
  shows "shift_one (push_bit 1 (of_nat t) + 1) w = Ret (push_bit (2 * t) 2) w"
    "shift_one (push_bit 1 (of_nat t) + 0) w = Ret (push_bit (2 * t) 1) w"
  using assms unfolding less_8_cases by (elim disjE; simp add: shift_one_def)+

lemma set_thread_mode_app:
  assumes "t < 8"
  shows "set_thread_mode (of_nat t) tmode w = Ret osOK (w\<lparr>mach := mode_effect t tmode (mach w)\<rparr>)"
  by (simp add: set_thread_mode_def shift_one_app [OF assms, simplified] mode_effect_def
      or_mode_def clear_mode_def)

lemma mode_bits: "take_bit 2 (1 :: u32) = 1" "take_bit 2 (2 :: u32) = 2" "take_bit 2 (3 :: u32) = 3"
  by (simp_all add: take_bit_eq_mask mask_eq_exp_minus_1)

text \<open>A two bit value is one of the four modes.\<close>

lemma mode_cases: "take_bit 2 (x :: u32) = x \<longleftrightarrow> x = 0 \<or> x = 1 \<or> x = 2 \<or> x = 3"
proof
  assume "take_bit 2 x = x"
  then have "unat x = take_bit 2 (unat x)" by (metis unsigned_take_bit_eq)
  then have "unat x < 4" using take_bit_nat_less_exp [of 2 "unat x"] by simp
  then have "unat x = 0 \<or> unat x = 1 \<or> unat x = 2 \<or> unat x = 3" by arith
  then show "x = 0 \<or> x = 1 \<or> x = 2 \<or> x = 3" by (simp add: word_unat_eq_iff)
qed (auto simp: mode_bits)

lemma tmodes_nth_cases: "t < 8 \<Longrightarrow> tmodes_of m ! t \<in> {0, 1, 2, 3}"
  using tmodes_of_fits [of "tmodes_of m ! t" m] by (simp add: mode_cases)

lemma tmodes_of_mode_effect:
  assumes "t < 8"
  shows "tmodes_of (mode_effect t tmode m) = (tmodes_of m)[t := new_mode tmode (tmodes_of m ! t)]"
proof -
  have l: "tmodes_of m ! t \<in> {0, 1, 2, 3}" by (rule tmodes_nth_cases [OF assms])
  consider "tmode < 0" | "7 < tmode" | "tmode = 0" | "tmode = 1" | "tmode = 2" | "tmode = 3"
    | "tmode = 4" | "tmode = 5" | "tmode = 6" | "tmode = 7" by linarith
  then show ?thesis
    using l assms
    by cases (auto simp: mode_effect_def new_mode_def tmodes_of_or_mode tmodes_of_clear_mode
        mode_bits list_update_same_conv)
qed

lemma is_soft_new_mode: 
  assumes "x \<in> {0, 1, 2, 3}"
  shows "is_soft (new_mode TMODE_SOFT x)" "\<not> is_soft (new_mode TMODE_HARD x)"
    "is_soft (new_mode TMODE_ZOMBIE x) = is_soft x" "is_soft (new_mode TMODE_ACTIVE x) = is_soft x"
  using assms by (auto simp: is_soft_def new_mode_def)

section \<open>Critical sections of the slot mutex\<close>

definition slot_ready :: "world \<Rightarrow> bool" where
  "slot_ready w \<longleftrightarrow> hart w < 8 \<and>
     (case slot_mutex (mach w) of None \<Rightarrow> False | Some i \<Rightarrow> mutex_avail (mach w) i)"

definition slot_taken :: "world \<Rightarrow> world" where
  "slot_taken w = held_by_me (the (slot_mutex (mach w))) 1 w"

lemma mutex_held_simps [simp]:
  "slot_mutex (mutex_held i h n m) = slot_mutex m" "csr_slots (mutex_held i h n m) = csr_slots m"
  "csr_tmodes (mutex_held i h n m) = csr_tmodes m"
  "startup_state (mutex_held i h n m) = startup_state m"
  "thread_attr (mutex_held i h n m) = thread_attr m"
  "thread_attr_entry (mutex_held i h n m) = thread_attr_entry m"
  "emulator_out (mutex_held i h n m) = emulator_out m"
  by (simp_all add: mutex_held_def)

lemma slot_taken_simps [simp]:
  "hart (slot_taken w) = hart w" "sched (slot_taken w) = sched w"
  "mach (slot_taken w) = mutex_held (the (slot_mutex (mach w))) (hart w) 1 (mach w)"
  by (simp_all add: slot_taken_def held_by_me_def)

interpretation slot_lock: lock_service slot_mutex_acquire slot_mutex_release slot_ready slot_taken
proof (unfold_locales, goal_cases)
  case (1 w)
  then show ?case
    by (auto simp: slot_ready_def slot_mutex_acquire_def slot_taken_def acquire_avail_run
        split: option.splits)
next
  case (2 w)
  then obtain i where i: "slot_mutex (mach w) = Some i" "mutex_avail (mach w) i" "hart w < 8"
    by (auto simp: slot_ready_def split: option.splits)
  with release_run [of w i 0] show ?case
    by (simp add: slot_mutex_release_def slot_taken_def held_by_me_def mutex_held_def)
qed

text \<open>A change of the machine that leaves the mutexes alone and does not depend on them.\<close>

definition lock_blind :: "(machine \<Rightarrow> machine) \<Rightarrow> bool" where
  "lock_blind f \<longleftrightarrow> (\<forall>m i h n. f (mutex_held i h n m) = mutex_held i h n (f m) \<and>
     slot_mutex (f m) = slot_mutex m \<and> mutex_avail (f m) i = mutex_avail m i)"

lemma lock_blind_comp: "lock_blind f \<Longrightarrow> lock_blind g \<Longrightarrow> lock_blind (\<lambda>m. f (g m))"
  by (simp add: lock_blind_def)

lemma lock_blind_id: "lock_blind (\<lambda>m. m)"
  by (simp add: lock_blind_def)

lemma lock_blind_if:
  "lock_blind f \<Longrightarrow> lock_blind g \<Longrightarrow> (\<And>m i h n. P (mutex_held i h n m) = P m) \<Longrightarrow>
    lock_blind (\<lambda>m. if P m then f m else g m)"
  by (simp add: lock_blind_def)

lemma lock_blind_slot_effect: "lock_blind (slot_effect x n)"
  by (auto simp: lock_blind_def slot_effect_def slots_of_def mutex_held_def mutex_avail_def say_def
      split: option.splits)

lemma lock_blind_mode_effect: "lock_blind (mode_effect t k)"
  by (auto simp: lock_blind_def mode_effect_def or_mode_def clear_mode_def mutex_held_def
      mutex_avail_def)

lemma lock_blind_say: "lock_blind (say x)"
  by (auto simp: lock_blind_def mutex_held_def mutex_avail_def say_def)

text \<open>
  A critical section whose body acts as such a change does so as a whole: the lock is taken,
  and free again at the end.
\<close>

lemma slot_section:
  assumes "slot_ready w" "lock_blind f"
    and "body (slot_taken w) = Ret a ((slot_taken w)\<lparr>mach := f (mach (slot_taken w))\<rparr>)"
  shows "seqm acquire_slot_mutex (seqm body release_slot_mutex) w = Ret () (w\<lparr>mach := f (mach w)\<rparr>)"
    and "bnd slot_mutex_acquire (\<lambda>r. bnd body (\<lambda>a. bnd slot_mutex_release (\<lambda>r'. k r a r'))) w =
      k osOK a osOK (w\<lparr>mach := f (mach w)\<rparr>)"
proof -
  let ?w = "w\<lparr>mach := f (mach w)\<rparr>"
  have r: "slot_ready ?w"
    using assms(1,2) by (auto simp: slot_ready_def lock_blind_def split: option.splits)
  have b: "body (slot_taken w) = Ret a (slot_taken ?w)"
    using assms(2,3) by (simp add: slot_taken_def held_by_me_def lock_blind_def)
  show "bnd slot_mutex_acquire (\<lambda>r. bnd body (\<lambda>a. bnd slot_mutex_release (\<lambda>r'. k r a r'))) w =
      k osOK a osOK ?w"
    using slot_lock.critical_section [of w body a ?w k, OF assms(1) b r] .
  show "seqm acquire_slot_mutex (seqm body release_slot_mutex) w = Ret () ?w"
    using slot_lock.acquire_avail [OF assms(1)] slot_lock.release_taken [OF r] b
    by (simp add: acquire_slot_mutex_def release_slot_mutex_def)
qed

lemma slots_of_held [simp]: "slots_of (mutex_held i h n m) = slots_of m"
  by (simp add: slots_of_def)

lemma tmodes_of_held [simp]: "tmodes_of (mutex_held i h n m) = tmodes_of m"
  by (simp add: tmodes_of_def)

section \<open>Effects of the operations\<close>

text \<open>Live soft threads other than \<open>t\<close>.\<close>

definition other_soft :: "machine \<Rightarrow> nat \<Rightarrow> bool" where
  "other_soft m t \<longleftrightarrow>
     (\<exists>u < 8. u \<noteq> t \<and> is_soft (tmodes_of m ! u) \<and> th_func (startup_state m u) \<noteq> NULL)"

lemma of_nat_u32_inj: "i < 8 \<Longrightarrow> t < 8 \<Longrightarrow> (of_nat i :: u32) = of_nat t \<longleftrightarrow> i = t"
  by (auto simp: less_8_cases)

lemma srtt_loop_other:
  assumes "t < 8"
  shows "srtt_loop (tmodes_of m) (startup_state m) (\<lambda>i. of_nat i = (of_nat t :: u32)) [0..<8] 0 = 0 \<longleftrightarrow>
    \<not> other_soft m t"
  using assms by (auto simp: srtt_loop_eq filter_empty_conv other_soft_def of_nat_u32_inj)

lemma other_soft_held [simp]: "other_soft (mutex_held i h n m) t = other_soft m t"
  by (simp add: other_soft_def)

lemma thread_slot:
  assumes "t < 8"
  shows "(of_nat t :: u8) \<noteq> SLOT_D" "(of_nat t :: u8) \<noteq> SLOT_S" "take_bit 4 (of_nat t :: u8) = of_nat t"
    "sint (of_nat t :: u32) = uint (of_nat t :: u8)" "unat (of_nat t :: u32) = t"
  using assms unfolding less_8_cases
  by (elim disjE; simp add: take_bit_eq_mask mask_eq_exp_minus_1)+

lemma soft_slot: "(SLOT_S :: u8) \<noteq> SLOT_D" "take_bit 4 (SLOT_S :: u8) = SLOT_S"
  by (simp_all add: take_bit_eq_mask mask_eq_exp_minus_1)

lemma set_thread_slot_num_app:
  "t < 8 \<Longrightarrow> set_slot_num (sint (of_nat t :: u32)) (int n) w =
    Ret (slot_status (of_nat t) n (mach w)) (w\<lparr>mach := slot_effect (of_nat t) n (mach w)\<rparr>)"
  using set_slot_num_app [OF thread_slot(1), of t n w] by (simp only: thread_slot(4))

lemma set_soft_slot_num_app:
  "set_slot_num (uint SLOT_S) (int n) w =
    Ret (slot_status SLOT_S n (mach w)) (w\<lparr>mach := slot_effect SLOT_S n (mach w)\<rparr>)"
  by (rule set_slot_num_app [OF soft_slot(1)])

lemma ucast_slot_eq:
  assumes "t < 8"
  shows "(ucast (s :: u8) :: u32) = of_nat t \<longleftrightarrow> s = of_nat t"
proof -
  have "unat (of_nat t :: u8) = t" "unat (of_nat t :: u32) = t"
    using assms unfolding less_8_cases by (elim disjE; simp)+
  moreover have "unat (ucast s :: u32) = unat s"
  proof -
    have "unat s < 2 ^ LENGTH(8)" by (rule unsigned_less)
    then show ?thesis by (simp add: unsigned_ucast_eq take_bit_nat_eq_self)
  qed
  ultimately show ?thesis
    by (simp only: word_unat_eq_iff)
qed

lemma change_loop_counts:
  assumes "t < 8"
  shows "change_loop (of_nat t) slots (0, 0) =
    (int (count_list slots SLOT_S), int (count_list slots (of_nat t)))"
proof -
  have "filter (\<lambda>s. s \<noteq> of_nat t \<and> s = SLOT_S) slots = filter (\<lambda>s. s = SLOT_S) slots"
    using thread_slot(2) [OF assms] by (auto intro: filter_cong)
  then show ?thesis
    by (simp add: change_loop_eq ucast_slot_eq [OF assms] length_filter_eq_count)
qed

definition terminate_effect :: "nat \<Rightarrow> machine \<Rightarrow> machine" where
  "terminate_effect t m =
     (let m' = slot_effect (of_nat t) 0 m in
      if other_soft m t then m' else slot_effect SLOT_S 0 m')"

definition to_hard_effect :: "nat \<Rightarrow> machine \<Rightarrow> machine" where
  "to_hard_effect t m =
     (let m' = mode_effect t TMODE_HARD
            (if of_nat t \<in> set (slots_of m) then m else slot_effect (of_nat t) 1 m) in
      if \<not> other_soft m t \<and> SLOT_S \<in> set (slots_of m) then slot_effect SLOT_S 0 m' else m')"

definition to_soft_effect :: "nat \<Rightarrow> machine \<Rightarrow> machine" where
  "to_soft_effect t m =
     (let m' = mode_effect t TMODE_SOFT
            (if \<not> other_soft m t \<and> SLOT_S \<notin> set (slots_of m) then slot_effect SLOT_S 1 m else m) in
      if of_nat t \<in> set (slots_of m) then slot_effect (of_nat t) 0 m' else m')"

lemma slot_effect_held [simp]:
  "slot_effect x n (mutex_held i h d m) = mutex_held i h d (slot_effect x n m)"
  "slot_mutex (slot_effect x n m) = slot_mutex m" "mutex_avail (slot_effect x n m) i = mutex_avail m i"
  using lock_blind_slot_effect [of x n] by (simp_all add: lock_blind_def)

lemma mode_effect_held [simp]:
  "mode_effect t k (mutex_held i h d m) = mutex_held i h d (mode_effect t k m)"
  "slot_mutex (mode_effect t k m) = slot_mutex m" "mutex_avail (mode_effect t k m) i = mutex_avail m i"
  using lock_blind_mode_effect [of t k] by (simp_all add: lock_blind_def)

lemma say_held [simp]:
  "say x (mutex_held i h d m) = mutex_held i h d (say x m)"
  "mutex_avail (say x m) i = mutex_avail m i"
  using lock_blind_say [of x] by (simp_all add: lock_blind_def)

definition create_effect :: "int \<Rightarrow> nat \<Rightarrow> machine \<Rightarrow> machine" where
  "create_effect priority t m =
     (if priority = osPriorityRealtime then slot_effect (of_nat t) 1 (mode_effect t TMODE_HA m)
      else if priority = osPriorityNormal then
        (let m' = mode_effect t TMODE_SA m in
         if SLOT_S \<in> set (slots_of m) then m' else slot_effect SLOT_S 1 m')
      else say (''Unsupported priority'' @ [CHR 0x0A]) m)"

lemma lock_blind_effects:
  "lock_blind (terminate_effect t)" "lock_blind (to_hard_effect t)" "lock_blind (to_soft_effect t)"
  "lock_blind (create_effect p t)"
  by (simp_all add: lock_blind_def terminate_effect_def to_hard_effect_def to_soft_effect_def
      create_effect_def Let_def)

lemma srtt_terminate_run:
  assumes "slot_ready w" "t < 8"
  shows "srtt_terminate (of_nat t) w = Ret () (w\<lparr>mach := terminate_effect t (mach w)\<rparr>)"
  unfolding srtt_terminate_def
proof (rule slot_section(1) [OF assms(1) lock_blind_effects(1)])
qed (use assms(2) set_thread_slot_num_app [of t 0] set_soft_slot_num_app [of 0] in
  \<open>simp add: terminate_effect_def Let_def srtt_loop_other [simplified]\<close>)

lemma startup_state_mode_effect [simp]: "startup_state (mode_effect t k m) = startup_state m"
  by (simp add: mode_effect_def or_mode_def clear_mode_def)

lemma startup_state_slot_effect [simp]: "startup_state (slot_effect x n m) = startup_state m"
  by (simp add: slot_effect_def split: option.splits)

lemma tmodes_of_slot_effect [simp]: "tmodes_of (slot_effect x n m) = tmodes_of m"
  by (simp add: slot_effect_def tmodes_of_def split: option.splits)

lemma slots_of_mode_effect [simp]: "slots_of (mode_effect t k m) = slots_of m"
  by (simp add: slots_of_def mode_effect_def or_mode_def clear_mode_def)

lemma change_srtt_to_hrtt_run:
  assumes "slot_ready w" "t < 8"
  shows "change_srtt_to_hrtt (of_nat t) w = Ret () (w\<lparr>mach := to_hard_effect t (mach w)\<rparr>)"
  unfolding change_srtt_to_hrtt_def
proof (rule slot_section(1) [OF assms(1) lock_blind_effects(2)])
qed (use assms(2) set_thread_slot_num_app [of t 1] set_soft_slot_num_app [of 0] in
  \<open>simp add: to_hard_effect_def Let_def srtt_loop_other [simplified] change_loop_counts
    set_thread_mode_app count_list_0_iff\<close>)

lemma change_hrtt_to_srtt_run:
  assumes "slot_ready w" "t < 8"
  shows "change_hrtt_to_srtt (of_nat t) w = Ret () (w\<lparr>mach := to_soft_effect t (mach w)\<rparr>)"
  unfolding change_hrtt_to_srtt_def
proof (rule slot_section(1) [OF assms(1) lock_blind_effects(3)])
qed (use assms(2) set_thread_slot_num_app [of t 0] set_soft_slot_num_app [of 1] in
  \<open>simp add: to_soft_effect_def Let_def srtt_loop_other [simplified] change_loop_counts
    set_thread_mode_app count_list_0_iff\<close>)

lemma thread_after_create_run:
  assumes "slot_ready w" "t < 8" "thread_attr_entry (mach w) t = Some r"
    and "th_func (startup_state (mach w) t) \<noteq> NULL"
  shows "thread_after_create (of_nat t) w =
    Ret () (w\<lparr>mach := create_effect (at_priority (thread_attr (mach w) r)) t (mach w)\<rparr>)"
  unfolding thread_after_create_def
proof (rule slot_section(1) [OF assms(1) lock_blind_effects(4)])
qed (use assms(2-4) thread_slot(5) [OF assms(2)] set_thread_slot_num_app [of t 1]
    set_soft_slot_num_app [of 1] in \<open>simp add: attr_get_def create_effect_def Let_def set_thread_mode_app soft_foldl_eq count_list_0_iff\<close>)

section \<open>Who can run\<close>

text \<open>
  A thread is given processor time by a slot of its own or, when it is soft, by a soft slot.
\<close>

definition can_run :: "machine \<Rightarrow> nat \<Rightarrow> bool" where
  "can_run m t \<longleftrightarrow> of_nat t \<in> set (slots_of m) \<or>
     is_soft (tmodes_of m ! t) \<and> SLOT_S \<in> set (slots_of m)"

lemma count_slot_effect:
  assumes "x \<noteq> SLOT_D" "take_bit 4 x = x"
  shows "count_list (slots_of (slot_effect x n m)) x =
      (if resize x n (slots_of m) = None then count_list (slots_of m) x else n)"
    and "y \<noteq> x \<Longrightarrow> y \<noteq> SLOT_D \<Longrightarrow>
      count_list (slots_of (slot_effect x n m)) y = count_list (slots_of m) y"
  using resize_Some(1,4) [of x n "slots_of m"] assms
  by (auto simp: slots_of_effect [OF assms] split: option.splits)

lemma mem_count: "x \<in> set xs \<longleftrightarrow> 0 < count_list xs x"
  using count_list_0_iff [of xs x] by auto

lemma resize_1_None: "resize x (Suc 0) slots = None \<longleftrightarrow> x \<notin> set slots \<and> count_list slots SLOT_D \<le> 1"
  by (auto simp: resize_def Let_def mem_count)

lemma mem_slot_effect:
  assumes "x \<noteq> SLOT_D" "take_bit 4 x = x"
  shows "x \<in> set (slots_of (slot_effect x 0 m)) \<longleftrightarrow> False"
    and "x \<in> set (slots_of (slot_effect x (Suc 0) m)) \<longleftrightarrow>
      x \<in> set (slots_of m) \<or> 1 < count_list (slots_of m) SLOT_D"
    and "y \<noteq> x \<Longrightarrow> y \<noteq> SLOT_D \<Longrightarrow> y \<in> set (slots_of (slot_effect x n m)) \<longleftrightarrow> y \<in> set (slots_of m)"
  using count_slot_effect(1) [OF assms, of _ m] count_slot_effect(2) [OF assms, of y n m] resize_1_None [of x "slots_of m"]
    resize_0 [of x "slots_of m"]
  by (auto simp: mem_count)

lemma of_nat_u8_inj: "t < 8 \<Longrightarrow> u < 8 \<Longrightarrow> (of_nat t :: u8) = of_nat u \<longleftrightarrow> t = u"
  by (auto simp: less_8_cases)

lemma mem_thread_effect:
  assumes "t < 8"
  shows "of_nat t \<notin> set (slots_of (slot_effect (of_nat t) 0 m))"
    "of_nat t \<in> set (slots_of (slot_effect (of_nat t) (Suc 0) m)) \<longleftrightarrow>
      of_nat t \<in> set (slots_of m) \<or> 1 < count_list (slots_of m) SLOT_D"
    "SLOT_S \<in> set (slots_of (slot_effect (of_nat t) n m)) \<longleftrightarrow> SLOT_S \<in> set (slots_of m)"
    "u < 8 \<Longrightarrow> u \<noteq> t \<Longrightarrow> of_nat u \<in> set (slots_of (slot_effect (of_nat t) n m)) \<longleftrightarrow>
      of_nat u \<in> set (slots_of m)"
  using mem_slot_effect(1,2) [OF thread_slot(1,3) [OF assms]] thread_slot(2) [OF assms]
    mem_slot_effect(3) [OF thread_slot(1,3) [OF assms], of SLOT_S n m] 
    mem_slot_effect(3) [OF thread_slot(1,3) [OF assms], of "of_nat u" n m] 
    of_nat_u8_inj [of u t] thread_slot(1) [of u] assms
  by auto

lemma mem_soft_effect:
  "SLOT_S \<notin> set (slots_of (slot_effect SLOT_S 0 m))"
  "SLOT_S \<in> set (slots_of (slot_effect SLOT_S (Suc 0) m)) \<longleftrightarrow>
    SLOT_S \<in> set (slots_of m) \<or> 1 < count_list (slots_of m) SLOT_D"
  "u < 8 \<Longrightarrow> of_nat u \<in> set (slots_of (slot_effect SLOT_S n m)) \<longleftrightarrow> of_nat u \<in> set (slots_of m)"
  using mem_slot_effect(1,2) [OF soft_slot] mem_slot_effect(3) [OF soft_slot, of "of_nat u" n m]
    thread_slot(1,2) [of u]
  by auto

lemmas slot_membership = mem_thread_effect mem_soft_effect thread_slot(1-3) of_nat_u8_inj

text \<open>
  Live threads: those with a function. A live thread that runs goes on running when another
  thread changes its kind or ends; the slot of the soft threads is given up only when no live
  soft thread is left.
\<close>

definition live :: "machine \<Rightarrow> nat \<Rightarrow> bool" where
  "live m t \<longleftrightarrow> th_func (startup_state m t) \<noteq> NULL"

lemma other_softI:
  "u < 8 \<Longrightarrow> u \<noteq> t \<Longrightarrow> live m u \<Longrightarrow> is_soft (tmodes_of m ! u) \<Longrightarrow> other_soft m t"
  by (auto simp: other_soft_def live_def)

lemma to_hard_others:
  assumes "t < 8" "u < 8" "u \<noteq> t" "live m u" "can_run m u"
  shows "can_run (to_hard_effect t m) u"
  using assms other_softI [of u t m]
  by (auto simp: can_run_def to_hard_effect_def Let_def slot_membership tmodes_of_mode_effect)

lemma to_soft_others:
  assumes "t < 8" "u < 8" "u \<noteq> t" "can_run m u"
  shows "can_run (to_soft_effect t m) u"
  using assms
  by (auto simp: can_run_def to_soft_effect_def Let_def slot_membership tmodes_of_mode_effect)

lemma terminate_others:
  assumes "t < 8" "u < 8" "u \<noteq> t" "live m u" "can_run m u"
  shows "can_run (terminate_effect t m) u"
  using assms other_softI [of u t m]
  by (auto simp: can_run_def terminate_effect_def Let_def slot_membership)

section \<open>Properties\<close>

lemma slot_ready_effect [simp]:
  "lock_blind f \<Longrightarrow> slot_ready (w\<lparr>mach := f (mach w)\<rparr>) = slot_ready w"
  by (auto simp: slot_ready_def lock_blind_def split: option.splits)

lemma set_slot_num_locked_run:
  assumes "slot_ready w" "x \<noteq> SLOT_D"
  shows "set_slot_num_locked (uint x) (int n) w =
    Ret (slot_status x n (mach w)) (w\<lparr>mach := slot_effect x n (mach w)\<rparr>)"
proof -
  have s: "slot_status x n (mach (slot_taken w)) = slot_status x n (mach w)"
    by (simp add: slot_status_def)
  have b: "set_slot_num (uint x) (int n) (slot_taken w) = Ret (slot_status x n (mach w))
      ((slot_taken w)\<lparr>mach := slot_effect x n (mach (slot_taken w))\<rparr>)"
    using set_slot_num_app [OF assms(2), of n "slot_taken w"] s by simp
  let ?k = "\<lambda>r res r'. seqm (whenm (r' \<noteq> osOK)
    (flexpret_error (''Error release slot mutex.'' @ [CHR 0x0A]))) (ret res)"
  have "set_slot_num_locked (uint x) (int n) w = bnd slot_mutex_acquire
      (\<lambda>r. bnd (set_slot_num (uint x) (int n)) (\<lambda>res. bnd slot_mutex_release (\<lambda>r'. ?k r res r'))) w"
    using slot_lock.acquire_avail [OF assms(1)] by (simp add: set_slot_num_locked_def)
  also have "\<dots> = ?k osOK (slot_status x n (mach w)) osOK (w\<lparr>mach := slot_effect x n (mach w)\<rparr>)"
    using slot_section(2) [of w "slot_effect x n" "set_slot_num (uint x) (int n)" "slot_status x n (mach w)" ?k,
        OF assms(1) lock_blind_slot_effect b] .
  finally show ?thesis by simp
qed

lemma example_ready: "h < 8 \<Longrightarrow> slot_ready (example_world h es)"
proof -
  have "slot_mutex example_machine = Some 0"
    by (simp add: example_machine_def)
  then show "h < 8 \<Longrightarrow> slot_ready (example_world h es)"
    using example_avail [of 0] by (simp add: slot_ready_def)
qed

lemma example_slots: "slots_of example_machine = [15, 15, 15, 15, 15, 15, 15, 0]"
  by (simp add: slots_of_def unpack_slots_def example_machine_def boot_machine_def)

lemma example_tmodes: "tmodes_of example_machine = [0, 1, 1, 1, 1, 1, 1, 1]"
  by (simp add: tmodes_of_def unpack_tmodes_def example_machine_def boot_machine_def)

text \<open>
  C9: with the slot mutex free, \<^verbatim>\<open>osSchedulerSetSlotNum\<close> gives the thread exactly \<open>n\<close>
  slots, converting free slots to its own or back and touching no others, and succeeds
  whenever that leaves a slot free (or adds none); otherwise it reports an error and leaves
  the table as it is. The mutex is free again.
\<close>

theorem osSchedulerSetSlotNum_spec:
  assumes "slot_ready w" "t < 8" "n < 7"
  shows "\<exists>r w'. osSchedulerSetSlotNum (thread_ptr t) (int n) w = Ret r w' \<and> slot_ready w' \<and>
    (let s = slots_of (mach w); s' = slots_of (mach w'); own = count_list s (of_nat t) in
     if n \<le> own \<or> n - own < count_list s SLOT_D
     then r = osOK \<and> count_list s' (of_nat t) = n \<and>
       list_all2 (\<lambda>a b. b = a \<or> a = SLOT_D \<and> b = of_nat t \<or> a = of_nat t \<and> b = SLOT_D) s s'
     else r = osError \<and> s' = s)"
proof -
  let ?x = "of_nat t :: u8" and ?s = "slots_of (mach w)"
  note x = thread_slot(1,3) [OF assms(2)]
  have "osSchedulerSetSlotNum (thread_ptr t) (int n) w =
      Ret (slot_status ?x n (mach w)) (w\<lparr>mach := slot_effect ?x n (mach w)\<rparr>)"
    using assms set_slot_num_locked_run [OF assms(1) x(1), of n]
    by (simp add: osSchedulerSetSlotNum_def thread_slot(4))
  moreover have "resize ?x n ?s = None \<longleftrightarrow> \<not> (n \<le> count_list ?s ?x \<or> n - count_list ?s ?x < count_list ?s SLOT_D)"
    by (auto simp: resize_def Let_def)
  ultimately show ?thesis
    using assms(1) resize_Some(1,5) [OF _ x(1)]
    by (cases "resize ?x n ?s")
      (simp_all add: lock_blind_slot_effect slot_status_def slots_of_effect [OF x] Let_def)
qed

theorem osSchedulerSetSlotNum_spec_witness:
  "\<exists>w'. osSchedulerSetSlotNum (thread_ptr 3) 2 (example_world 1 []) = Ret osOK w' \<and>
    count_list (slots_of (mach w')) 3 = 2"
  using osSchedulerSetSlotNum_spec [of "example_world 1 []" 3 2] example_ready [of 1 "[]"]
  by (auto simp: example_slots Let_def)

lemma freq_fields:
  fixes a b c :: u32
  defines "f \<equiv> push_bit 8 (take_bit 4 a) OR push_bit 4 (take_bit 4 b) OR take_bit 4 c"
  shows "THREAD_FREQ f = take_bit 4 a" "SOFT_SLOT_COUNT f = take_bit 4 b" "ALL_SLOT_COUNT f = take_bit 4 c"
  by (simp_all add: f_def THREAD_FREQ_def SOFT_SLOT_COUNT_def ALL_SLOT_COUNT_def and_0xF
      reg_field_simps)

text \<open>
  The word \<^verbatim>\<open>osSchedulerGetFreq\<close> returns holds, in the fields its macros read, how many
  slots the thread, the soft threads and all together have.
\<close>

theorem osSchedulerGetFreq_spec:
  assumes "t < 8"
  shows "\<exists>f. osSchedulerGetFreq (thread_ptr t) w = Ret f w \<and>
    (let s = slots_of (mach w) in
     THREAD_FREQ f = of_nat (count_list s (of_nat t)) \<and> SOFT_SLOT_COUNT f = of_nat (count_list s SLOT_S) \<and>
     ALL_SLOT_COUNT f = of_nat (8 - count_list s SLOT_D))"
proof -
  let ?s = "slots_of (mach w)"
  have f: "filter (\<lambda>s. s \<noteq> of_nat t \<and> s = SLOT_S) ?s = filter (\<lambda>s. s = SLOT_S) ?s"
    using thread_slot(2) [OF assms] by (auto intro: filter_cong)
  have n: "length (filter (\<lambda>s. s \<noteq> SLOT_D) ?s) = 8 - count_list ?s SLOT_D"
    using length_filter_neq_count [of SLOT_D ?s] by simp
  have le: "count_list ?s x \<le> 8" for x
    using count_le_length [of ?s x] by simp
  have b: "take_bit 4 (ucast (of_nat k :: u8) :: u32) = of_nat k" if "k \<le> 8" for k
  proof -
    have "k < 8 \<or> k = 8" using that by auto
    then show ?thesis unfolding less_8_cases
      by (elim disjE; simp add: take_bit_eq_mask mask_eq_exp_minus_1)
  qed
  let ?f = "push_bit 8 (take_bit 4 (ucast (of_nat (count_list ?s (of_nat t)) :: u8))) OR
    push_bit 4 (take_bit 4 (ucast (of_nat (count_list ?s SLOT_S) :: u8))) OR
    take_bit 4 (ucast (of_nat (8 - count_list ?s SLOT_D) :: u8)) :: u32"
  have "osSchedulerGetFreq (thread_ptr t) w = Ret ?f w"
    using assms by (simp add: osSchedulerGetFreq_def freq_loop_eq Let_def ucast_slot_eq f
        length_filter_eq_count n and_0xF)
  moreover have "THREAD_FREQ ?f = of_nat (count_list ?s (of_nat t))"
    "SOFT_SLOT_COUNT ?f = of_nat (count_list ?s SLOT_S)"
    "ALL_SLOT_COUNT ?f = of_nat (8 - count_list ?s SLOT_D)"
    by (subst freq_fields, rule b [OF le])+ (subst freq_fields, rule b [OF diff_le_self])
  ultimately show ?thesis
    unfolding Let_def by blast
qed

theorem osSchedulerGetFreq_spec_witness:
  "\<exists>f. osSchedulerGetFreq (thread_ptr 0) (example_world 1 []) = Ret f (example_world 1 []) \<and>
    THREAD_FREQ f = 1 \<and> ALL_SLOT_COUNT f = 1"
  using osSchedulerGetFreq_spec [of 0 "example_world 1 []"] by (auto simp: example_slots Let_def)

text \<open>
  What \<^verbatim>\<open>osSchedulerSetTmodes\<close> sets, one thread's mode by single atomic bit operations,
  \<^verbatim>\<open>osSchedulerGetTmodes\<close> reads back, and the other threads keep their modes.
\<close>

theorem tmodes_roundtrip:
  assumes "t < 8" "u < 8"
  shows "\<exists>w'. osSchedulerSetTmodes (thread_ptr t) tmode w = Ret osOK w' \<and>
    osSchedulerGetTmodes (thread_ptr u) w' =
      Ret (sint (if u = t then new_mode tmode (tmodes_of (mach w) ! t) else tmodes_of (mach w) ! u)) w' \<and>
    (u = t \<and> 0 \<le> tmode \<and> tmode < 4 \<longrightarrow> osSchedulerGetTmodes (thread_ptr u) w' = Ret tmode w')"
proof -
  have f: "sint (new_mode tmode x) = tmode" if "0 \<le> tmode" "tmode < 4" for x
  proof -
    have "tmode = 0 \<or> tmode = 1 \<or> tmode = 2 \<or> tmode = 3" using that by arith
    then show ?thesis by (auto simp: new_mode_def)
  qed
  have "osSchedulerSetTmodes (thread_ptr t) tmode w = Ret osOK (w\<lparr>mach := mode_effect t tmode (mach w)\<rparr>)"
    using assms by (simp add: osSchedulerSetTmodes_def set_thread_mode_app)
  with assms f show ?thesis
    by (auto simp: osSchedulerGetTmodes_def thread_slot(5) tmodes_of_mode_effect)
qed

theorem tmodes_roundtrip_witness:
  "\<exists>w'. osSchedulerSetTmodes (thread_ptr 4) TMODE_SA (example_world 0 []) = Ret osOK w' \<and>
    osSchedulerGetTmodes (thread_ptr 4) w' = Ret TMODE_SA w'"
  using tmodes_roundtrip [of 4 4 TMODE_SA "example_world 0 []"] by auto

text \<open>
  C17: \<^verbatim>\<open>change_srtt_to_hrtt\<close> makes the thread hard and leaves it a slot of its own if it had
  one or two slots were free. Every other live thread that could run still can: the slots of
  the soft threads are given up exactly when no other live soft thread needs them.
\<close>

theorem change_srtt_to_hrtt_spec:
  assumes "slot_ready w" "t < 8"
  shows "\<exists>w'. change_srtt_to_hrtt (of_nat t) w = Ret () w' \<and> slot_ready w' \<and>
    (let m = mach w; m' = mach w' in
     \<not> is_soft (tmodes_of m' ! t) \<and> (\<forall>u < 8. u \<noteq> t \<longrightarrow> tmodes_of m' ! u = tmodes_of m ! u) \<and>
     (of_nat t \<in> set (slots_of m) \<or> 1 < count_list (slots_of m) SLOT_D \<longrightarrow> can_run m' t) \<and>
     (SLOT_S \<in> set (slots_of m') \<longleftrightarrow> SLOT_S \<in> set (slots_of m) \<and> other_soft m t) \<and>
     (\<forall>u < 8. u \<noteq> t \<longrightarrow> live m u \<longrightarrow> can_run m u \<longrightarrow> can_run m' u))"
proof -
  let ?m = "mach w" and ?m' = "to_hard_effect t (mach w)"
  have 1: "tmodes_of ?m' = (tmodes_of ?m)[t := new_mode TMODE_HARD (tmodes_of ?m ! t)]"
    using assms(2) by (simp add: to_hard_effect_def Let_def tmodes_of_mode_effect)
  have 2: "of_nat t \<in> set (slots_of ?m) \<or> 1 < count_list (slots_of ?m) SLOT_D \<Longrightarrow> can_run ?m' t"
    using assms(2) by (auto simp: can_run_def to_hard_effect_def Let_def slot_membership)
  have 3: "SLOT_S \<in> set (slots_of ?m') \<longleftrightarrow> SLOT_S \<in> set (slots_of ?m) \<and> other_soft ?m t"
    using assms(2) by (auto simp: to_hard_effect_def Let_def slot_membership)
  from 1 2 3 show ?thesis
    using change_srtt_to_hrtt_run [OF assms] assms to_hard_others [OF assms(2)]
      is_soft_new_mode(2) [OF tmodes_nth_cases [OF assms(2)]]
    by (simp add: lock_blind_effects Let_def)
qed

theorem change_srtt_to_hrtt_spec_witness:
  "\<exists>w'. change_srtt_to_hrtt 3 (example_world 0 []) = Ret () w' \<and> can_run (mach w') 3"
  using change_srtt_to_hrtt_spec [of "example_world 0 []" 3] example_ready [of 0 "[]"]
  by (auto simp: example_slots Let_def)

text \<open>
  C18: \<^verbatim>\<open>change_hrtt_to_srtt\<close> makes the thread soft, takes its own slots away, and leaves it
  a soft slot if there was one, or, it being the first soft thread, two slots were free. Every
  other thread that could run still can.
\<close>

theorem change_hrtt_to_srtt_spec:
  assumes "slot_ready w" "t < 8"
  shows "\<exists>w'. change_hrtt_to_srtt (of_nat t) w = Ret () w' \<and> slot_ready w' \<and>
    (let m = mach w; m' = mach w' in
     is_soft (tmodes_of m' ! t) \<and> (\<forall>u < 8. u \<noteq> t \<longrightarrow> tmodes_of m' ! u = tmodes_of m ! u) \<and>
     of_nat t \<notin> set (slots_of m') \<and>
     (can_run m' t \<longleftrightarrow> SLOT_S \<in> set (slots_of m) \<or>
        \<not> other_soft m t \<and> 1 < count_list (slots_of m) SLOT_D) \<and>
     (\<forall>u < 8. u \<noteq> t \<longrightarrow> can_run m u \<longrightarrow> can_run m' u))"
proof -
  let ?m = "mach w" and ?m' = "to_soft_effect t (mach w)"
  have s: "is_soft (new_mode TMODE_SOFT (tmodes_of ?m ! t))"
    by (rule is_soft_new_mode(1) [OF tmodes_nth_cases [OF assms(2)]])
  have 1: "tmodes_of ?m' = (tmodes_of ?m)[t := new_mode TMODE_SOFT (tmodes_of ?m ! t)]"
    using assms(2) by (simp add: to_soft_effect_def Let_def tmodes_of_mode_effect)
  have 2: "of_nat t \<notin> set (slots_of ?m')"
    using assms(2) by (auto simp: to_soft_effect_def Let_def slot_membership)
  have 3: "SLOT_S \<in> set (slots_of ?m') \<longleftrightarrow> SLOT_S \<in> set (slots_of ?m) \<or>
      \<not> other_soft ?m t \<and> 1 < count_list (slots_of ?m) SLOT_D"
    using assms(2) by (auto simp: to_soft_effect_def Let_def slot_membership)
  have 4: "can_run ?m' t \<longleftrightarrow> SLOT_S \<in> set (slots_of ?m')"
    using 1 2 s assms(2) by (simp add: can_run_def)
  from 1 2 3 4 s show ?thesis
    using change_hrtt_to_srtt_run [OF assms] assms to_soft_others [OF assms(2)]
    by (simp add: lock_blind_effects Let_def)
qed

theorem change_hrtt_to_srtt_spec_witness:
  "\<exists>w'. change_hrtt_to_srtt 3 (example_world 0 []) = Ret () w' \<and> can_run (mach w') 3"
proof -
  have "\<not> other_soft example_machine 3"
    by (auto simp: other_soft_def example_tmodes is_soft_def less_8_cases)
  then show ?thesis
    using change_hrtt_to_srtt_spec [of "example_world 0 []" 3] example_ready [of 0 "[]"]
    by (auto simp: example_slots Let_def)
qed

text \<open>
  When seven or eight slots are in use and no thread is soft, making a hard thread soft
  starves it: \<^verbatim>\<open>change_hrtt_to_srtt\<close> ignores that \<^verbatim>\<open>set_slot_num(SLOT_S, 1)\<close> failed, and
  goes on to remove the thread's own slots.
\<close>

theorem change_hrtt_to_srtt_starves:
  assumes "slot_ready w" "t < 8" "SLOT_S \<notin> set (slots_of (mach w))"
    and "count_list (slots_of (mach w)) SLOT_D \<le> 1" "can_run (mach w) t"
  shows "\<exists>w'. change_hrtt_to_srtt (of_nat t) w = Ret () w' \<and> \<not> can_run (mach w') t"
proof -
  let ?m' = "to_soft_effect t (mach w)"
  have "of_nat t \<notin> set (slots_of ?m')" "SLOT_S \<notin> set (slots_of ?m')"
    using assms(2-4) by (auto simp: to_soft_effect_def Let_def slot_membership)
  then show ?thesis
    using change_hrtt_to_srtt_run [OF assms(1,2)] by (simp add: can_run_def)
qed

theorem change_hrtt_to_srtt_starves_witness:
  "\<exists>w w'. change_hrtt_to_srtt 2 w = Ret () w' \<and> can_run (mach w) 2 \<and> \<not> can_run (mach w') 2"
proof -
  let ?m = "example_machine\<lparr>csr_slots := 0xF6543210\<rparr>"
  let ?w = "(example_world 0 [])\<lparr>mach := ?m\<rparr>"
  have s: "slots_of ?m = [0, 1, 2, 3, 4, 5, 6, 15]"
    by (simp add: slots_of_def unpack_slots_def)
  have r: "slot_ready ?w"
    using example_ready [of 0 "[]"] by (simp add: slot_ready_def mutex_avail_def split: option.splits)
  have c: "can_run ?m 2"
    by (simp add: can_run_def s)
  obtain w' where "change_hrtt_to_srtt 2 ?w = Ret () w'" "\<not> can_run (mach w') 2"
    using change_hrtt_to_srtt_starves [OF r, of 2] s c by auto
  with c show ?thesis by (intro exI [of _ ?w] exI [of _ w']) simp
qed

text \<open>
  C19: \<^verbatim>\<open>srtt_terminate\<close> takes the slots of an ending thread, and the soft slots exactly when
  it was the last live soft thread; the other live threads that could run still can.
\<close>

theorem srtt_terminate_spec:
  assumes "slot_ready w" "t < 8"
  shows "\<exists>w'. srtt_terminate (of_nat t) w = Ret () w' \<and> slot_ready w' \<and>
    (let m = mach w; m' = mach w' in
     tmodes_of m' = tmodes_of m \<and> of_nat t \<notin> set (slots_of m') \<and>
     (SLOT_S \<in> set (slots_of m') \<longleftrightarrow> SLOT_S \<in> set (slots_of m) \<and> other_soft m t) \<and>
     (\<forall>u < 8. u \<noteq> t \<longrightarrow> live m u \<longrightarrow> can_run m u \<longrightarrow> can_run m' u))"
proof -
  let ?m = "mach w" and ?m' = "terminate_effect t (mach w)"
  have "tmodes_of ?m' = tmodes_of ?m" "of_nat t \<notin> set (slots_of ?m')"
    "SLOT_S \<in> set (slots_of ?m') \<longleftrightarrow> SLOT_S \<in> set (slots_of ?m) \<and> other_soft ?m t"
    using assms(2) by (auto simp: terminate_effect_def Let_def slot_membership)
  then show ?thesis
    using srtt_terminate_run [OF assms] assms terminate_others [OF assms(2)]
    by (simp add: lock_blind_effects Let_def)
qed

theorem srtt_terminate_spec_witness:
  "\<exists>w'. srtt_terminate 0 (example_world 5 []) = Ret () w' \<and> 0 \<notin> set (slots_of (mach w'))"
  using srtt_terminate_spec [of "example_world 5 []" 0] example_ready [of 5 "[]"]
  by (auto simp: Let_def)

lemma shift_one_bad: "\<not> n < 32 \<Longrightarrow> shift_one n w = Fault Bad_Shift"
  by (simp add: shift_one_def)

lemma rewrite_loop_minus_1:
  "map (take_bit 4) (rewrite_loop (\<lambda>s. s = SLOT_D) (- 1) ss n) = map (take_bit 4) ss"
proof -
  have "take_bit 4 (- 1 :: u8) = take_bit 4 SLOT_D"
    by (simp add: take_bit_eq_mask mask_eq_exp_minus_1)
  then show ?thesis by (induction ss arbitrary: n) auto
qed

lemma lock_blind_slots: "lock_blind (\<lambda>m. m\<lparr>csr_slots := c\<rparr>)"
  by (auto simp: lock_blind_def mutex_held_def mutex_avail_def)

lemma set_slot_num_minus_1:
  assumes "0 < n" "n < count_list (slots_of (mach w)) SLOT_D"
  shows "set_slot_num (- 1) (int n) w = Ret osOK (w\<lparr>mach := (mach w)\<lparr>csr_slots := pack_slots
    (map ucast (rewrite_loop (\<lambda>s. s = SLOT_D) (- 1) (slots_of (mach w)) (int n)))\<rparr>\<rparr>)"
proof -
  have u: "uint s \<noteq> - 1" for s :: u8
    using uint_ge_0 [of s] by linarith
  show ?thesis
    using assms length_filter_neq_count [of SLOT_D "slots_of (mach w)"]
    by (simp add: set_slot_num_def num_loop_eq u Let_def)
qed

text \<open>
  An identifier that is no thread's is not refused. The mode functions shift by
  2^32 - 1 and read outside the mode array; \<^verbatim>\<open>osSchedulerSetSlotNum\<close> reports success without
  changing the table, since the stored slot value is cut to \<^verbatim>\<open>SLOT_D\<close>.
\<close>

theorem bad_thread_id:
  assumes "\<And>t. t < 8 \<Longrightarrow> p \<noteq> thread_ptr t" "slot_ready w" "0 < n" "n < 7"
    and "n < count_list (slots_of (mach w)) SLOT_D"
  shows "osSchedulerSetTmodes p tmode w = Fault Bad_Shift \<and>
    osSchedulerGetTmodes p w = Fault Bad_Index \<and>
    (\<exists>w'. osSchedulerSetSlotNum p (int n) w = Ret osOK w' \<and> slots_of (mach w') = slots_of (mach w))"
proof -
  let ?msg = "''bad offset calling get_tid'' @ [CHR 0x0A]"
  let ?w = "w\<lparr>mach := say ?msg (mach w)\<rparr>"
  have g: "get_tid p w = Ret (- 1) ?w"
    by (rule get_tid_bad) (rule assms(1))
  have r: "slot_ready ?w"
    using assms(2) lock_blind_say [of ?msg] by simp
  let ?s = "slots_of (mach w)"
  let ?s' = "rewrite_loop (\<lambda>s. s = SLOT_D) (- 1) ?s (int n)"
  have s: "slots_of (mach ?w) = ?s"
    by (simp add: slots_of_def)
  have b: "set_slot_num (- 1) (int n) (slot_taken ?w) = Ret osOK
      ((slot_taken ?w)\<lparr>mach := (mach (slot_taken ?w))\<lparr>csr_slots := pack_slots (map ucast ?s')\<rparr>\<rparr>)"
    using set_slot_num_minus_1 [of n "slot_taken ?w"] assms(3,5) s by simp
  have "set_slot_num_locked (- 1) (int n) ?w =
      Ret osOK (?w\<lparr>mach := (mach ?w)\<lparr>csr_slots := pack_slots (map ucast ?s')\<rparr>\<rparr>)"
    using slot_section(2) [of ?w "\<lambda>m. m\<lparr>csr_slots := pack_slots (map ucast ?s')\<rparr>"
        "set_slot_num (- 1) (int n)" osOK "\<lambda>r res r'. seqm (whenm (r' \<noteq> osOK)
          (flexpret_error (''Error release slot mutex.'' @ [CHR 0x0A]))) (ret res)",
        OF r lock_blind_slots b] slot_lock.acquire_avail [OF r]
    by (simp add: set_slot_num_locked_def)
  then have "osSchedulerSetSlotNum p (int n) w =
      Ret osOK (?w\<lparr>mach := (mach ?w)\<lparr>csr_slots := pack_slots (map ucast ?s')\<rparr>\<rparr>)"
    using assms(4) g by (simp add: osSchedulerSetSlotNum_def)
  moreover have "map (take_bit 4) ?s' = ?s"
    using rewrite_loop_minus_1 [of ?s "int n"] by (simp add: map_idI slots_of_fits)
  moreover have "osSchedulerSetTmodes p tmode w = Fault Bad_Shift"
    using g by (simp add: osSchedulerSetTmodes_def set_thread_mode_def shift_one_bad)
  moreover have "osSchedulerGetTmodes p w = Fault Bad_Index"
    using g by (simp add: osSchedulerGetTmodes_def)
  ultimately show ?thesis
    by (simp only: slots_of_pack length_rewrite_loop length_slots_of world.select_convs
        world.update_convs simp_thms result.inject ex_simps) simp
qed

theorem bad_thread_id_witness:
  "osSchedulerSetTmodes NULL 0 (example_world 0 []) = Fault Bad_Shift \<and>
    (\<exists>w'. osSchedulerSetSlotNum NULL 2 (example_world 0 []) = Ret osOK w' \<and>
      slots_of (mach w') = slots_of example_machine)"
  using bad_thread_id [of NULL "example_world 0 []" 2 0] thread_ptr_not_NULL
    example_ready [of 0 "[]"]
  by (fastforce simp: example_slots)

end
