(* ===== verification/Trap.thy ===== *)
theory Trap
  imports Clock
begin

text \<open>
  \<^verbatim>\<open>src/os/src/flexpret_trap.c\<close>: the table of trap handlers, four per hardware thread, and
  the default handlers; and the choice of the handler in \<^verbatim>\<open>src/os/asm/trap.S\<close>.
\<close>

abbreviation (input) InterruptOnExpire :: int where
  "InterruptOnExpire \<equiv> 0"

abbreviation (input) ExceptionOnExpire :: int where
  "ExceptionOnExpire \<equiv> 1"

abbreviation (input) ExternalInterrupt :: int where
  "ExternalInterrupt \<equiv> 2"

abbreviation (input) Trap_Exception :: int where
  "Trap_Exception \<equiv> 3"

abbreviation (input) TRAP_NUM_MAX :: int where
  "TRAP_NUM_MAX \<equiv> 4"

section \<open>Operations\<close>

definition default_ie_handler :: "unit os" where
  "default_ie_handler =
     bnd (os_read_csr CSR_HARTID) (\<lambda>tid.
     seqm (flexpret_info ''Thread '')
     (seqm (bnd (itoa_hex_removing_ldz tid) flexpret_info)
     (flexpret_info ('' trapped in ie.'' @ [CHR 0x0A]))))"

definition default_ee_handler :: "unit os" where
  "default_ee_handler =
     bnd (os_read_csr CSR_HARTID) (\<lambda>tid.
     seqm (flexpret_info ''Thread '')
     (seqm (bnd (itoa_hex_removing_ldz tid) flexpret_info)
     (flexpret_info ('' trapped in ee.'' @ [CHR 0x0A]))))"

definition default_int_handler :: "unit os" where
  "default_int_handler =
     bnd (os_read_csr CSR_HARTID) (\<lambda>tid.
     seqm (flexpret_info ''Thread '')
     (seqm (bnd (itoa_hex_removing_ldz tid) flexpret_info)
     (flexpret_info ('' got an external interrupt.'' @ [CHR 0x0A]))))"

definition default_fault_handler :: "unit os" where
  "default_fault_handler =
     bnd (os_read_csr CSR_HARTID) (\<lambda>tid.
     seqm (flexpret_error ''Thread '')
     (seqm (bnd (itoa_hex_removing_ldz tid) flexpret_error)
     (seqm (flexpret_error '' got an internal fault, cause is: '')
     (bnd (os_read_csr CSR_CAUSE) (\<lambda>cause.
     seqm (bnd (itoa_hex cause) flexpret_error)
     (flexpret_error [CHR 0x0A]))))))"

text \<open>The hardware thread an identifier names; \<^verbatim>\<open>NULL\<close> is the caller.\<close>

definition trap_tid :: "addr \<Rightarrow> u32 os" where
  "trap_tid thread_id =
     (if thread_id = NULL then os_read_csr CSR_HARTID else get_tid thread_id)"

definition osThreadSetTrapHandler :: "addr \<Rightarrow> trap_handler \<Rightarrow> int \<Rightarrow> osStatus_t os" where
  "osThreadSetTrapHandler thread_id handler t =
     (if handler = H_NULL then
        seqm (flexpret_error (''Bad trap handler'' @ [CHR 0x0A])) (ret osError)
      else if t < 0 \<or> TRAP_NUM_MAX \<le> t then
        seqm (flexpret_error (''Bad trap type'' @ [CHR 0x0A])) (ret osError)
      else
        bnd (trap_tid thread_id) (\<lambda>tid.
        seqm (idx (unat tid) FLEXPRET_HW_THREADS_NUMS)
        (seqm (upd (\<lambda>m. m\<lparr>trap_handler_vector := (trap_handler_vector m)
            (unat tid := (trap_handler_vector m (unat tid))(nat t := handler))\<rparr>))
        (ret osOK))))"

definition osThreadGetTrapHandler :: "addr \<Rightarrow> int \<Rightarrow> trap_handler os" where
  "osThreadGetTrapHandler thread_id t =
     (if t < 0 \<or> TRAP_NUM_MAX \<le> t then
        seqm (flexpret_error (''Bad trap type'' @ [CHR 0x0A])) (ret H_NULL)
      else
        bnd (trap_tid thread_id) (\<lambda>tid.
        seqm (idx (unat tid) FLEXPRET_HW_THREADS_NUMS)
        (rdm (\<lambda>m. trap_handler_vector m (unat tid) (nat t)))))"

text \<open>
  \<^verbatim>\<open>trap_entry\<close> picks the handler by the cause: timer interrupt, timer exception (also for the
  deadline instruction), external interrupt, and anything else, after which the faulting
  instruction is skipped.
\<close>

definition trap_entry :: "u32 \<Rightarrow> int \<times> u32" where
  "trap_entry cause =
     (if cause = 0x8000000d then (InterruptOnExpire, 0)
      else if cause = 0xd then (ExceptionOnExpire, 0)
      else if cause = 0xf then (ExceptionOnExpire, 0)
      else if cause = 0x8000000e then (ExternalInterrupt, 0)
      else (Trap_Exception, 4))"

section \<open>Properties\<close>

lemma trap_tid_own [simp]: "trap_tid NULL w = Ret (of_nat (hart w)) w"
  by (simp add: trap_tid_def)

lemma trap_tid_thread [simp]: "t < 8 \<Longrightarrow> trap_tid (thread_ptr t) w = Ret (of_nat t) w"
  by (simp add: trap_tid_def thread_ptr_not_NULL)

lemma unat_of_thread [simp]: "t < 8 \<Longrightarrow> unat (of_nat t :: u32) = t"
  by (auto simp: less_8_cases)

text \<open>
  \<^verbatim>\<open>osThreadSetTrapHandler\<close> installs a handler for the named thread or, with \<^verbatim>\<open>NULL\<close>, the
  caller, in the entry of that trap type only; \<^verbatim>\<open>osThreadGetTrapHandler\<close> then returns it, and
  what was there before for every other thread or type.
\<close>

theorem trap_handler_roundtrip:
  assumes "hart w < 8" "t < 8" "u < 8" "p = thread_ptr t \<or> p = NULL \<and> t = hart w"
    and "h \<noteq> H_NULL" "0 \<le> k" "k < 4" "0 \<le> l" "l < 4"
  shows "\<exists>w'. osThreadSetTrapHandler p h k w = Ret osOK w' \<and>
    osThreadGetTrapHandler (thread_ptr u) l w' =
      Ret (if u = t \<and> l = k then h else trap_handler_vector (mach w) u (nat l)) w'"
proof -
  have t: "trap_tid p w = Ret (of_nat t) w"
    using assms(2,4) by auto
  have k: "\<not> (k < 0 \<or> TRAP_NUM_MAX \<le> k)" "\<not> (l < 0 \<or> TRAP_NUM_MAX \<le> l)" "nat l = nat k \<longleftrightarrow> l = k"
    using assms(6-9) by auto
  show ?thesis
    using assms(2,3,5)
    by (simp add: osThreadSetTrapHandler_def osThreadGetTrapHandler_def t k)
qed

theorem trap_handler_roundtrip_witness:
  "\<exists>w w'. osThreadSetTrapHandler NULL (H_user 7) ExternalInterrupt w = Ret osOK w' \<and>
    osThreadGetTrapHandler (thread_ptr 2) ExternalInterrupt w' = Ret (H_user 7) w'"
proof -
  fix m :: machine
  let ?w = "\<lparr>hart = 2, mach = m, sched = []\<rparr>"
  have "\<exists>w'. osThreadSetTrapHandler NULL (H_user 7) ExternalInterrupt ?w = Ret osOK w' \<and>
    osThreadGetTrapHandler (thread_ptr 2) ExternalInterrupt w' = Ret (if (2 :: nat) = 2 \<and>
      ExternalInterrupt = ExternalInterrupt then H_user 7
      else trap_handler_vector (mach ?w) 2 (nat ExternalInterrupt)) w'"
    by (rule trap_handler_roundtrip) simp_all
  then have "\<exists>w'. osThreadSetTrapHandler NULL (H_user 7) ExternalInterrupt ?w = Ret osOK w' \<and>
    osThreadGetTrapHandler (thread_ptr 2) ExternalInterrupt w' = Ret (H_user 7) w'"
    by (simp only: simp_thms if_True)
  then show ?thesis by blast
qed

end
