(* ===== verification/Timing.thy ===== *)
theory Timing
  imports Trap Mutex
begin

text \<open>
  \<^verbatim>\<open>src/os/src/flexpret_timing.c\<close>: one timer per hardware thread, on the thread's compare
  register. A timer is active when it has an attribute entry and running when its \<^verbatim>\<open>ticks\<close>
  are not 0. Timer callbacks are function pointers of the application: what a call of one
  does is the argument \<open>call\<close> of the two interrupt handlers.
\<close>

abbreviation (input) osTimerOnce :: int where
  "osTimerOnce \<equiv> 0"

abbreviation (input) osTimerPeriodic :: int where
  "osTimerPeriodic \<equiv> 1"

section \<open>Operations\<close>

text \<open>
  A \<^verbatim>\<open>timer_id\<close> is dereferenced as it is: anything but the address of one of the control
  blocks is an access outside them.
\<close>

definition timer_deref :: "addr \<Rightarrow> nat os" where
  "timer_deref timer_id =
     bnd (rdm (\<lambda>m. find (\<lambda>t. timer_ptr m t = timer_id) [0..<FLEXPRET_HW_THREADS_NUMS])) (\<lambda>r.
     case r of None \<Rightarrow> (\<lambda>w. Fault Null_Deref) | Some t \<Rightarrow> ret t)"

definition tm_get :: "nat \<Rightarrow> hwtimer_state os" where
  "tm_get t = seqm (idx t FLEXPRET_HW_THREADS_NUMS) (rdm (\<lambda>m. startup_timer_state m t))"

definition tm_upd :: "nat \<Rightarrow> (hwtimer_state \<Rightarrow> hwtimer_state) \<Rightarrow> unit os" where
  "tm_upd t f = seqm (idx t FLEXPRET_HW_THREADS_NUMS)
     (upd (\<lambda>m. m\<lparr>startup_timer_state := (startup_timer_state m)(t := f (startup_timer_state m t))\<rparr>))"

definition tm_entry :: "nat \<Rightarrow> attr_ref option os" where
  "tm_entry t = seqm (idx t FLEXPRET_HW_THREADS_NUMS) (rdm (\<lambda>m. timer_attr_entry m t))"

definition tm_set_entry :: "nat \<Rightarrow> attr_ref option \<Rightarrow> unit os" where
  "tm_set_entry t r = seqm (idx t FLEXPRET_HW_THREADS_NUMS)
     (upd (\<lambda>m. m\<lparr>timer_attr_entry := (timer_attr_entry m)(t := r)\<rparr>))"

definition flexpret_timer_init_attr :: osTimerAttr_t where
  "flexpret_timer_init_attr = \<lparr>ta_name = Some ''Thread timer'', ta_attr_bits = 0,
     ta_cb_mem = NULL, ta_cb_size = sizeof_hwtimer_state\<rparr>"

definition timer_handler :: "(addr \<Rightarrow> addr \<Rightarrow> unit os) \<Rightarrow> unit os" where
  "timer_handler call =
     bnd my_hart (\<lambda>tid.
     bnd (tm_get tid) (\<lambda>tmp.
     seqm (call (tm_func tmp) (tm_arg tmp))
     (tm_upd tid (\<lambda>tmp. tmp\<lparr>tm_ticks := 0\<rparr>))))"

definition timer_periodic_handler :: "(addr \<Rightarrow> addr \<Rightarrow> unit os) \<Rightarrow> unit os" where
  "timer_periodic_handler call =
     bnd my_hart (\<lambda>tid.
     bnd (tm_get tid) (\<lambda>tmp.
     seqm (call (tm_func tmp) (tm_arg tmp))
     (bnd get_time (\<lambda>time.
     bnd (tm_get tid) (\<lambda>tmp.
     seqm (set_compare (tm_ticks tmp + time))
     interrupt_expire)))))"

definition osTimerNew :: "addr \<Rightarrow> int \<Rightarrow> addr \<Rightarrow> attr_ref option \<Rightarrow> addr os" where
  "osTimerNew func type argument attr =
     bnd my_hart (\<lambda>tid.
     bnd (tm_entry tid) (\<lambda>entry.
     if entry \<noteq> None then
       seqm (flexpret_error (''A thread can ONLY create one active timer because of Flexpret's timing mechanism.'' @ [CHR 0x0A]))
       (ret NULL)
     else if func = NULL then ret NULL
     else
       seqm (case attr of
           None \<Rightarrow>
             seqm (tm_set_entry tid (Some (Attr_static tid)))
             (upd (\<lambda>m. m\<lparr>timer_attr := (timer_attr m)(Attr_static tid :=
                flexpret_timer_init_attr\<lparr>ta_cb_mem := timer_ptr m tid\<rparr>)\<rparr>))
         | Some r \<Rightarrow> tm_set_entry tid (Some r))
       (seqm (tm_upd tid (\<lambda>tm. tm\<lparr>tm_func := func, tm_arg := argument, tm_type := type, tm_ticks := 0\<rparr>))
       (rdm (\<lambda>m. timer_ptr m tid)))))"

definition osTimerGetName :: "addr \<Rightarrow> string option os" where
  "osTimerGetName timer_id =
     bnd (get_timer_tid timer_id) (\<lambda>tid.
     bnd (tm_entry (unat tid)) (\<lambda>entry.
     case entry of
       None \<Rightarrow> seqm (flexpret_error (''Timer is not active'' @ [CHR 0x0A])) (ret (Some ''''))
     | Some r \<Rightarrow> rdm (\<lambda>m. ta_name (timer_attr m r))))"

definition osTimerStart :: "addr \<Rightarrow> u32 \<Rightarrow> osStatus_t os" where
  "osTimerStart timer_id ticks =
     (if timer_id = NULL then ret osErrorParameter
      else
        bnd (get_timer_tid timer_id) (\<lambda>tid.
        bnd (tm_entry (unat tid)) (\<lambda>entry.
        if entry = None then
          seqm (flexpret_error (''Timer is not active.'' @ [CHR 0x0A])) (ret osError)
        else if ticks = 0 then
          seqm (flexpret_error (''Ticks should be greater than 0.'' @ [CHR 0x0A])) (ret osError)
        else
          bnd (timer_deref timer_id) (\<lambda>timer.
          bnd (tm_get timer) (\<lambda>tm.
          if tm_type tm \<noteq> osTimerOnce \<and> tm_type tm \<noteq> osTimerPeriodic then
            seqm (flexpret_error (''Bad timer type.'' @ [CHR 0x0A])) (ret osError)
          else
            seqm (bnd osThreadGetId (\<lambda>me. bnd (osThreadSetTrapHandler me
              (if tm_type tm = osTimerOnce then H_timer else H_timer_periodic)
              InterruptOnExpire) (\<lambda>_. ret ())))
            (seqm (tm_upd timer (\<lambda>tm. tm\<lparr>tm_ticks := ticks\<rparr>))
            (bnd get_time (\<lambda>time.
            seqm (set_compare (ticks + time))
            (seqm interrupt_expire
            (ret osOK))))))))))"

definition osTimerStop :: "addr \<Rightarrow> osStatus_t os" where
  "osTimerStop timer_id =
     (if timer_id = NULL then ret osErrorParameter
      else
        bnd (get_timer_tid timer_id) (\<lambda>tid.
        bnd (tm_entry (unat tid)) (\<lambda>entry.
        if entry = None then
          seqm (flexpret_error (''Timer is not active.'' @ [CHR 0x0A])) (ret osError)
        else
          bnd (timer_deref timer_id) (\<lambda>timer.
          bnd (tm_get timer) (\<lambda>tm.
          if tm_ticks tm = 0 then ret osErrorResource
          else
            seqm (tm_upd timer (\<lambda>tm. tm\<lparr>tm_ticks := 0\<rparr>))
            (seqm (set_compare 0)
            (seqm (bnd osThreadGetId (\<lambda>me. osThreadSetTrapHandler me H_default_ie InterruptOnExpire))
            (ret osOK))))))))"

definition osTimerIsRunning :: "addr \<Rightarrow> bool os" where
  "osTimerIsRunning timer_id =
     (if timer_id = NULL then ret False
      else
        bnd (get_timer_tid timer_id) (\<lambda>tid.
        bnd (tm_entry (unat tid)) (\<lambda>entry.
        if entry = None then
          seqm (flexpret_error (''Timer is not active.'' @ [CHR 0x0A])) (ret False)
        else
          bnd (timer_deref timer_id) (\<lambda>timer.
          bnd (tm_get timer) (\<lambda>tm.
          ret (tm_ticks tm \<noteq> 0))))))"

definition osTimerDelete :: "addr \<Rightarrow> osStatus_t os" where
  "osTimerDelete timer_id =
     (if timer_id = NULL then ret osErrorParameter
      else
        bnd (get_timer_tid timer_id) (\<lambda>tid.
        bnd (timer_deref timer_id) (\<lambda>timer.
        bnd (tm_get timer) (\<lambda>tm.
        seqm (whenm (tm_ticks tm \<noteq> 0)
          (seqm (tm_upd timer (\<lambda>tm. tm\<lparr>tm_ticks := 0\<rparr>)) (set_compare 0)))
        (seqm (tm_set_entry (unat tid) None)
        (seqm (tm_upd (unat tid) (\<lambda>tm. tm\<lparr>tm_func := NULL, tm_arg := NULL, tm_ticks := 0\<rparr>))
        (ret osOK)))))))"

definition osThreadGetTimer :: "addr \<Rightarrow> addr os" where
  "osThreadGetTimer thread_id =
     bnd (get_tid thread_id) (\<lambda>tid.
     bnd (tm_entry (unat tid)) (\<lambda>entry.
     if entry = None then ret NULL else rdm (\<lambda>m. timer_ptr m (unat tid))))"

definition osTimerSetFunc :: "addr \<Rightarrow> addr \<Rightarrow> addr \<Rightarrow> osStatus_t os" where
  "osTimerSetFunc timer timer_func argument =
     bnd (get_timer_tid timer) (\<lambda>tid.
     bnd (tm_entry (unat tid)) (\<lambda>entry.
     if entry = None then
       seqm (flexpret_error (''Timer is not active.'' @ [CHR 0x0A])) (ret osError)
     else
       bnd (os_read_csr CSR_HARTID) (\<lambda>ctid.
       if tid \<noteq> ctid then
         seqm (flexpret_error (''Timer does not belong to current thread.'' @ [CHR 0x0A])) (ret osError)
       else
         seqm (set_compare 0)
         (seqm (tm_upd (unat tid) (\<lambda>tm. tm\<lparr>tm_func := timer_func, tm_arg := argument, tm_ticks := 0\<rparr>))
         (ret osOK)))))"

section \<open>Running the operations\<close>

text \<open>No timer control block is at address 0.\<close>

definition timers_placed :: "machine \<Rightarrow> bool" where
  "timers_placed m \<longleftrightarrow> (\<forall>t < 8. timer_ptr m t \<noteq> NULL)"

lemma timer_ptr_inj: "t < 8 \<Longrightarrow> u < 8 \<Longrightarrow> timer_ptr m t = timer_ptr m u \<longleftrightarrow> t = u"
  using thread_ptr_inj [of t u]
  by (simp only: timer_ptr_def thread_ptr_def sizeof_hwtimer_state_def sizeof_hwthread_state_def
      add_left_cancel)

lemma timer_ptr_cong: "timer_base m' = timer_base m \<Longrightarrow> timer_ptr m' t = timer_ptr m t"
  by (simp add: timer_ptr_def)

lemma timer_ptr_say [simp]: "timer_ptr (say x m) t = timer_ptr m t"
  by (simp add: timer_ptr_def)

lemma find_timer: "t < 8 \<Longrightarrow> find (\<lambda>u. timer_ptr m u = timer_ptr m t) [0..<8] = Some t"
  unfolding less_8_cases by (elim disjE) (simp_all add: upt_rec timer_ptr_inj)

lemma timer_deref_app [simp]: "t < 8 \<Longrightarrow> timer_deref (timer_ptr (mach w) t) w = Ret t w"
  using find_timer [of t "mach w"] by (simp add: timer_deref_def)

lemma tm_get_app [simp]: "t < 8 \<Longrightarrow> tm_get t w = Ret (startup_timer_state (mach w) t) w"
  by (simp add: tm_get_def)

lemma tm_upd_app [simp]: "t < 8 \<Longrightarrow> tm_upd t f w = Ret () (w\<lparr>mach := (mach w)
    \<lparr>startup_timer_state := (startup_timer_state (mach w))(t := f (startup_timer_state (mach w) t))\<rparr>\<rparr>)"
  by (simp add: tm_upd_def)

lemma tm_entry_app [simp]: "t < 8 \<Longrightarrow> tm_entry t w = Ret (timer_attr_entry (mach w) t) w"
  by (simp add: tm_entry_def)

lemma tm_set_entry_app [simp]: "t < 8 \<Longrightarrow> tm_set_entry t r w = Ret () (w\<lparr>mach := (mach w)
    \<lparr>timer_attr_entry := (timer_attr_entry (mach w))(t := r)\<rparr>\<rparr>)"
  by (simp add: tm_set_entry_def)

lemma set_compare_app [simp]: "set_compare v w = Ret () (w\<lparr>mach := (mach w)
    \<lparr>csr_compare := (csr_compare (mach w))(hart w := v),
     csr_timer := (csr_timer (mach w))(hart w := TIMER_OFF)\<rparr>\<rparr>)"
  by (simp add: set_compare_def)

lemma interrupt_expire_app [simp]: "interrupt_expire w = Ret () (w\<lparr>mach := (mach w)
    \<lparr>csr_timer := (csr_timer (mach w))(hart w := TIMER_IE)\<rparr>\<rparr>)"
  by (simp add: interrupt_expire_def)

lemma set_handler_app [simp]: "h < 8 \<Longrightarrow> k \<noteq> H_NULL \<Longrightarrow>
    osThreadSetTrapHandler (thread_ptr h) k InterruptOnExpire w = Ret osOK (w\<lparr>mach := (mach w)
      \<lparr>trap_handler_vector := (trap_handler_vector (mach w))
        (h := (trap_handler_vector (mach w) h)(0 := k))\<rparr>\<rparr>)"
  by (simp add: osThreadSetTrapHandler_def)

text \<open>What arming does: the caller's compare register, timer and handler; the named timer's ticks.\<close>

definition armed :: "nat \<Rightarrow> nat \<Rightarrow> u32 \<Rightarrow> machine \<Rightarrow> machine" where
  "armed h t ticks m = m
     \<lparr>trap_handler_vector := (trap_handler_vector m)(h := (trap_handler_vector m h)
        (0 := if tm_type (startup_timer_state m t) = osTimerOnce then H_timer else H_timer_periodic)),
      startup_timer_state := (startup_timer_state m)(t := (startup_timer_state m t)\<lparr>tm_ticks := ticks\<rparr>),
      csr_compare := (csr_compare m)(h := ticks + csr_time m),
      csr_timer := (csr_timer m)(h := TIMER_IE)\<rparr>"

lemma armed_simps [simp]:
  "startup_timer_state (armed h t n m) =
    (startup_timer_state m)(t := (startup_timer_state m t)\<lparr>tm_ticks := n\<rparr>)"
  "csr_compare (armed h t n m) = (csr_compare m)(h := n + csr_time m)"
  "csr_timer (armed h t n m) = (csr_timer m)(h := TIMER_IE)"
  "trap_handler_vector (armed h t n m) = (trap_handler_vector m)(h := (trap_handler_vector m h)
        (0 := if tm_type (startup_timer_state m t) = osTimerOnce then H_timer else H_timer_periodic))"
  "timer_attr_entry (armed h t n m) = timer_attr_entry m" "timer_base (armed h t n m) = timer_base m"
  "csr_time (armed h t n m) = csr_time m"
  by (simp_all add: armed_def)

definition timer_usable :: "machine \<Rightarrow> nat \<Rightarrow> bool" where
  "timer_usable m t \<longleftrightarrow> t < 8 \<and> timers_placed m \<and> timer_attr_entry m t \<noteq> None \<and>
     tm_type (startup_timer_state m t) \<in> {osTimerOnce, osTimerPeriodic}"

lemma osTimerStart_run:
  assumes "timer_usable (mach w) t" "hart w < 8" "0 < ticks"
  shows "osTimerStart (timer_ptr (mach w) t) ticks w =
    Ret osOK (w\<lparr>mach := armed (hart w) t ticks (mach w)\<rparr>)"
proof -
  have t: "t < 8" "timer_ptr (mach w) t \<noteq> NULL" "timer_attr_entry (mach w) t \<noteq> None"
    "tm_type (startup_timer_state (mach w) t) \<in> {osTimerOnce, osTimerPeriodic}"
    using assms(1) by (auto simp: timer_usable_def timers_placed_def)
  have n: "ticks \<noteq> 0"
    using assms(3) by (simp add: word_gt_0)
  show ?thesis
    using t n assms(2)
    by (cases "tm_type (startup_timer_state (mach w) t) = osTimerOnce")
      (simp_all add: osTimerStart_def armed_def exec_eqs del: exec_conds)
qed

text \<open>What stopping an own timer does.\<close>

definition stopped :: "nat \<Rightarrow> machine \<Rightarrow> machine" where
  "stopped h m = m
     \<lparr>startup_timer_state := (startup_timer_state m)(h := (startup_timer_state m h)\<lparr>tm_ticks := 0\<rparr>),
      csr_compare := (csr_compare m)(h := 0), csr_timer := (csr_timer m)(h := TIMER_OFF),
      trap_handler_vector := (trap_handler_vector m)(h := (trap_handler_vector m h)(0 := H_default_ie))\<rparr>"

lemma stopped_simps [simp]:
  "startup_timer_state (stopped h m) = (startup_timer_state m)(h := (startup_timer_state m h)\<lparr>tm_ticks := 0\<rparr>)"
  "csr_compare (stopped h m) = (csr_compare m)(h := 0)" "csr_timer (stopped h m) = (csr_timer m)(h := TIMER_OFF)"
  "trap_handler_vector (stopped h m) = (trap_handler_vector m)(h := (trap_handler_vector m h)(0 := H_default_ie))"
  "timer_attr_entry (stopped h m) = timer_attr_entry m" "timer_base (stopped h m) = timer_base m"
  "csr_time (stopped h m) = csr_time m" "qbuf (stopped h m) = qbuf m" "emulator_out (stopped h m) = emulator_out m"
  "csr_ie (stopped h m) = csr_ie m"
  by (simp_all add: stopped_def)

lemma osTimerStop_run:
  assumes "timer_usable (mach w) (hart w)" "tm_ticks (startup_timer_state (mach w) (hart w)) \<noteq> 0"
  shows "osTimerStop (timer_ptr (mach w) (hart w)) w = Ret osOK (w\<lparr>mach := stopped (hart w) (mach w)\<rparr>)"
proof -
  have h: "hart w < 8" "timer_ptr (mach w) (hart w) \<noteq> NULL" "timer_attr_entry (mach w) (hart w) \<noteq> None"
    using assms(1) by (auto simp: timer_usable_def timers_placed_def)
  then show ?thesis
    using assms(2) timer_deref_app [of "hart w" w] get_timer_tid_timer_ptr [of "hart w" w]
    by (simp add: osTimerStop_def stopped_def exec_eqs del: exec_conds)
qed

lemma osTimerIsRunning_run:
  assumes "timer_usable (mach w) t"
  shows "osTimerIsRunning (timer_ptr (mach w) t) w =
    Ret (tm_ticks (startup_timer_state (mach w) t) \<noteq> 0) w"
  using assms by (auto simp: osTimerIsRunning_def timer_usable_def timers_placed_def)

lemma timer_ptr_armed [simp]: "timer_ptr (armed h u n m) t = timer_ptr m t"
  by (simp add: timer_ptr_def)

lemma timer_usable_armed [simp]: "timer_usable (armed h u n m) t = timer_usable m t"
  by (auto simp: timer_usable_def timers_placed_def)

text \<open>A fact a waiting thread itself and the outside events keep is kept by a delay.\<close>

lemma delay_until_inv:
  assumes "\<And>m. P m \<Longrightarrow> P (du_sleep (hart w) m)" "\<And>m. P m \<Longrightarrow> P (du_wake (hart w) m)"
  shows "delay_until w = Ret a w' \<Longrightarrow> kept_by P (sched w) \<Longrightarrow> P (mach w) \<Longrightarrow> P (mach w')"
  using assms
proof (induction w rule: delay_until.induct)
  case (1 w)
  show ?case
  proof (cases "expired (mach w) (hart w)")
    case True
    with 1 show ?thesis by (simp add: delay_until.simps [of w])
  next
    case False
    with 1 obtain e es where es: "sched w = e # es"
      by (cases "sched w") (simp_all add: delay_until.simps [of w])
    let ?w = "w\<lparr>mach := du_wake (hart w) (e (du_sleep (hart w) (mach w))), sched := es\<rparr>"
    have "P (mach ?w)" "kept_by P (sched ?w)"
      using 1 es by (auto simp: kept_by_def)
    moreover have "delay_until ?w = Ret a w'"
      using 1 False es by (simp add: delay_until.simps [of w])
    ultimately show ?thesis using 1(1) [OF False es] 1(5,6) by simp
  qed
qed

text \<open>The timer of \<open>h\<close> has ticks, but the hardware is not set to interrupt.\<close>

definition running_disarmed :: "addr \<Rightarrow> nat \<Rightarrow> machine \<Rightarrow> bool" where
  "running_disarmed base h m \<longleftrightarrow> timer_base m = base \<and> timer_usable m h \<and>
     tm_ticks (startup_timer_state m h) \<noteq> 0 \<and> csr_timer m h \<noteq> TIMER_IE"

lemma running_disarmed_du:
  "running_disarmed b h m \<Longrightarrow> running_disarmed b h (du_sleep h m)"
  "running_disarmed b h m \<Longrightarrow> running_disarmed b h (du_wake h m)"
  by (auto simp: running_disarmed_def du_sleep_def du_wake_def timer_usable_def timers_placed_def
      timer_ptr_def)

text \<open>A system with an active one-shot timer for every thread.\<close>

definition example_timers :: machine where
  "example_timers = example_machine
     \<lparr>timer_attr_entry := (\<lambda>t. Some (Attr_static t)),
      startup_timer_state := (\<lambda>_. \<lparr>tm_ticks = 0, tm_func = 0x300, tm_type = osTimerOnce, tm_arg = NULL\<rparr>)\<rparr>"

lemma example_timers_usable: "t < 8 \<Longrightarrow> timer_usable example_timers t"
  by (auto simp: timer_usable_def timers_placed_def example_timers_def example_machine_def
      boot_machine_def timer_ptr_def sizeof_hwtimer_state_def less_8_cases)

section \<open>Properties\<close>

text \<open>
  C22: starting an own active timer arms the hardware for \<open>ticks\<close> from now with the handler of
  its type, and the timer counts as running; stopping it disarms the hardware, puts the
  default handler back, and it no longer does.
\<close>

theorem timer_start_stop:
  assumes "timer_usable (mach w) (hart w)" "0 < ticks"
  shows "\<exists>w' w''. osTimerStart (timer_ptr (mach w) (hart w)) ticks w = Ret osOK w' \<and>
    csr_timer (mach w') (hart w) = TIMER_IE \<and>
    csr_compare (mach w') (hart w) = ticks + csr_time (mach w) \<and>
    trap_handler_vector (mach w') (hart w) 0 =
      (if tm_type (startup_timer_state (mach w) (hart w)) = osTimerOnce then H_timer
       else H_timer_periodic) \<and>
    osTimerIsRunning (timer_ptr (mach w) (hart w)) w' = Ret True w' \<and>
    osTimerStop (timer_ptr (mach w) (hart w)) w' = Ret osOK w'' \<and>
    csr_timer (mach w'') (hart w) = TIMER_OFF \<and>
    trap_handler_vector (mach w'') (hart w) 0 = H_default_ie \<and>
    osTimerIsRunning (timer_ptr (mach w) (hart w)) w'' = Ret False w''"
proof -
  let ?h = "hart w" and ?m = "mach w"
  let ?w = "w\<lparr>mach := armed ?h ?h ticks ?m\<rparr>"
  have h: "?h < 8" "timer_ptr ?m ?h \<noteq> NULL" "timer_attr_entry ?m ?h \<noteq> None"
    using assms(1) by (auto simp: timer_usable_def timers_placed_def)
  have n: "ticks \<noteq> 0"
    using assms(2) by (simp add: word_gt_0)
  have r: "osTimerIsRunning (timer_ptr ?m ?h) ?w = Ret True ?w"
    using osTimerIsRunning_run [of ?w ?h] assms(1) n by simp
  let ?m2 = "stopped ?h (armed ?h ?h ticks ?m)"
  have u: "timer_usable (mach ?w) ?h" "timer_ptr (mach ?w) ?h = timer_ptr ?m ?h"
    using assms(1) by (simp_all add: timer_usable_def timers_placed_def timer_ptr_def)
  then have s: "osTimerStop (timer_ptr ?m ?h) ?w = Ret osOK (w\<lparr>mach := ?m2\<rparr>)"
    using osTimerStop_run [of ?w] n by simp
  have "timer_usable ?m2 ?h" "timer_ptr ?m2 ?h = timer_ptr ?m ?h"
    using assms(1) by (simp_all add: timer_usable_def timers_placed_def timer_ptr_def)
  then have r2: "osTimerIsRunning (timer_ptr ?m ?h) (w\<lparr>mach := ?m2\<rparr>) = Ret False (w\<lparr>mach := ?m2\<rparr>)"
    using osTimerIsRunning_run [of "w\<lparr>mach := ?m2\<rparr>" ?h] by simp
  from osTimerStart_run [OF assms(1) h(1) assms(2)] r s r2 show ?thesis
    by (intro exI [of _ ?w] exI [of _ "w\<lparr>mach := ?m2\<rparr>"]) simp
qed

theorem timer_start_stop_witness:
  "\<exists>w'. osTimerStart (timer_ptr example_timers 3) 500
      \<lparr>hart = 3, mach = example_timers, sched = []\<rparr> = Ret osOK w' \<and> csr_timer (mach w') 3 = TIMER_IE"
  using timer_start_stop [of "\<lparr>hart = 3, mach = example_timers, sched = []\<rparr>" 500]
    example_timers_usable [of 3] by auto

text \<open>
  A thread has at most one active timer: a second \<^verbatim>\<open>osTimerNew\<close> is refused until the
  first timer is deleted, after which one can be made again.
\<close>

theorem one_timer_per_thread:
  assumes "hart w < 8" "timers_placed (mach w)" "timer_attr_entry (mach w) (hart w) = None"
    and "f \<noteq> NULL" "g \<noteq> NULL"
  shows "\<exists>w1 w2 w3 w4. osTimerNew f type arg attr w = Ret (timer_ptr (mach w) (hart w)) w1 \<and>
    osTimerNew g type' arg' attr' w1 = Ret NULL w2 \<and>
    startup_timer_state (mach w2) = startup_timer_state (mach w1) \<and>
    osTimerDelete (timer_ptr (mach w) (hart w)) w2 = Ret osOK w3 \<and>
    osTimerNew g type' arg' attr' w3 = Ret (timer_ptr (mach w) (hart w)) w4"
proof -
  let ?h = "hart w" and ?p = "timer_ptr (mach w) (hart w)"
  have new: "\<exists>v'. osTimerNew k ty ar at v = Ret ?p v' \<and> hart v' = ?h \<and>
      timer_base (mach v') = timer_base (mach w) \<and> timer_attr_entry (mach v') ?h \<noteq> None"
    if "hart v = ?h" "timer_base (mach v) = timer_base (mach w)"
      "timer_attr_entry (mach v) ?h = None" "k \<noteq> NULL" for k ty ar at v
    using that assms(1) by (cases at) (auto simp: osTimerNew_def timer_ptr_def)
  obtain w1 where w1: "osTimerNew f type arg attr w = Ret ?p w1" "hart w1 = ?h"
      "timer_base (mach w1) = timer_base (mach w)" "timer_attr_entry (mach w1) ?h \<noteq> None"
    using new [of w f type arg attr] assms by auto
  obtain msg where w2: "osTimerNew g type' arg' attr' w1 = Ret NULL (w1\<lparr>mach := say msg (mach w1)\<rparr>)"
    using w1 assms(1) by (auto simp: osTimerNew_def)
  let ?w2 = "w1\<lparr>mach := say msg (mach w1)\<rparr>"
  have p: "timer_ptr (mach ?w2) ?h = ?p" "?p \<noteq> NULL"
    using w1 assms(1,2) by (simp_all add: timer_ptr_def timers_placed_def)
  have d: "get_timer_tid ?p ?w2 = Ret (of_nat ?h) ?w2" "timer_deref ?p ?w2 = Ret ?h ?w2"
    using get_timer_tid_timer_ptr [of ?h ?w2] timer_deref_app [of ?h ?w2] p assms(1) by simp_all
  obtain w3 where w3: "osTimerDelete ?p ?w2 = Ret osOK w3" "hart w3 = ?h"
      "timer_base (mach w3) = timer_base (mach w)" "timer_attr_entry (mach w3) ?h = None"
    using d p w1 assms(1)
    by (cases "tm_ticks (startup_timer_state (mach w1) ?h) = 0")
      (simp_all add: osTimerDelete_def exec_eqs del: exec_conds)
  from new [OF w3(2-4) assms(5), of type' arg' attr'] w1 w2 w3 show ?thesis by fastforce
qed

theorem one_timer_per_thread_witness:
  "\<exists>w w1 w2. osTimerNew 0x300 osTimerOnce NULL None w = Ret 0x20000130 w1 \<and>
    osTimerNew 0x400 osTimerOnce NULL None w1 = Ret NULL w2"
proof -
  have p: "timers_placed example_machine" "timer_ptr example_machine 3 = 0x20000130"
    by (auto simp: timers_placed_def example_machine_def boot_machine_def timer_ptr_def
        sizeof_hwtimer_state_def less_8_cases)
  have e: "timer_attr_entry example_machine 3 = None"
    by (simp add: example_machine_def boot_machine_def)
  from one_timer_per_thread [where w = "example_world 3 []" and f = "0x300" and g = "0x400" and type = osTimerOnce
      and arg = NULL and attr = None and type' = osTimerOnce and arg' = NULL and attr' = None]
  show ?thesis using p e by fastforce
qed

text \<open>
  \<^verbatim>\<open>osDelay\<close> disarms the calling thread's running timer for good: it returns with the
  timer hardware not set to interrupt, while \<^verbatim>\<open>osTimerIsRunning\<close> still says the timer runs.
\<close>

theorem osDelay_disarms_timer:
  assumes "timer_usable (mach w) (hart w)" "tm_ticks (startup_timer_state (mach w) (hart w)) \<noteq> 0"
    and "kept_by (running_disarmed (timer_base (mach w)) (hart w)) (sched w)"
    and "osDelay n w = Ret r w'"
  shows "csr_timer (mach w') (hart w) \<noteq> TIMER_IE \<and>
    osTimerIsRunning (timer_ptr (mach w) (hart w)) w' = Ret True w'"
proof -
  let ?h = "hart w" and ?b = "timer_base (mach w)"
  let ?w = "w\<lparr>mach := write_csr CSR_COMPARE ?h (csr_time (mach w) + n) (mach w)\<rparr>"
  obtain a where d: "delay_until ?w = Ret a w'"
    using assms(4)
    by (auto simp: osDelay_def delay_until_periodic_def Let_def set_compare_def bnd_eq_Ret_iff
        seqm_eq_Ret_iff)
  have "running_disarmed ?b ?h (mach ?w)"
    using assms(1,2)
    by (auto simp: running_disarmed_def timer_usable_def timers_placed_def timer_ptr_def)
  with delay_until_inv [of "running_disarmed ?b ?h" ?w a w'] running_disarmed_du assms(3) d
  have k: "running_disarmed ?b ?h (mach w')" by simp
  then have "timer_ptr (mach w') ?h = timer_ptr (mach w) ?h"
    by (simp add: running_disarmed_def timer_ptr_def)
  with k osTimerIsRunning_run [of w' ?h] show ?thesis
    by (simp add: running_disarmed_def)
qed

theorem osDelay_disarms_timer_witness:
  "\<exists>w w'. osDelay 100 w = Ret osOK w' \<and> csr_timer (mach w) 3 = TIMER_IE \<and>
    csr_timer (mach w') 3 \<noteq> TIMER_IE \<and> osTimerIsRunning (timer_ptr (mach w) 3) w' = Ret True w'"
proof -
  let ?m = "armed 3 3 50 example_timers"
  let ?w = "\<lparr>hart = 3, mach = ?m, sched = [tick 100]\<rparr>"
  have t: "csr_time example_timers = 0"
    by (simp add: example_timers_def example_flags)
  have "\<exists>w'. delay_until (?w\<lparr>mach := write_csr CSR_COMPARE 3 100 ?m\<rparr>) = Ret () w'"
    by (simp add: delay_until.simps expired_def du_sleep_def du_wake_def tick_def t bit_31_neg)
  then obtain w' where d: "osDelay 100 ?w = Ret osOK w'"
    by (auto simp: osDelay_def delay_until_periodic_def Let_def t)
  have k: "kept_by (running_disarmed (timer_base ?m) 3) (sched ?w)"
    by (auto simp: kept_by_def running_disarmed_def tick_def timer_usable_def timers_placed_def
        timer_ptr_def)
  have "csr_timer (mach w') (hart ?w) \<noteq> TIMER_IE \<and>
    osTimerIsRunning (timer_ptr (mach ?w) (hart ?w)) w' = Ret True w'"
    by (rule osDelay_disarms_timer [OF _ _ _ d]) (use k example_timers_usable [of 3] in simp_all)
  with d show ?thesis by (intro exI [of _ ?w] exI [of _ w']) simp
qed

text \<open>
  When the callback of a one-shot timer starts the timer again, the interrupt handler
  then clears its ticks: the hardware is armed, but the timer counts as stopped and
  \<^verbatim>\<open>osTimerStop\<close> refuses to stop it.
\<close>

theorem oneshot_restart_lost:
  assumes "timer_usable (mach w) (hart w)" "0 < n"
    and "\<And>f a. call f a w = bnd (osTimerStart (timer_ptr (mach w) (hart w)) n) (\<lambda>_. ret ()) w"
  shows "\<exists>w'. timer_handler call w = Ret () w' \<and> csr_timer (mach w') (hart w) = TIMER_IE \<and>
    csr_compare (mach w') (hart w) = n + csr_time (mach w) \<and>
    osTimerIsRunning (timer_ptr (mach w) (hart w)) w' = Ret False w' \<and>
    osTimerStop (timer_ptr (mach w) (hart w)) w' = Ret osErrorResource w'"
proof -
  let ?h = "hart w" and ?m = "mach w"
  have h: "?h < 8" "timer_ptr ?m ?h \<noteq> NULL" "timer_attr_entry ?m ?h \<noteq> None"
    using assms(1) by (auto simp: timer_usable_def timers_placed_def)
  let ?m' = "(armed ?h ?h n ?m)\<lparr>startup_timer_state := (startup_timer_state ?m)
    (?h := (startup_timer_state ?m ?h)\<lparr>tm_ticks := 0\<rparr>)\<rparr>"
  let ?w' = "w\<lparr>mach := ?m'\<rparr>"
  have r: "timer_handler call w = Ret () ?w'"
    using h osTimerStart_run [OF assms(1) h(1) assms(2)] by (simp add: timer_handler_def assms(3))
  have u: "timer_usable ?m' ?h" "timer_ptr ?m' ?h = timer_ptr ?m ?h"
    using assms(1) by (simp_all add: timer_usable_def timers_placed_def timer_ptr_def)
  then have i: "osTimerIsRunning (timer_ptr ?m ?h) ?w' = Ret False ?w'"
    using osTimerIsRunning_run [of ?w' ?h] by simp
  have "timer_deref (timer_ptr ?m ?h) ?w' = Ret ?h ?w'" "get_timer_tid (timer_ptr ?m ?h) ?w' = Ret (of_nat ?h) ?w'"
    using timer_deref_app [of ?h ?w'] get_timer_tid_timer_ptr [of ?h ?w'] h u by simp_all
  then have "osTimerStop (timer_ptr ?m ?h) ?w' = Ret osErrorResource ?w'"
    using h by (simp add: osTimerStop_def exec_eqs del: exec_conds)
  with r i show ?thesis by (intro exI [of _ ?w']) simp
qed

theorem oneshot_restart_lost_witness:
  "\<exists>call w w'. timer_handler call w = Ret () w' \<and> csr_timer (mach w') 3 = TIMER_IE \<and>
    osTimerIsRunning (timer_ptr (mach w) 3) w' = Ret False w'"
  using oneshot_restart_lost [of "\<lparr>hart = 3, mach = example_timers, sched = []\<rparr>" 40
      "\<lambda>f a w. bnd (osTimerStart (timer_ptr (mach w) (hart w)) 40) (\<lambda>_. ret ()) w"]
    example_timers_usable [of 3]
  by fastforce

text \<open>
  A periodic timer's interrupt re-arms it one period after the callback has returned,
  whatever the callback does to other state; a one-shot timer has then stopped.
\<close>

theorem timer_interrupts:
  assumes "hart w < 8" "call (tm_func tm) (tm_arg tm) w = Ret () wc" "hart wc = hart w"
    and "tm = startup_timer_state (mach w) (hart w)"
    and "startup_timer_state (mach wc) (hart w) = tm"
  shows "(\<exists>w'. timer_periodic_handler call w = Ret () w' \<and> csr_timer (mach w') (hart w) = TIMER_IE \<and>
      csr_compare (mach w') (hart w) = tm_ticks tm + csr_time (mach wc) \<and>
      startup_timer_state (mach w') (hart w) = tm) \<and>
    (\<exists>w'. timer_handler call w = Ret () w' \<and>
      startup_timer_state (mach w') (hart w) = tm\<lparr>tm_ticks := 0\<rparr> \<and>
      csr_timer (mach w') = csr_timer (mach wc) \<and> csr_compare (mach w') = csr_compare (mach wc))"
  using assms
  by (simp add: timer_periodic_handler_def timer_handler_def)

theorem timer_interrupts_witness:
  "\<exists>w w'. timer_periodic_handler (\<lambda>f a. ret ()) w = Ret () w' \<and> csr_timer (mach w') 3 = TIMER_IE"
  using timer_interrupts [of "\<lparr>hart = 3, mach = example_timers, sched = []\<rparr>" "\<lambda>f a. ret ()"
      "startup_timer_state example_timers 3" "\<lparr>hart = 3, mach = example_timers, sched = []\<rparr>"]
  by auto

text \<open>
  Starting another thread's timer arms the caller: its compare register and handler are
  overwritten, the owner's hardware stays as it is, and yet the owner's timer counts as running.
\<close>

theorem start_of_other_timer_arms_caller:
  assumes "timer_usable (mach w) t" "hart w < 8" "t \<noteq> hart w" "0 < n"
  shows "\<exists>w'. osTimerStart (timer_ptr (mach w) t) n w = Ret osOK w' \<and>
    csr_timer (mach w') (hart w) = TIMER_IE \<and>
    csr_compare (mach w') (hart w) = n + csr_time (mach w) \<and>
    csr_timer (mach w') t = csr_timer (mach w) t \<and> csr_compare (mach w') t = csr_compare (mach w) t \<and>
    osTimerIsRunning (timer_ptr (mach w) t) w' = Ret True w'"
  using osTimerStart_run [OF assms(1,2,4)] assms
    osTimerIsRunning_run [of "w\<lparr>mach := armed (hart w) t n (mach w)\<rparr>" t]
  by (simp add: word_gt_0)

theorem start_of_other_timer_arms_caller_witness:
  "\<exists>w w'. osTimerStart (timer_ptr (mach w) 5) 10 w = Ret osOK w' \<and> hart w = 3 \<and>
    csr_timer (mach w') 3 = TIMER_IE \<and> csr_timer (mach w') 5 = csr_timer (mach w) 5"
  using start_of_other_timer_arms_caller [of "\<lparr>hart = 3, mach = example_timers, sched = []\<rparr>" 5 10]
    example_timers_usable [of 5] by fastforce

end
