(* ===== verification/Threads.thy ===== *)
theory Threads
  imports Scheduler Timing
begin

text \<open>
  \<^verbatim>\<open>src/os/src/flexpret_threads.c\<close>: creation, state, priority, joining and termination of
  the threads, one per hardware thread.
\<close>

section \<open>Operations\<close>

text \<open>Accesses to \<^verbatim>\<open>startup_state[tid]\<close> and through \<^verbatim>\<open>flexpret_thread_attr_entry[tid]\<close>.\<close>

definition st_get :: "nat \<Rightarrow> hwthread_state os" where
  "st_get tid = seqm (idx tid FLEXPRET_HW_THREADS_NUMS) (rdm (\<lambda>m. startup_state m tid))"

definition st_upd :: "nat \<Rightarrow> (hwthread_state \<Rightarrow> hwthread_state) \<Rightarrow> unit os" where
  "st_upd tid f = seqm (idx tid FLEXPRET_HW_THREADS_NUMS)
     (upd (\<lambda>m. m\<lparr>startup_state := (startup_state m)(tid := f (startup_state m tid))\<rparr>))"

definition attr_upd :: "nat \<Rightarrow> (osThreadAttr_t \<Rightarrow> osThreadAttr_t) \<Rightarrow> unit os" where
  "attr_upd tid f =
     seqm (idx tid FLEXPRET_HW_THREADS_NUMS)
     (bnd (rdm (\<lambda>m. thread_attr_entry m tid)) (\<lambda>p.
      case p of None \<Rightarrow> (\<lambda>w. Fault Null_Deref)
      | Some r \<Rightarrow> upd (\<lambda>m. m\<lparr>thread_attr := (thread_attr m)(r := f (thread_attr m r))\<rparr>)))"

definition init_stack :: "nat \<Rightarrow> addr os" where
  "init_stack tid = seqm (idx tid FLEXPRET_HW_THREADS_NUMS) (ret (flexpret_thread_init_stack_addr ! tid))"

definition flexpret_thread_init_attr :: osThreadAttr_t where
  "flexpret_thread_init_attr = \<lparr>at_name = Some ''FlexpretThread'', at_attr_bits = osThreadDetached,
     at_cb_mem = NULL, at_cb_size = sizeof_hwthread_state, at_stack_mem = NULL, at_stack_size = 0,
     at_priority = osPriorityNormal, at_tz_module = 0, at_reserved = 0\<rparr>"

text \<open>
  The loop over the mutexes works on a copy of each control block: the assignments to the
  copy's \<^verbatim>\<open>owner\<close> and \<^verbatim>\<open>count\<close> are lost.
\<close>

definition release_robust :: "addr \<Rightarrow> nat \<Rightarrow> unit os" where
  "release_robust thread_id i =
     bnd (mu_get i) (\<lambda>mu.
     whenm (mu_ifRobust mu \<and> mu_active mu \<and> mu_owner mu = thread_id)
       (let mu = mu\<lparr>mu_owner := NULL, mu_count := 0\<rparr> in
        write_mutex_csr (mu_csr_addr mu) FLEXPRET_MUTEX_ACTIVE))"

definition thread_clean :: "addr \<Rightarrow> u32 os" where
  "thread_clean thread_id =
     bnd (get_tid thread_id) (\<lambda>tid.
     seqm (st_upd (unat tid) (\<lambda>st. st\<lparr>th_arg := NULL\<rparr>))
     (seqm (st_upd (unat tid) (\<lambda>st. st\<lparr>th_state := FLEXPRET_TERMINATED\<rparr>))
     (bnd (init_stack (unat tid)) (\<lambda>stack.
     seqm (st_upd (unat tid) (\<lambda>st. st\<lparr>th_stack_address := stack\<rparr>))
     (bnd (osThreadGetTimer thread_id) (\<lambda>timer.
     seqm (whenm (timer \<noteq> NULL) (bnd (osTimerDelete timer) (\<lambda>_. ret ())))
     (seqm (for_each [0..<FLEXPRET_MUTEX_MAX_NUM] (release_robust thread_id))
     (seqm (st_upd (unat tid) (\<lambda>st. st\<lparr>th_func := NULL\<rparr>))
     (ret tid)))))))))"

text \<open>
  The \<^verbatim>\<open>do ... while\<close> loop of \<^verbatim>\<open>thread_terminate\<close>, unrolled: a priority that is neither normal
  nor realtime is replaced, by the mode, with one of the two, which end the loop at the
  next pass.
\<close>

definition terminate_slots :: "addr \<Rightarrow> u32 \<Rightarrow> int \<Rightarrow> unit os" where
  "terminate_slots thread_id tid prior =
     (if prior = osPriorityNormal then srtt_terminate tid
      else if prior = osPriorityRealtime then bnd (osSchedulerSetSlotNum thread_id 0) (\<lambda>_. ret ())
      else bnd (osSchedulerGetTmodes thread_id) (\<lambda>tmode.
        if tmode = TMODE_HA \<or> tmode = TMODE_HZ then
          bnd (osSchedulerSetSlotNum thread_id 0) (\<lambda>_. ret ())
        else if tmode = TMODE_SA \<or> tmode = TMODE_SZ then srtt_terminate tid
        else seqm (flexpret_error (''Bad priority'' @ [CHR 0x0A]))
          (bnd (osSchedulerSetSlotNum thread_id 0) (\<lambda>_. ret ()))))"

definition thread_terminate :: "addr \<Rightarrow> bool \<Rightarrow> unit os" where
  "thread_terminate thread_id clean =
     bnd (if clean then thread_clean thread_id else get_tid thread_id) (\<lambda>tid.
     bnd (attr_get (unat tid)) (\<lambda>at.
     seqm (terminate_slots thread_id tid (at_priority at))
     (bnd (osSchedulerSetTmodes thread_id TMODE_ZOMBIE) (\<lambda>_. ret ()))))"

definition raw_thread_after_return_handler :: "unit os" where
  "raw_thread_after_return_handler =
     bnd my_hart (\<lambda>tid. st_upd tid (\<lambda>st. st\<lparr>th_func := NULL\<rparr>))"

text \<open>
  A thread that has ended sleeps until it is given a new function, then jumps to the reset
  code, which calls it; it does not return. \<open>Ret\<close> stands for the jump.
\<close>

fun wait_for_func :: "nat \<Rightarrow> unit os" where
  "wait_for_func 0 = (\<lambda>w. Blocked w)"
| "wait_for_func (Suc n) =
     bnd my_hart (\<lambda>tid.
     bnd (st_get tid) (\<lambda>st.
     if th_func st \<noteq> NULL then ret ()
     else bnd (osDelay FLEXPRET_WAIT_PERIOD) (\<lambda>_. wait_for_func n)))"

definition thread_after_return_handler :: "unit os" where
  "thread_after_return_handler =
     bnd osThreadGetId (\<lambda>thread_id.
     seqm (thread_clean thread_id)
     (\<lambda>w. wait_for_func (Suc (length (sched w))) w))"

text \<open>From \<^verbatim>\<open>src/os/src/flexpret_kernel.c\<close>.\<close>

definition osKernelGetState :: "osKernelState_t os" where
  "osKernelGetState = rdm kernel_state"

text \<open>\<open>func\<close>, \<open>argument\<close> and \<open>attr\<close> as in C, \<open>attr\<close> being \<open>None\<close> for \<^verbatim>\<open>NULL\<close>.\<close>

definition osThreadNew :: "addr \<Rightarrow> addr \<Rightarrow> attr_ref option \<Rightarrow> addr os" where
  "osThreadNew func argument attr =
     (if func = NULL then ret NULL
      else bnd (rdm flexpret_thread_num) (\<lambda>num.
      if num = FLEXPRET_HW_THREADS_NUMS then
        seqm (flexpret_error (''Max thread num exceed'' @ [CHR 0x0A])) (ret NULL)
      else bnd (rdm (\<lambda>m. case attr of None \<Rightarrow> False
          | Some r \<Rightarrow> at_priority (thread_attr m r) \<noteq> osPriorityRealtime \<and>
              at_priority (thread_attr m r) \<noteq> osPriorityNormal)) (\<lambda>bad_priority.
      if bad_priority then ret NULL
      else bnd (rdm flexpret_thread_num) (\<lambda>tid.
        seqm (upd (\<lambda>m. m\<lparr>flexpret_thread_num := flexpret_thread_num m + 1\<rparr>))
        (bnd (init_stack tid) (\<lambda>stack.
        bnd (init_stack (tid - 1)) (\<lambda>prev_stack.
        seqm (case attr of
            None \<Rightarrow>
              seqm (attr_upd tid (\<lambda>_. flexpret_thread_init_attr))
              (seqm (attr_upd tid (\<lambda>at. at\<lparr>at_stack_mem := stack\<rparr>))
              (seqm (attr_upd tid (\<lambda>at. at\<lparr>at_stack_size := stack - prev_stack\<rparr>))
              (attr_upd tid (\<lambda>at. at\<lparr>at_cb_mem := thread_ptr tid\<rparr>))))
          | Some r \<Rightarrow>
              seqm (idx tid FLEXPRET_HW_THREADS_NUMS)
              (seqm (upd (\<lambda>m. m\<lparr>thread_attr_entry := (thread_attr_entry m)(tid := Some r)\<rparr>))
              (bnd (rdm (\<lambda>m. at_stack_mem (thread_attr m r))) (\<lambda>mem.
              seqm (if mem = NULL
                 then seqm (st_upd tid (\<lambda>st. st\<lparr>th_stack_address := stack\<rparr>))
                   (attr_upd tid (\<lambda>at. at\<lparr>at_stack_mem := stack\<rparr>))
                 else seqm (st_upd tid (\<lambda>st. st\<lparr>th_stack_address := mem\<rparr>))
                   (attr_upd tid (\<lambda>at. at\<lparr>at_stack_mem := mem\<rparr>)))
              (bnd (rdm (\<lambda>m. at_stack_size (thread_attr m r))) (\<lambda>sz.
               if sz = 0 then attr_upd tid (\<lambda>at. at\<lparr>at_stack_size := stack - prev_stack\<rparr>)
               else attr_upd tid (\<lambda>at. at\<lparr>at_stack_size := sz\<rparr>)))))))
        (seqm (st_upd tid (\<lambda>st. st\<lparr>th_func := func\<rparr>))
        (seqm (st_upd tid (\<lambda>st. st\<lparr>th_state := FLEXPRET_ACTIVE\<rparr>))
        (seqm (st_upd tid (\<lambda>st. st\<lparr>th_arg := argument\<rparr>))
        (bnd osKernelGetState (\<lambda>ks.
        seqm (whenm (ks = osKernelRunning) (thread_after_create (of_nat tid)))
        (ret (thread_ptr tid))))))))))))))"

definition osThreadGetName :: "addr \<Rightarrow> string option os" where
  "osThreadGetName thread_id =
     bnd (get_tid thread_id) (\<lambda>tid. bnd (attr_get (unat tid)) (\<lambda>at. ret (at_name at)))"

definition osThreadGetState :: "addr \<Rightarrow> osThreadState_t os" where
  "osThreadGetState thread_id =
     bnd (get_tid thread_id) (\<lambda>tid.
     bnd (st_get (unat tid)) (\<lambda>st.
     ret (case th_state st of
         FLEXPRET_ACTIVE \<Rightarrow> osThreadRunning
       | FLEXPRET_BLOCKED \<Rightarrow> osThreadBlocked
       | FLEXPRET_INACTIVE \<Rightarrow> osThreadInactive
       | FLEXPRET_TERMINATED \<Rightarrow> osThreadTerminated)))"

definition osThreadGetStackSize :: "addr \<Rightarrow> u32 os" where
  "osThreadGetStackSize thread_id =
     bnd (get_tid thread_id) (\<lambda>tid. bnd (attr_get (unat tid)) (\<lambda>at. ret (at_stack_size at)))"

text \<open>\<open>tid_addr\<close> is the address of the local variable of that name, on the caller's stack.\<close>

definition osThreadGetStackSpace :: "addr \<Rightarrow> addr \<Rightarrow> u32 os" where
  "osThreadGetStackSpace tid_addr thread_id =
     bnd (get_tid thread_id) (\<lambda>tid.
     bnd (os_read_csr CSR_HARTID) (\<lambda>current_tid.
     if tid \<noteq> current_tid then
       seqm (flexpret_error (''osThreadGetStackSpace only supports querying threads' own space'' @ [CHR 0x0A]))
       (ret 0)
     else
       bnd (attr_get (unat tid)) (\<lambda>at.
       let stack_mem = at_stack_mem at; stack_size = at_stack_size at in
       if tid_addr < stack_mem \<and> stack_mem - tid_addr < stack_size
       then ret (stack_size - (stack_mem - tid_addr))
       else seqm (flexpret_error (''Error calculating stack space.'' @ [CHR 0x0A])) (ret 0))))"

definition osThreadSetPriority :: "addr \<Rightarrow> int \<Rightarrow> osStatus_t os" where
  "osThreadSetPriority thread_id priority =
     (if thread_id = NULL then ret osErrorParameter
      else bnd (get_tid thread_id) (\<lambda>tid.
      bnd (attr_get (unat tid)) (\<lambda>at.
      if at_priority at = priority then ret osOK
      else if priority = osPriorityRealtime then
        seqm (change_srtt_to_hrtt tid)
        (seqm (attr_upd (unat tid) (\<lambda>at. at\<lparr>at_priority := osPriorityRealtime\<rparr>))
        (ret osOK))
      else if priority = osPriorityNormal then
        seqm (change_hrtt_to_srtt tid)
        (seqm (attr_upd (unat tid) (\<lambda>at. at\<lparr>at_priority := osPriorityNormal\<rparr>))
        (ret osOK))
      else
        seqm (flexpret_error (''unsupported priority'' @ [CHR 0x0A])) (ret osError))))"

definition osThreadGetPriority :: "addr \<Rightarrow> int os" where
  "osThreadGetPriority thread_id =
     (if thread_id = NULL then ret osPriorityError
      else bnd (get_tid thread_id) (\<lambda>tid. bnd (attr_get (unat tid)) (\<lambda>at. ret (at_priority at))))"

definition osThreadYield :: "osStatus_t os" where
  "osThreadYield = seqm (flexpret_not_supported ''osThreadYield'') (ret osOK)"

definition osThreadSuspend :: "addr \<Rightarrow> osStatus_t os" where
  "osThreadSuspend thread_id =
     bnd (get_tid thread_id) (\<lambda>tid.
     seqm (st_upd (unat tid) (\<lambda>st. st\<lparr>th_state := FLEXPRET_BLOCKED\<rparr>))
     (bnd (osSchedulerSetTmodes thread_id TMODE_ZOMBIE) (\<lambda>_.
     ret osOK)))"

definition osThreadResume :: "addr \<Rightarrow> osStatus_t os" where
  "osThreadResume thread_id =
     bnd (get_tid thread_id) (\<lambda>tid.
     bnd (osSchedulerSetTmodes thread_id TMODE_ACTIVE) (\<lambda>_.
     seqm (st_upd (unat tid) (\<lambda>st. st\<lparr>th_state := FLEXPRET_ACTIVE\<rparr>))
     (ret osOK)))"

definition osThreadDetach :: "addr \<Rightarrow> osStatus_t os" where
  "osThreadDetach thread_id =
     bnd (get_tid thread_id) (\<lambda>tid.
     seqm (attr_upd (unat tid) (\<lambda>at. at\<lparr>at_attr_bits := osThreadDetached\<rparr>))
     (ret osOK))"

fun join_wait :: "nat \<Rightarrow> nat \<Rightarrow> unit os" where
  "join_wait 0 t = (\<lambda>w. Blocked w)"
| "join_wait (Suc n) t =
     bnd (st_get t) (\<lambda>st.
     if th_func st \<noteq> NULL then
       bnd get_time (\<lambda>time.
       bnd (delay_until_periodic time FLEXPRET_WAIT_PERIOD) (\<lambda>_.
       join_wait n t))
     else ret ())"

definition osThreadJoin :: "addr \<Rightarrow> osStatus_t os" where
  "osThreadJoin thread_id =
     (if thread_id = NULL then ret osError
      else bnd (get_tid thread_id) (\<lambda>tid.
      bnd (attr_get (unat tid)) (\<lambda>at.
      if at_attr_bits at \<noteq> osThreadJoinable then
        seqm (flexpret_error ''Thread '')
        (seqm (bnd (itoa_hex_removing_ldz tid) flexpret_error)
        (seqm (flexpret_error ('' is not joinable'' @ [CHR 0x0A]))
        (ret osError)))
      else bnd (os_read_csr CSR_HARTID) (\<lambda>current_tid.
      if tid = current_tid then
        seqm (flexpret_error (''Thread cannot join itself.'' @ [CHR 0x0A])) (ret osError)
      else
        seqm (\<lambda>w. join_wait (Suc (length (sched w))) (unat tid) w)
        (seqm (thread_terminate thread_id False)
        (ret osOK))))))"

text \<open>
  \<^verbatim>\<open>osThreadJoinAll\<close>: the collecting loop, one pass over the threads, and the polling loop,
  which does not sleep. \<^verbatim>\<open>tids\<close> has \<^verbatim>\<open>FLEXPRET_MAX_HW_THREADS_NUMS\<close> elements.
\<close>

fun join_collect :: "nat \<Rightarrow> nat \<Rightarrow> addr list \<Rightarrow> u32 list \<Rightarrow> u32 \<Rightarrow> (u32 list \<times> u32) os" where
  "join_collect 0 i ids tids flag = ret (tids, flag)"
| "join_collect (Suc n) i ids tids flag =
     seqm (require (i < length ids) Bad_Index)
     (bnd (get_tid (ids ! i)) (\<lambda>tid.
     seqm (idx i FLEXPRET_MAX_HW_THREADS_NUMS)
     (bnd (shift_one tid) (\<lambda>bit.
     join_collect n (Suc i) ids (tids[i := tid]) (flag OR bit)))))"

fun join_pass :: "nat \<Rightarrow> nat \<Rightarrow> addr list \<Rightarrow> u32 list \<Rightarrow> u32 \<Rightarrow> u32 os" where
  "join_pass 0 i ids tids flag = ret flag"
| "join_pass (Suc n) i ids tids flag =
     bnd (st_get (unat (tids ! i))) (\<lambda>st.
     if th_func st = NULL then
       seqm (thread_terminate (ids ! i) False)
       (bnd (shift_one (tids ! i)) (\<lambda>bit.
       join_pass n (Suc i) ids tids (flag AND NOT bit)))
     else join_pass n (Suc i) ids tids flag)"

fun join_poll :: "nat \<Rightarrow> nat \<Rightarrow> addr list \<Rightarrow> u32 list \<Rightarrow> u32 \<Rightarrow> unit os" where
  "join_poll 0 len ids tids flag = (\<lambda>w. Blocked w)"
| "join_poll (Suc n) len ids tids flag =
     (if flag = 0 then ret ()
      else bnd (join_pass len 0 ids tids flag) (\<lambda>flag.
        if flag = 0 then ret () else seqm env_step (join_poll n len ids tids flag)))"

definition osThreadJoinAll :: "addr list \<Rightarrow> u32 \<Rightarrow> osStatus_t os" where
  "osThreadJoinAll thread_ids len =
     bnd (join_collect (unat len) 0 thread_ids (replicate FLEXPRET_MAX_HW_THREADS_NUMS 0) 0) (\<lambda>(tids, flag).
     seqm (\<lambda>w. join_poll (Suc (length (sched w))) (unat len) thread_ids tids flag w)
     (ret osOK))"

definition osThreadExit :: "unit os" where
  "osThreadExit = thread_after_return_handler"

text \<open>\<open>None\<close>: the thread ended itself, and the call has not returned but gone to the reset code.\<close>

definition osThreadTerminate :: "addr \<Rightarrow> osStatus_t option os" where
  "osThreadTerminate thread_id =
     bnd (get_tid thread_id) (\<lambda>tid.
     if thread_id = NULL \<or> tid = - 1 then
       seqm (flexpret_error (''Bad thread_id.'' @ [CHR 0x0A])) (ret (Some osErrorParameter))
     else bnd osThreadGetId (\<lambda>me.
       if thread_id = me then seqm osThreadExit (ret None)
       else seqm (thread_terminate thread_id True) (ret (Some osOK))))"

fun count_loop :: "(nat \<Rightarrow> hwthread_state) \<Rightarrow> nat list \<Rightarrow> u32 \<Rightarrow> u32" where
  "count_loop st [] count = count"
| "count_loop st (i # is) count =
     count_loop st is (if th_func (st i) \<noteq> NULL then count + 1 else count)"

definition osThreadGetCount :: "u32 os" where
  "osThreadGetCount =
     bnd (rdm startup_state) (\<lambda>st. ret (count_loop st [0..<FLEXPRET_HW_THREADS_NUMS] 0))"

text \<open>The identifiers stored in \<^verbatim>\<open>thread_array\<close>, in order; their number is the result.\<close>

fun enumerate_loop :: "(nat \<Rightarrow> hwthread_state) \<Rightarrow> nat list \<Rightarrow> addr list" where
  "enumerate_loop st [] = []"
| "enumerate_loop st (i # is) =
     (if th_func (st i) \<noteq> NULL then thread_ptr i # enumerate_loop st is else enumerate_loop st is)"

definition osThreadEnumerate :: "u32 \<Rightarrow> (addr list \<times> u32) os" where
  "osThreadEnumerate array_items =
     bnd (rdm startup_state) (\<lambda>st.
     let thread_array = enumerate_loop st [0..<min FLEXPRET_HW_THREADS_NUMS (unat array_items)] in
     ret (thread_array, of_nat (length thread_array)))"

definition osDelayUntil :: "u32 \<Rightarrow> osStatus_t os" where
  "osDelayUntil ticks =
     bnd (bnd osThreadGetId osThreadGetTimer) (\<lambda>timer.
     bnd (osTimerIsRunning timer) (\<lambda>running.
     if running then
       seqm (flexpret_error (''A thread CANNOT call osDelayUntil when it has a running timer because of Flexpret's timing mechanism.'' @ [CHR 0x0A]))
       (ret osError)
     else
       seqm (set_compare ticks)
       (seqm delay_until
       (ret osOK))))"

end
