(* ===== verification/Kernel.thy ===== *)
theory Kernel
  imports Threads
begin

text \<open>
  \<^verbatim>\<open>src/os/src/flexpret_kernel.c\<close>: initialisation, start and reset of the operating system,
  version information, and the calls that are not implemented.
\<close>

definition KERNEL_VER :: "u32 \<Rightarrow> u32 \<Rightarrow> u32 \<Rightarrow> u32" where
  "KERNEL_VER v1 v2 v3 = push_bit 16 (0xFF AND v1) OR push_bit 8 (0xFF AND v2) OR (0xFF AND v3)"

definition KERNEL_VER_MAJOR :: "u32 \<Rightarrow> u32" where
  "KERNEL_VER_MAJOR ver = drop_bit 16 ver AND 0xFF"

definition KERNEL_VER_MINOR :: "u32 \<Rightarrow> u32" where
  "KERNEL_VER_MINOR ver = drop_bit 8 ver AND 0xFF"

definition KERNEL_VER_PATCHLEVEL :: "u32 \<Rightarrow> u32" where
  "KERNEL_VER_PATCHLEVEL ver = ver AND 0xFF"

definition FLEXPRET_OS_VERSION :: u32 where
  "FLEXPRET_OS_VERSION = KERNEL_VER 1 0 0"

section \<open>Initialisation\<close>

definition slotMutexAttr :: osMutexAttr_t where
  "slotMutexAttr = \<lparr>ma_name = Some ''slotMutex'', ma_attr_bits = osMutexRecursive OR osMutexRobust,
     ma_cb_mem = NULL, ma_cb_size = 0\<rparr>"

definition osKernelInitialize :: "osStatus_t os" where
  "osKernelInitialize =
     seqm (for_each [0..<FLEXPRET_HW_THREADS_NUMS] (\<lambda>i.
       upd (\<lambda>m. m\<lparr>thread_attr_entry := (thread_attr_entry m)(i := Some (Attr_static i)),
         timer_attr_entry := (timer_attr_entry m)(i := None)\<rparr>)))
     (seqm (for_each [0..<FLEXPRET_MUTEX_MAX_NUM] (\<lambda>i.
       mu_upd i (\<lambda>mu. mu\<lparr>mu_owner := NULL, mu_ifRobust := False, mu_ifRecursive := False,
         mu_count := 0, mu_active := False\<rparr>)))
     (seqm (for_each [0, 1, 2, 3, 4, 5, 6, 7] (\<lambda>i. os_write_csr (CSR_MUTEX i) FLEXPRET_MUTEX_INACTIVE))
     (bnd (osMutexNew (Some slotMutexAttr)) (\<lambda>new.
     seqm (upd (\<lambda>m. m\<lparr>slot_mutex := new\<rparr>))
     (bnd (rdm slot_mutex) (\<lambda>sm.
     seqm (osMutexSetSpin sm 1)
     (bnd (rdm bss_end_addr) (\<lambda>bss_end.
     seqm (attr_upd 0 (\<lambda>at. at
       \<lparr>at_name := Some ''FlexPRET Thread 0'', at_priority := osPriorityRealtime,
        at_attr_bits := osThreadDetached, at_cb_mem := NULL, at_cb_size := sizeof_hwthread_state,
        at_tz_module := 0, at_reserved := 0,
        at_stack_mem := flexpret_thread_init_stack_addr ! 0,
        at_stack_size := flexpret_thread_init_stack_addr ! 0 - bss_end\<rparr>))
     (seqm (upd (\<lambda>m. m\<lparr>kernel_state := osKernelReady\<rparr>))
     (seqm (st_upd 0 (\<lambda>st. st\<lparr>th_state := FLEXPRET_ACTIVE\<rparr>))
     (ret osOK)))))))))))"

section \<open>Version information\<close>

text \<open>
  \<open>id_buf\<close> is the object the pointer points to, \<open>pos\<close> how far the code has advanced the
  pointer. A store behind the end of the object is a fault.
\<close>

definition put_string :: "string \<Rightarrow> nat \<Rightarrow> string \<Rightarrow> u32 \<Rightarrow> string os" where
  "put_string id_buf pos src n =
     (case strncpy (Some id_buf) pos (src @ [NUL]) n of
        Some (Some b) \<Rightarrow> ret b | _ \<Rightarrow> (\<lambda>w. Fault Bad_Index))"

fun info_loop :: "nat \<Rightarrow> u32 list \<Rightarrow> string \<Rightarrow> nat \<Rightarrow> u32 \<Rightarrow> string os" where
  "info_loop i [] id_buf pos id_size = ret id_buf"
| "info_loop i (v # vs) id_buf pos id_size =
     bnd (itoa_hex_removing_ldz v) (\<lambda>tmp.
     let s = of_nat (length tmp) in
     bnd (put_string (replicate 9 NUL) 0 tmp s) (\<lambda>buf.
     let buf = takeWhile (\<lambda>c. c \<noteq> NUL) buf in
     if s \<le> id_size then
       bnd (put_string id_buf pos buf s) (\<lambda>id_buf.
       bnd (put_string id_buf (pos + length tmp) (if i \<noteq> 2 then ''.'' else [CHR 0x0A]) 1) (\<lambda>id_buf.
       info_loop (Suc i) vs id_buf (Suc (pos + length tmp)) (id_size - s - 1)))
     else put_string id_buf pos buf id_size))"

text \<open>
  The result: the status, the version record if \<^verbatim>\<open>version\<close> is not \<^verbatim>\<open>NULL\<close> (its two fields), and
  the identification buffer.
\<close>

definition osKernelGetInfo ::
    "bool \<Rightarrow> string option \<Rightarrow> u32 \<Rightarrow> (osStatus_t \<times> (u32 \<times> u32) option \<times> string option) os" where
  "osKernelGetInfo version id_buf id_size =
     (let ver = FLEXPRET_OS_VERSION in
      if \<not> version then ret (osError, None, id_buf)
      else
        bnd (if id_size = 1 \<and> id_buf \<noteq> None
             then (case store (the id_buf) 0 NUL of
                None \<Rightarrow> (\<lambda>w. Fault Bad_Index) | Some b \<Rightarrow> ret (Some b))
             else ret id_buf) (\<lambda>id_buf.
        let id_size = id_size - 1 in
        case id_buf of
          None \<Rightarrow> ret (osError, Some (ver, ver), None)
        | Some b \<Rightarrow>
            bnd (info_loop 0 [KERNEL_VER_MAJOR ver, KERNEL_VER_MINOR ver, KERNEL_VER_PATCHLEVEL ver]
                 b 0 id_size) (\<lambda>b.
            ret (osOK, Some (ver, ver), Some b))))"

section \<open>Start and reset\<close>

text \<open>The loop of \<^verbatim>\<open>osKernelStart\<close> over the threads 1 to 7.\<close>

fun start_loop :: "nat list \<Rightarrow> int list \<Rightarrow> int list \<Rightarrow> (int list \<times> int list) os" where
  "start_loop [] slots modes = ret (slots, modes)"
| "start_loop (i # is) slots modes =
     bnd (st_get i) (\<lambda>st.
     if th_func st \<noteq> NULL then
       seqm (st_upd i (\<lambda>st. st\<lparr>th_state := FLEXPRET_ACTIVE\<rparr>))
       (bnd (attr_get i) (\<lambda>at.
        if at_priority at = osPriorityRealtime then
          start_loop is (slots[i := int i]) (modes[i := TMODE_HA])
        else if at_priority at = osPriorityNormal then
          bnd (rdm default_soft_slot_id) (\<lambda>soft.
          if soft = - 1 then
            seqm (upd (\<lambda>m. m\<lparr>default_soft_slot_id := int i\<rparr>))
            (start_loop is (slots[i := uint SLOT_S]) (modes[i := TMODE_SA]))
          else start_loop is (slots[i := uint SLOT_D]) (modes[i := TMODE_SA]))
        else
          seqm (flexpret_error (''Unsupported priority'' @ [CHR 0x0A]))
          (start_loop is (slots[i := uint SLOT_D]) (modes[i := TMODE_SZ]))))
     else start_loop is (slots[i := uint SLOT_D]) (modes[i := TMODE_SZ]))"

text \<open>
  The arrays are uninitialised locals of which every element is stored: 0 first, the others
  in the loop. With eight hardware threads the loop that fills further slots is empty.
\<close>

definition osKernelStart :: "osStatus_t os" where
  "osKernelStart =
     bnd (start_loop [1..<FLEXPRET_HW_THREADS_NUMS]
        ((replicate 8 0)[0 := 0]) ((replicate 8 0)[0 := TMODE_HA])) (\<lambda>(slots, modes).
     seqm (set_slots (map word_of_int slots))
     (seqm (set_tmodes modes)
     (seqm (upd (\<lambda>m. m\<lparr>kernel_state := osKernelRunning\<rparr>))
     (ret osOK))))"

definition osKernelLock :: "osStatus_t os" where
  "osKernelLock = seqm (flexpret_not_implemented ''osKernelLock'') (ret osOK)"

definition osKernelUnlock :: "osStatus_t os" where
  "osKernelUnlock = seqm (flexpret_not_implemented ''osKernelUnlock'') (ret osOK)"

definition osKernelRestoreLock :: "int \<Rightarrow> osStatus_t os" where
  "osKernelRestoreLock lock = seqm (flexpret_not_implemented ''osKernelRestoreLock'') (ret osOK)"

definition osKernelSuspend :: "osStatus_t os" where
  "osKernelSuspend = seqm (flexpret_not_implemented ''osKernelSuspend'') (ret osOK)"

definition osKernelResume :: "u32 \<Rightarrow> unit os" where
  "osKernelResume sleep_ticks = flexpret_not_implemented ''osKernelResume''"

definition osKernelGetTickCount :: "u32 os" where
  "osKernelGetTickCount = get_time"

definition osKernelGetTickFreq :: "u32 os" where
  "osKernelGetTickFreq = ret FLEXPRET_FREQ"

definition osKernelGetSysTimerCount :: "osStatus_t os" where
  "osKernelGetSysTimerCount = seqm (flexpret_not_implemented ''osKernelGetSysTimerCount'') (ret osOK)"

definition osKernelGetSysTimerFreq :: "osStatus_t os" where
  "osKernelGetSysTimerFreq = seqm (flexpret_not_implemented ''osKernelGetSysTimerFreq'') (ret osOK)"

definition osKernelReset :: "osStatus_t os" where
  "osKernelReset =
     seqm (os_write_csr CSR_SLOTS 0xfffffff0)
     (seqm (os_write_csr CSR_TMODES 0x55555554)
     (seqm (for_each [1..<FLEXPRET_HW_THREADS_NUMS] (\<lambda>i.
        bnd (init_stack i) (\<lambda>stack.
        st_upd i (\<lambda>st. st\<lparr>th_func := NULL, th_stack_address := stack, th_arg := NULL,
          th_state := FLEXPRET_INACTIVE\<rparr>))))
     (seqm (upd (\<lambda>m. m\<lparr>flexpret_thread_num := 1, default_soft_slot_id := - 1, flexpret_mutex_num := 0\<rparr>))
     (seqm (for_each [0..<FLEXPRET_HW_THREADS_NUMS] (\<lambda>i.
        upd (\<lambda>m. m\<lparr>trap_handler_vector := (trap_handler_vector m)(i := (trap_handler_vector m i)
          (0 := H_default_ie, 1 := H_default_ee, 2 := H_default_int, 3 := H_default_fault))\<rparr>)))
     osKernelInitialize))))"

end
