(* ===== verification/Thread_Properties.thy ===== *)
theory Thread_Properties
  imports Threads
begin

text \<open>
  What the thread operations of Threads.thy do: each runs, when its identifier is a thread's
  and the slot mutex is free, to a given effect on the machine. From the effects follow the
  properties of creation, priority change, suspension, joining and termination.
\<close>

section \<open>Running the accessors\<close>

lemma st_get_app [simp]: "t < 8 \<Longrightarrow> st_get t w = Ret (startup_state (mach w) t) w"
  by (simp add: st_get_def)

lemma st_upd_app [simp]: "t < 8 \<Longrightarrow> st_upd t f w = Ret () (w\<lparr>mach := (mach w)
    \<lparr>startup_state := (startup_state (mach w))(t := f (startup_state (mach w) t))\<rparr>\<rparr>)"
  by (simp add: st_upd_def)

lemma init_stack_app [simp]: "t < 8 \<Longrightarrow> init_stack t w = Ret (flexpret_thread_init_stack_addr ! t) w"
  by (simp add: init_stack_def)

lemma attr_get_app [simp]: "t < 8 \<Longrightarrow> thread_attr_entry (mach w) t = Some r \<Longrightarrow>
    attr_get t w = Ret (thread_attr (mach w) r) w"
  by (simp add: attr_get_def)

lemma attr_upd_app [simp]: "t < 8 \<Longrightarrow> thread_attr_entry (mach w) t = Some r \<Longrightarrow>
    attr_upd t f w = Ret () (w\<lparr>mach := (mach w)
      \<lparr>thread_attr := (thread_attr (mach w))(r := f (thread_attr (mach w) r))\<rparr>\<rparr>)"
  by (simp add: attr_upd_def)

lemma osKernelGetState_app [simp]: "osKernelGetState w = Ret (kernel_state (mach w)) w"
  by (simp add: osKernelGetState_def)

lemma SetTmodes_app [simp]: "t < 8 \<Longrightarrow> osSchedulerSetTmodes (thread_ptr t) tmode w =
    Ret osOK (w\<lparr>mach := mode_effect t tmode (mach w)\<rparr>)"
  by (simp add: osSchedulerSetTmodes_def set_thread_mode_app)

text \<open>What the effects of the scheduler leave alone.\<close>

lemma effect_simps [simp]:
  "thread_attr_entry (mode_effect t k m) = thread_attr_entry m"
  "thread_attr (mode_effect t k m) = thread_attr m"
  "kernel_state (mode_effect t k m) = kernel_state m"
  "flexpret_thread_num (mode_effect t k m) = flexpret_thread_num m"
  "timer_base (mode_effect t k m) = timer_base m"
  "timer_attr_entry (mode_effect t k m) = timer_attr_entry m"
  "startup_mutex_state (mode_effect t k m) = startup_mutex_state m"
  "csr_mutex (mode_effect t k m) = csr_mutex m"
  "thread_attr_entry (slot_effect x n m) = thread_attr_entry m"
  "thread_attr (slot_effect x n m) = thread_attr m"
  "kernel_state (slot_effect x n m) = kernel_state m"
  "flexpret_thread_num (slot_effect x n m) = flexpret_thread_num m"
  "timer_base (slot_effect x n m) = timer_base m"
  "timer_attr_entry (slot_effect x n m) = timer_attr_entry m"
  "startup_mutex_state (slot_effect x n m) = startup_mutex_state m"
  "csr_mutex (slot_effect x n m) = csr_mutex m"
  by (simp_all add: mode_effect_def or_mode_def clear_mode_def slot_effect_def split: option.splits)

lemma scheduler_frame:
  assumes "f \<in> {terminate_effect t, to_hard_effect t, to_soft_effect t, create_effect p t}"
  shows "thread_attr_entry (f m) = thread_attr_entry m" "thread_attr (f m) = thread_attr m"
    "kernel_state (f m) = kernel_state m" "flexpret_thread_num (f m) = flexpret_thread_num m"
    "timer_base (f m) = timer_base m" "timer_attr_entry (f m) = timer_attr_entry m"
    "startup_mutex_state (f m) = startup_mutex_state m" "csr_mutex (f m) = csr_mutex m"
    "startup_state (f m) = startup_state m"
  using assms
  by (auto simp: terminate_effect_def to_hard_effect_def to_soft_effect_def create_effect_def Let_def)

lemmas scheduler_frames [simp] =
  scheduler_frame [of "terminate_effect t" t p for t p, simplified]
  scheduler_frame [of "to_hard_effect t" t p for t p, simplified]
  scheduler_frame [of "to_soft_effect t" t p for t p, simplified]
  scheduler_frame [of "create_effect p t" t p for t p, simplified]

lemma timers_placed_cong: "timer_base m' = timer_base m \<Longrightarrow> timers_placed m' = timers_placed m"
  by (simp add: timers_placed_def timer_ptr_def)

section \<open>Termination\<close>

text \<open>The loop over the robust mutexes frees the registers of those the thread owns, no more.\<close>

definition robust_owned :: "addr \<Rightarrow> machine \<Rightarrow> nat \<Rightarrow> bool" where
  "robust_owned p m i \<longleftrightarrow> (let mu = startup_mutex_state m i in
     mu_ifRobust mu \<and> mu_active mu \<and> mu_owner mu = p \<and> mu_csr_addr mu < 8)"

definition free_robust_1 :: "addr \<Rightarrow> nat \<Rightarrow> machine \<Rightarrow> machine" where
  "free_robust_1 p i m = (if robust_owned p m i
     then m\<lparr>csr_mutex := (csr_mutex m)(mu_csr_addr (startup_mutex_state m i) := 0)\<rparr> else m)"

definition free_robust :: "addr \<Rightarrow> machine \<Rightarrow> machine" where
  "free_robust p = fold (free_robust_1 p) [0..<8]"

lemma release_robust_app:
  "i < 8 \<Longrightarrow> release_robust p i w = Ret () (w\<lparr>mach := free_robust_1 p i (mach w)\<rparr>)"
  by (cases "mu_csr_addr (startup_mutex_state (mach w) i) < 8")
    (auto simp: release_robust_def robust_owned_def free_robust_1_def Let_def write_mutex_csr_def whenm_def)

lemma release_robust_all:
  "for_each [0..<8] (release_robust p) w = Ret () (w\<lparr>mach := free_robust p (mach w)\<rparr>)"
proof -
  have "for_each is (release_robust p) w = Ret () (w\<lparr>mach := fold (free_robust_1 p) is (mach w)\<rparr>)"
    if "set is \<subseteq> {..<8}" for "is"
    using that by (induction "is" arbitrary: w) (simp_all add: release_robust_app)
  from this [of "[0..<8]"] show ?thesis
    by (simp add: free_robust_def subset_iff)
qed

lemma fold_free_robust:
  "\<exists>c. fold (free_robust_1 p) is m = m\<lparr>csr_mutex := c\<rparr> \<and> (\<forall>j. c j =
    (if \<exists>i \<in> set is. robust_owned p m i \<and> mu_csr_addr (startup_mutex_state m i) = j then 0
     else csr_mutex m j))"
proof (induction "is" arbitrary: m)
  case Nil
  have "m = m\<lparr>csr_mutex := csr_mutex m\<rparr>" by simp
  then show ?case by (intro exI [of _ "csr_mutex m"]) simp
next
  case (Cons i "is")
  have o: "robust_owned p (free_robust_1 p i m) = robust_owned p m"
    "startup_mutex_state (free_robust_1 p i m) = startup_mutex_state m"
    by (auto simp: free_robust_1_def robust_owned_def)
  obtain c where c: "fold (free_robust_1 p) is (free_robust_1 p i m) = (free_robust_1 p i m)\<lparr>csr_mutex := c\<rparr>"
    "\<And>j. c j = (if \<exists>i \<in> set is. robust_owned p m i \<and> mu_csr_addr (startup_mutex_state m i) = j then 0
     else csr_mutex (free_robust_1 p i m) j)"
    using Cons.IH [of "free_robust_1 p i m"] unfolding o by blast
  have "(free_robust_1 p i m)\<lparr>csr_mutex := c\<rparr> = m\<lparr>csr_mutex := c\<rparr>"
    by (simp add: free_robust_1_def)
  with c(1) have "fold (free_robust_1 p) (i # is) m = m\<lparr>csr_mutex := c\<rparr>"
    by simp
  moreover have "c j = (if \<exists>k \<in> set (i # is). robust_owned p m k \<and>
      mu_csr_addr (startup_mutex_state m k) = j then 0 else csr_mutex m j)" for j
    unfolding c(2) by (auto simp: free_robust_1_def)
  ultimately show ?case by blast
qed

lemma free_robust_simps [simp]:
  "csr_slots (free_robust p m) = csr_slots m" "csr_tmodes (free_robust p m) = csr_tmodes m"
  "startup_state (free_robust p m) = startup_state m" "thread_attr (free_robust p m) = thread_attr m"
  "thread_attr_entry (free_robust p m) = thread_attr_entry m"
  "flexpret_thread_num (free_robust p m) = flexpret_thread_num m"
  "startup_mutex_state (free_robust p m) = startup_mutex_state m"
  "slot_mutex (free_robust p m) = slot_mutex m" "kernel_state (free_robust p m) = kernel_state m"
  "timer_base (free_robust p m) = timer_base m" "timer_attr_entry (free_robust p m) = timer_attr_entry m"
  "startup_timer_state (free_robust p m) = startup_timer_state m"
  "csr_compare (free_robust p m) = csr_compare m" "csr_timer (free_robust p m) = csr_timer m"
  using fold_free_robust [of p "[0..<8]" m] by (auto simp: free_robust_def)

lemma csr_mutex_free_robust:
  "csr_mutex (free_robust p m) j =
    (if \<exists>i < 8. robust_owned p m i \<and> mu_csr_addr (startup_mutex_state m i) = j then 0 else csr_mutex m j)"
proof -
  have "(\<exists>i \<in> set [0..<8]. P i) \<longleftrightarrow> (\<exists>i < 8. P i)" for P :: "nat \<Rightarrow> bool"
    by auto
  then show ?thesis
    using fold_free_robust [of p "[0..<8]" m] unfolding free_robust_def by (auto simp del: set_upt)
qed

text \<open>
  Deleting the timer of another thread resets the caller's compare register, not the owner's.
\<close>

definition timer_stopped :: "nat \<Rightarrow> nat \<Rightarrow> machine \<Rightarrow> machine" where
  "timer_stopped h t m =
     (if tm_ticks (startup_timer_state m t) = 0 then m
      else m\<lparr>csr_compare := (csr_compare m)(h := 0), csr_timer := (csr_timer m)(h := TIMER_OFF)\<rparr>)"

definition timer_deleted :: "nat \<Rightarrow> nat \<Rightarrow> machine \<Rightarrow> machine" where
  "timer_deleted h t m =
     (if timer_attr_entry m t = None then m
      else (timer_stopped h t m)
        \<lparr>timer_attr_entry := (timer_attr_entry m)(t := None), startup_timer_state := (startup_timer_state m)
           (t := (startup_timer_state m t)\<lparr>tm_func := NULL, tm_arg := NULL, tm_ticks := 0\<rparr>)\<rparr>)"

lemma osTimerDelete_run:
  assumes "t < 8" "timers_placed (mach w)" "timer_attr_entry (mach w) t \<noteq> None"
  shows "osTimerDelete (timer_ptr (mach w) t) w = Ret osOK (w\<lparr>mach := timer_deleted (hart w) t (mach w)\<rparr>)"
proof -
  have "timer_ptr (mach w) t \<noteq> NULL"
    using assms by (simp add: timers_placed_def)
  with assms show ?thesis
    by (cases "tm_ticks (startup_timer_state (mach w) t) = 0")
      (auto simp: osTimerDelete_def timer_deleted_def timer_stopped_def thread_slot(5))
qed

lemma timer_deleted_simps [simp]:
  "csr_slots (timer_deleted h t m) = csr_slots m" "csr_tmodes (timer_deleted h t m) = csr_tmodes m"
  "startup_state (timer_deleted h t m) = startup_state m" "thread_attr (timer_deleted h t m) = thread_attr m"
  "thread_attr_entry (timer_deleted h t m) = thread_attr_entry m"
  "flexpret_thread_num (timer_deleted h t m) = flexpret_thread_num m"
  "startup_mutex_state (timer_deleted h t m) = startup_mutex_state m"
  "csr_mutex (timer_deleted h t m) = csr_mutex m"
  "slot_mutex (timer_deleted h t m) = slot_mutex m" "kernel_state (timer_deleted h t m) = kernel_state m"
  "timer_base (timer_deleted h t m) = timer_base m"
  by (simp_all add: timer_deleted_def timer_stopped_def)

text \<open>What \<^verbatim>\<open>thread_clean\<close> called by \<open>h\<close> does to the thread \<open>t\<close>.\<close>

definition th_reset :: "nat \<Rightarrow> (hwthread_state \<Rightarrow> hwthread_state) \<Rightarrow> machine \<Rightarrow> machine" where
  "th_reset t f m = m\<lparr>startup_state := (startup_state m)(t := f (startup_state m t))\<rparr>"

definition cleaned :: "nat \<Rightarrow> nat \<Rightarrow> machine \<Rightarrow> machine" where
  "cleaned h t m = th_reset t (\<lambda>st. st\<lparr>th_func := NULL\<rparr>)
     (free_robust (thread_ptr t) (timer_deleted h t (th_reset t (\<lambda>st. st\<lparr>th_arg := NULL,
        th_state := FLEXPRET_TERMINATED, th_stack_address := flexpret_thread_init_stack_addr ! t\<rparr>) m)))"

lemma th_reset_simps [simp]:
  "timer_base (th_reset t f m) = timer_base m" "timer_attr_entry (th_reset t f m) = timer_attr_entry m"
  "startup_state (th_reset t f m) = (startup_state m)(t := f (startup_state m t))"
  "csr_slots (th_reset t f m) = csr_slots m" "csr_tmodes (th_reset t f m) = csr_tmodes m"
  "thread_attr (th_reset t f m) = thread_attr m"
  "thread_attr_entry (th_reset t f m) = thread_attr_entry m"
  "flexpret_thread_num (th_reset t f m) = flexpret_thread_num m"
  "startup_mutex_state (th_reset t f m) = startup_mutex_state m" "csr_mutex (th_reset t f m) = csr_mutex m"
  "slot_mutex (th_reset t f m) = slot_mutex m" "kernel_state (th_reset t f m) = kernel_state m"
  by (simp_all add: th_reset_def)

lemma thread_clean_run:
  assumes "t < 8" "timers_placed (mach w)"
  shows "thread_clean (thread_ptr t) w = Ret (of_nat t) (w\<lparr>mach := cleaned (hart w) t (mach w)\<rparr>)"
proof -
  let ?f = "\<lambda>st. st\<lparr>th_arg := NULL, th_state := FLEXPRET_TERMINATED,
    th_stack_address := flexpret_thread_init_stack_addr ! t\<rparr>"
  let ?w = "w\<lparr>mach := th_reset t ?f (mach w)\<rparr>"
  have p: "timers_placed (mach ?w)" "timer_ptr (mach ?w) t \<noteq> NULL"
    using assms by (simp_all add: timers_placed_def timer_ptr_def)
  have 1: "thread_clean (thread_ptr t) w =
      bnd (osThreadGetTimer (thread_ptr t)) (\<lambda>timer.
        seqm (whenm (timer \<noteq> NULL) (bnd (osTimerDelete timer) (\<lambda>_. ret ())))
        (seqm (for_each [0..<8] (release_robust (thread_ptr t)))
        (seqm (st_upd t (\<lambda>st. st\<lparr>th_func := NULL\<rparr>)) (ret (of_nat t))))) ?w"
    using assms(1) by (simp add: thread_clean_def thread_slot(5) th_reset_def)
  show ?thesis
  proof (cases "timer_attr_entry (mach ?w) t = None")
    case True
    then have "osThreadGetTimer (thread_ptr t) ?w = Ret NULL ?w"
      using assms(1) by (simp add: osThreadGetTimer_def thread_slot(5))
    with True 1 assms(1) show ?thesis
      by (simp add: release_robust_all cleaned_def timer_deleted_def th_reset_def)
  next
    case False
    then have "osThreadGetTimer (thread_ptr t) ?w = Ret (timer_ptr (mach ?w) t) ?w"
      using assms(1) by (auto simp: osThreadGetTimer_def thread_slot(5))
    with False 1 p assms(1) osTimerDelete_run [of t ?w] show ?thesis
      by (simp add: release_robust_all cleaned_def) (simp add: th_reset_def)
  qed
qed

lemma cleaned_simps [simp]:
  "csr_slots (cleaned h t m) = csr_slots m" "csr_tmodes (cleaned h t m) = csr_tmodes m"
  "thread_attr (cleaned h t m) = thread_attr m" "thread_attr_entry (cleaned h t m) = thread_attr_entry m"
  "flexpret_thread_num (cleaned h t m) = flexpret_thread_num m"
  "startup_mutex_state (cleaned h t m) = startup_mutex_state m"
  "slot_mutex (cleaned h t m) = slot_mutex m" "kernel_state (cleaned h t m) = kernel_state m"
  "timer_base (cleaned h t m) = timer_base m"
  "startup_state (cleaned h t m) = (startup_state m)(t := \<lparr>th_func = NULL,
     th_state = FLEXPRET_TERMINATED, th_arg = NULL, th_stack_address = flexpret_thread_init_stack_addr ! t\<rparr>)"
  by (simp_all add: cleaned_def) (cases "startup_state m t", simp)

lemma csr_mutex_cleaned:
  "csr_mutex (cleaned h t m) j = (if \<exists>i < 8. robust_owned (thread_ptr t) m i \<and>
     mu_csr_addr (startup_mutex_state m i) = j then 0 else csr_mutex m j)"
proof -
  have "robust_owned p (timer_deleted h t (th_reset t f m)) = robust_owned p m" for p f
    by (rule ext) (simp add: robust_owned_def)
  then show ?thesis
    by (auto simp: cleaned_def csr_mutex_free_robust)
qed

lemma slot_ready_cleaned: "slot_ready w \<Longrightarrow> slot_ready (w\<lparr>mach := cleaned h t (mach w)\<rparr>)"
  by (auto simp: slot_ready_def mutex_avail_def csr_mutex_cleaned Let_def split: option.splits)

text \<open>The second half of a termination: the slots, and the zombie bit.\<close>

definition terminated :: "int \<Rightarrow> nat \<Rightarrow> machine \<Rightarrow> machine" where
  "terminated p t m = mode_effect t TMODE_ZOMBIE
     (if p = osPriorityNormal then terminate_effect t m else slot_effect (of_nat t) 0 m)"

lemma lock_blind_terminated: "lock_blind (terminated p t)"
  using lock_blind_effects(1) [of t] by (simp add: lock_blind_def terminated_def)

lemma SetSlotNum_0_run:
  assumes "slot_ready w" "t < 8"
  shows "osSchedulerSetSlotNum (thread_ptr t) 0 w = Ret osOK (w\<lparr>mach := slot_effect (of_nat t) 0 (mach w)\<rparr>)"
proof -
  have "slot_status (of_nat t) 0 (mach w) = osOK"
    by (simp add: slot_status_def resize_0)
  then show ?thesis
    using assms set_slot_num_locked_run [OF assms(1) thread_slot(1) [OF assms(2)], of 0]
    by (simp add: osSchedulerSetSlotNum_def thread_slot(4))
qed

lemma terminate_slots_run:
  assumes "slot_ready w" "t < 8" "p \<in> {osPriorityNormal, osPriorityRealtime}"
  shows "terminate_slots (thread_ptr t) (of_nat t) p w = Ret () (w\<lparr>mach :=
    (if p = osPriorityNormal then terminate_effect t (mach w) else slot_effect (of_nat t) 0 (mach w))\<rparr>)"
  using assms srtt_terminate_run [OF assms(1,2)] SetSlotNum_0_run [OF assms(1,2)]
  by (auto simp: terminate_slots_def)

lemma thread_terminate_run:
  assumes "slot_ready w" "t < 8" "thread_attr_entry (mach w) t = Some r" "timers_placed (mach w)"
    and "at_priority (thread_attr (mach w) r) \<in> {osPriorityNormal, osPriorityRealtime}"
  shows "thread_terminate (thread_ptr t) clean w = Ret () (w\<lparr>mach :=
    terminated (at_priority (thread_attr (mach w) r)) t (if clean then cleaned (hart w) t (mach w) else mach w)\<rparr>)"
proof -
  let ?w = "if clean then w\<lparr>mach := cleaned (hart w) t (mach w)\<rparr> else w"
  have r: "slot_ready ?w" "thread_attr_entry (mach ?w) t = Some r"
    using assms(1,3) slot_ready_cleaned by simp_all
  have "(if clean then thread_clean (thread_ptr t) else get_tid (thread_ptr t)) w = Ret (of_nat t) ?w"
    using thread_clean_run [OF assms(2,4)] assms(2) by simp
  moreover have "thread_attr (mach ?w) = thread_attr (mach w)"
    by simp
  ultimately show ?thesis
    using assms(2) r terminate_slots_run [OF r(1) assms(2,5)]
    by (simp add: thread_terminate_def thread_slot(5) terminated_def split: if_split_asm) 
qed

section \<open>Creation\<close>

text \<open>
  The state \<^verbatim>\<open>osThreadNew\<close> has prepared for the thread \<open>t\<close> when it looks at the kernel state:
  the attributes behind the pointer \<open>r\<close>, and the control block.
\<close>

definition stack_of :: "nat \<Rightarrow> addr" where
  "stack_of t = flexpret_thread_init_stack_addr ! t"

definition new_attr :: "nat \<Rightarrow> attr_ref option \<Rightarrow> machine \<Rightarrow> osThreadAttr_t" where
  "new_attr t attr m = (case attr of
     None \<Rightarrow> flexpret_thread_init_attr\<lparr>at_stack_mem := stack_of t,
       at_stack_size := stack_of t - stack_of (t - 1), at_cb_mem := thread_ptr t\<rparr>
   | Some r \<Rightarrow> (thread_attr m r)
       \<lparr>at_stack_mem := if at_stack_mem (thread_attr m r) = NULL then stack_of t else at_stack_mem (thread_attr m r),
        at_stack_size := if at_stack_size (thread_attr m r) = 0 then stack_of t - stack_of (t - 1)
          else at_stack_size (thread_attr m r)\<rparr>)"

definition created :: "nat \<Rightarrow> addr \<Rightarrow> addr \<Rightarrow> attr_ref option \<Rightarrow> attr_ref \<Rightarrow> machine \<Rightarrow> machine" where
  "created t func arg attr r m = m
     \<lparr>flexpret_thread_num := Suc t,
      thread_attr_entry := (thread_attr_entry m)(t := Some r),
      thread_attr := (thread_attr m)(r := new_attr t attr m),
      startup_state := (startup_state m)(t := (startup_state m t)\<lparr>th_stack_address := (case attr of
          None \<Rightarrow> th_stack_address (startup_state m t)
        | Some r \<Rightarrow> if at_stack_mem (thread_attr m r) = NULL then stack_of t
            else at_stack_mem (thread_attr m r)),
        th_func := func, th_state := FLEXPRET_ACTIVE, th_arg := arg\<rparr>)\<rparr>"

definition new_ref :: "machine \<Rightarrow> attr_ref option \<Rightarrow> attr_ref" where
  "new_ref m attr = (case attr of None \<Rightarrow> the (thread_attr_entry m (flexpret_thread_num m)) | Some r \<Rightarrow> r)"

definition new_prio :: "machine \<Rightarrow> attr_ref option \<Rightarrow> int" where
  "new_prio m attr = (case attr of None \<Rightarrow> osPriorityNormal | Some r \<Rightarrow> at_priority (thread_attr m r))"

text \<open>The common end of both ways through \<^verbatim>\<open>osThreadNew\<close>.\<close>

lemma new_prio_created:
  "at_priority (new_attr t attr m) = new_prio m attr"
  by (auto simp: new_attr_def new_prio_def flexpret_thread_init_attr_def split: option.splits)

lemma created_simps [simp]:
  "kernel_state (created t f a at r m) = kernel_state m" "slot_mutex (created t f a at r m) = slot_mutex m"
  "mutex_avail (created t f a at r m) i = mutex_avail m i"
  "timer_base (created t f a at r m) = timer_base m"
  "thread_attr_entry (created t f a at r m) = (thread_attr_entry m)(t := Some r)"
  "thread_attr (created t f a at r m) = (thread_attr m)(r := new_attr t at m)"
  "flexpret_thread_num (created t f a at r m) = Suc t"
  "csr_slots (created t f a at r m) = csr_slots m" "csr_tmodes (created t f a at r m) = csr_tmodes m"
  "th_func (startup_state (created t f a at r m) u) = (if u = t then f else th_func (startup_state m u))"
  by (simp_all add: created_def mutex_avail_def)

lemma osThreadNew_run:
  fixes func arg :: addr
  assumes "slot_ready w" "func \<noteq> NULL" "t = flexpret_thread_num (mach w)" "0 < t" "t < 8"
    and "thread_attr_entry (mach w) t \<noteq> None"
    and "new_prio (mach w) attr \<in> {osPriorityNormal, osPriorityRealtime}"
  defines "m \<equiv> created t func arg attr (new_ref (mach w) attr) (mach w)"
  shows "osThreadNew func arg attr w = Ret (thread_ptr t) (w\<lparr>mach :=
    if kernel_state (mach w) = osKernelRunning then create_effect (new_prio (mach w) attr) t m else m\<rparr>)"
proof -
  have after: "kernel_state (mach w) = osKernelRunning \<Longrightarrow>
      thread_after_create (of_nat t) (w\<lparr>mach := m\<rparr>) =
      Ret () (w\<lparr>mach := create_effect (new_prio (mach w) attr) t m\<rparr>)"
    using thread_after_create_run [of "w\<lparr>mach := m\<rparr>" t "new_ref (mach w) attr"] assms(1,2,5)
    by (simp add: m_def slot_ready_def new_prio_created split: option.splits)
  have pre: "t - Suc 0 < 8" using assms(5) by simp
  show ?thesis
  proof (cases attr)
    case None
    with assms(6) have r: "thread_attr_entry (mach w) t = Some (new_ref (mach w) attr)"
      by (auto simp: new_ref_def assms(3))
    then have "m = (mach w)\<lparr>flexpret_thread_num := Suc t,
      thread_attr := (thread_attr (mach w))(new_ref (mach w) attr := new_attr t None (mach w)),
      startup_state := (startup_state (mach w))(t := (startup_state (mach w) t)\<lparr>th_func := func,
        th_state := FLEXPRET_ACTIVE, th_arg := arg\<rparr>)\<rparr>"
      by (simp add: m_def created_def None fun_upd_idem)
    with None r assms(2-5) pre after show ?thesis
      by (simp add: osThreadNew_def exec_eqs new_attr_def stack_of_def flexpret_thread_init_attr_def del: exec_conds)
  next
    case (Some r)
    let ?at = "thread_attr (mach w) r"
    from Some assms(7) consider "at_priority ?at = osPriorityNormal" | "at_priority ?at = osPriorityRealtime"
      by (auto simp: new_prio_def)
    then show ?thesis
      using Some assms(2-5) pre after
      by cases (cases "at_stack_mem ?at = NULL"; cases "at_stack_size ?at = 0";
        simp add: osThreadNew_def exec_eqs m_def created_def new_ref_def new_attr_def new_prio_def
          stack_of_def del: exec_conds)+
  qed
qed

section \<open>Priority, suspension and detaching\<close>

definition at_effect :: "attr_ref \<Rightarrow> (osThreadAttr_t \<Rightarrow> osThreadAttr_t) \<Rightarrow> machine \<Rightarrow> machine" where
  "at_effect r f m = m\<lparr>thread_attr := (thread_attr m)(r := f (thread_attr m r))\<rparr>"

lemma at_effect_simps [simp]:
  "kernel_state (at_effect r f m) = kernel_state m" "slot_mutex (at_effect r f m) = slot_mutex m"
  "mutex_avail (at_effect r f m) i = mutex_avail m i" "timer_base (at_effect r f m) = timer_base m"
  "thread_attr_entry (at_effect r f m) = thread_attr_entry m"
  "thread_attr (at_effect r f m) = (thread_attr m)(r := f (thread_attr m r))"
  "flexpret_thread_num (at_effect r f m) = flexpret_thread_num m"
  "csr_slots (at_effect r f m) = csr_slots m" "csr_tmodes (at_effect r f m) = csr_tmodes m"
  "startup_state (at_effect r f m) = startup_state m"
  by (simp_all add: at_effect_def mutex_avail_def)

text \<open>The mode changes by \<^verbatim>\<open>change_srtt_to_hrtt\<close> and its inverse only when the priority does.\<close>

definition reprioritised :: "nat \<Rightarrow> int \<Rightarrow> attr_ref \<Rightarrow> machine \<Rightarrow> machine" where
  "reprioritised t p r m =
     (if at_priority (thread_attr m r) = p then m
      else if p = osPriorityRealtime then at_effect r (\<lambda>at. at\<lparr>at_priority := p\<rparr>) (to_hard_effect t m)
      else if p = osPriorityNormal then at_effect r (\<lambda>at. at\<lparr>at_priority := p\<rparr>) (to_soft_effect t m)
      else say (''unsupported priority'' @ [CHR 0x0A]) m)"

lemma osThreadSetPriority_run:
  assumes "slot_ready w" "t < 8" "thread_attr_entry (mach w) t = Some r"
  shows "osThreadSetPriority (thread_ptr t) p w = Ret
      (if at_priority (thread_attr (mach w) r) = p \<or> p = osPriorityRealtime \<or> p = osPriorityNormal
       then osOK else osError)
      (w\<lparr>mach := reprioritised t p r (mach w)\<rparr>)"
  using assms change_srtt_to_hrtt_run [OF assms(1,2)] change_hrtt_to_srtt_run [OF assms(1,2)]
  by (simp add: osThreadSetPriority_def thread_ptr_not_NULL thread_slot(5) reprioritised_def at_effect_def)

lemma osThreadSuspend_run:
  "t < 8 \<Longrightarrow> osThreadSuspend (thread_ptr t) w = Ret osOK (w\<lparr>mach := mode_effect t TMODE_ZOMBIE
     (th_reset t (\<lambda>st. st\<lparr>th_state := FLEXPRET_BLOCKED\<rparr>) (mach w))\<rparr>)"
  by (simp add: osThreadSuspend_def thread_slot(5) th_reset_def)

lemma osThreadResume_run:
  "t < 8 \<Longrightarrow> osThreadResume (thread_ptr t) w = Ret osOK (w\<lparr>mach :=
     th_reset t (\<lambda>st. st\<lparr>th_state := FLEXPRET_ACTIVE\<rparr>) (mode_effect t TMODE_ACTIVE (mach w))\<rparr>)"
  by (simp add: osThreadResume_def thread_slot(5) th_reset_def)

lemma osThreadDetach_run:
  "t < 8 \<Longrightarrow> thread_attr_entry (mach w) t = Some r \<Longrightarrow> osThreadDetach (thread_ptr t) w = Ret osOK
     (w\<lparr>mach := at_effect r (\<lambda>at. at\<lparr>at_attr_bits := osThreadDetached\<rparr>) (mach w)\<rparr>)"
  by (simp add: osThreadDetach_def thread_slot(5) at_effect_def)

section \<open>The system invariant\<close>

definition priority_of :: "machine \<Rightarrow> nat \<Rightarrow> int" where
  "priority_of m t = (case thread_attr_entry m t of None \<Rightarrow> osPriorityError
     | Some r \<Rightarrow> at_priority (thread_attr m r))"

text \<open>
  Every thread has attributes of its own; the live threads have one of the two supported
  priorities, and once the kernel runs the soft ones are those of normal priority.
\<close>

definition modes_match :: "machine \<Rightarrow> bool" where
  "modes_match m \<longleftrightarrow> (kernel_state m = osKernelRunning \<longrightarrow>
     (\<forall>t < 8. live m t \<longrightarrow> (is_soft (tmodes_of m ! t) \<longleftrightarrow> priority_of m t = osPriorityNormal)))"

definition sys_ok :: "machine \<Rightarrow> bool" where
  "sys_ok m \<longleftrightarrow> timers_placed m \<and> 0 < flexpret_thread_num m \<and> flexpret_thread_num m \<le> 8 \<and>
     (\<forall>t < 8. thread_attr_entry m t \<noteq> None) \<and> inj_on (thread_attr_entry m) {..<8} \<and>
     (\<forall>t < 8. live m t \<longrightarrow> priority_of m t \<in> {osPriorityNormal, osPriorityRealtime}) \<and>
     modes_match m"

text \<open>The calls of one thread on other threads, and when the code's interface allows them.\<close>

datatype call = New addr addr "attr_ref option" | SetPriority nat int | Suspend nat | Resume nat
  | Detach nat | Terminate nat | SetSlots nat nat | SetSoftSlots nat

fun perform :: "call \<Rightarrow> unit os" where
  "perform (New f a at) = bnd (osThreadNew f a at) (\<lambda>_. ret ())"
| "perform (SetPriority t p) = bnd (osThreadSetPriority (thread_ptr t) p) (\<lambda>_. ret ())"
| "perform (Suspend t) = bnd (osThreadSuspend (thread_ptr t)) (\<lambda>_. ret ())"
| "perform (Resume t) = bnd (osThreadResume (thread_ptr t)) (\<lambda>_. ret ())"
| "perform (Detach t) = bnd (osThreadDetach (thread_ptr t)) (\<lambda>_. ret ())"
| "perform (Terminate t) = bnd (osThreadTerminate (thread_ptr t)) (\<lambda>_. ret ())"
| "perform (SetSlots t n) = bnd (osSchedulerSetSlotNum (thread_ptr t) (int n)) (\<lambda>_. ret ())"
| "perform (SetSoftSlots n) = bnd (osSchedulerSetSoftSlotNum (int n)) (\<lambda>_. ret ())"

fun allowed :: "call \<Rightarrow> world \<Rightarrow> bool" where
  "allowed (New f a at) w \<longleftrightarrow> (\<forall>u < 8. u \<noteq> flexpret_thread_num (mach w) \<longrightarrow> at \<noteq> None \<longrightarrow>
     thread_attr_entry (mach w) u \<noteq> at)"
| "allowed (SetPriority t p) w \<longleftrightarrow> t < 8"
| "allowed (Suspend t) w \<longleftrightarrow> t < 8"
| "allowed (Resume t) w \<longleftrightarrow> t < 8"
| "allowed (Detach t) w \<longleftrightarrow> t < 8"
| "allowed (Terminate t) w \<longleftrightarrow> t < 8 \<and> t \<noteq> hart w \<and> live (mach w) t"
| "allowed (SetSlots t n) w \<longleftrightarrow> t < 8"
| "allowed (SetSoftSlots n) w \<longleftrightarrow> True"

text \<open>The slot register only ever holds identifiers of threads, soft and free slots.\<close>

definition slots_typed :: "machine \<Rightarrow> bool" where
  "slots_typed m \<longleftrightarrow> set (slots_of m) \<subseteq> {0..<8} \<union> {SLOT_S, SLOT_D}"

lemma sys_okD:
  assumes "sys_ok m" "t < 8"
  obtains r where "thread_attr_entry m t = Some r"
    "\<And>u. u < 8 \<Longrightarrow> u \<noteq> t \<Longrightarrow> thread_attr_entry m u \<noteq> Some r"
    "priority_of m t = at_priority (thread_attr m r)"
proof -
  from assms obtain r where r: "thread_attr_entry m t = Some r"
    by (auto simp: sys_ok_def)
  moreover have "thread_attr_entry m u \<noteq> Some r" if "u < 8" "u \<noteq> t" for u
    using assms that r inj_onD [of "thread_attr_entry m" "{..<8}" u t] by (auto simp: sys_ok_def)
  ultimately show ?thesis
    using that [of r] by (simp add: priority_of_def)
qed

text \<open>A step that changes nothing but modes and slots, and the softness of no thread.\<close>

lemma sys_ok_cong:
  assumes "sys_ok m" "timer_base m' = timer_base m" "flexpret_thread_num m' = flexpret_thread_num m"
    and "thread_attr_entry m' = thread_attr_entry m" "kernel_state m' = kernel_state m"
    and "\<And>t. t < 8 \<Longrightarrow> priority_of m' t = priority_of m t"
    and "\<And>t. t < 8 \<Longrightarrow> live m' t \<Longrightarrow> live m t"
    and "\<And>t. t < 8 \<Longrightarrow> is_soft (tmodes_of m' ! t) = is_soft (tmodes_of m ! t)"
  shows "sys_ok m'"
  using assms timers_placed_cong [OF assms(2)] unfolding sys_ok_def modes_match_def by metis

lemma tmodes_frames [simp]:
  "tmodes_of (at_effect r g m) = tmodes_of m" "tmodes_of (cleaned h t m) = tmodes_of m"
  "tmodes_of (th_reset t f m) = tmodes_of m" "tmodes_of (created t fn a at r m) = tmodes_of m"
  "tmodes_of (terminate_effect t m) = tmodes_of m" "tmodes_of (say x m) = tmodes_of m"
  by (auto simp: terminate_effect_def Let_def intro: tmodes_of_cong)

lemma live_frames [simp]:
  "live (at_effect r g m) u = live m u" "live (mode_effect t k m) u = live m u"
  "live (slot_effect x n m) u = live m u" "live (terminate_effect t m) u = live m u"
  "live (to_hard_effect t m) u = live m u" "live (to_soft_effect t m) u = live m u"
  "live (create_effect p t m) u = live m u" "live (say msg m) u = live m u"
  by (simp_all add: live_def)

lemma live_updates:
  "live (cleaned h t m) u \<longleftrightarrow> u \<noteq> t \<and> live m u"
  "(\<And>st. th_func (f st) = th_func st) \<Longrightarrow> live (th_reset t f m) u = live m u"
  "live (created t fn a at r m) u \<longleftrightarrow> (if u = t then fn \<noteq> NULL else live m u)"
  by (auto simp: live_def)

lemma priority_of_cong:
  "thread_attr_entry m' = thread_attr_entry m \<Longrightarrow> thread_attr m' = thread_attr m \<Longrightarrow>
    priority_of m' t = priority_of m t"
  by (simp add: priority_of_def split: option.splits)

lemma soft_zombie:
  assumes "t < 8" "u < 8" "k \<in> {TMODE_ZOMBIE, TMODE_ACTIVE}"
  shows "is_soft (tmodes_of (mode_effect t k m) ! u) = is_soft (tmodes_of m ! u)"
  using assms is_soft_new_mode(3,4) [OF tmodes_nth_cases [OF assms(1), of m]]
  by (cases "u = t") (auto simp: tmodes_of_mode_effect)

lemma tmodes_of_to_hard: "t < 8 \<Longrightarrow>
    tmodes_of (to_hard_effect t m) = (tmodes_of m)[t := new_mode TMODE_HARD (tmodes_of m ! t)]"
  by (simp add: to_hard_effect_def Let_def tmodes_of_mode_effect)

lemma tmodes_of_to_soft: "t < 8 \<Longrightarrow>
    tmodes_of (to_soft_effect t m) = (tmodes_of m)[t := new_mode TMODE_SOFT (tmodes_of m ! t)]"
  by (simp add: to_soft_effect_def Let_def tmodes_of_mode_effect)

lemma tmodes_of_create: "t < 8 \<Longrightarrow> p \<in> {osPriorityNormal, osPriorityRealtime} \<Longrightarrow>
    tmodes_of (create_effect p t m) = (tmodes_of m)
      [t := if p = osPriorityNormal then word_of_int TMODE_SA else word_of_int TMODE_HA]"
  by (auto simp: create_effect_def Let_def tmodes_of_mode_effect new_mode_def)

text \<open>Suspending, resuming, detaching and ending a thread keep the invariant.\<close>

lemma sys_ok_zombie:
  "sys_ok m \<Longrightarrow> t < 8 \<Longrightarrow> k \<in> {TMODE_ZOMBIE, TMODE_ACTIVE} \<Longrightarrow> sys_ok (mode_effect t k m)"
  by (rule sys_ok_cong [of m]) (auto intro: priority_of_cong simp: soft_zombie)

lemma sys_ok_th_reset:
  "sys_ok m \<Longrightarrow> (\<And>st. th_func (f st) = th_func st) \<Longrightarrow> sys_ok (th_reset t f m)"
  by (rule sys_ok_cong [of m]) (auto intro: priority_of_cong simp: live_updates)

lemma sys_ok_at_effect:
  assumes "sys_ok m" "\<And>at. at_priority (f at) = at_priority at"
  shows "sys_ok (at_effect r f m)"
  using assms by (intro sys_ok_cong [OF assms(1)]) (auto simp: priority_of_def split: option.splits)

lemma sys_ok_cleaned: "sys_ok m \<Longrightarrow> sys_ok (cleaned h t m)"
  by (rule sys_ok_cong [of m]) (auto intro: priority_of_cong simp: live_updates)

lemma sys_ok_terminated: "sys_ok m \<Longrightarrow> t < 8 \<Longrightarrow> sys_ok (terminated p t m)"
  by (rule sys_ok_cong [of m]) (auto intro!: priority_of_cong simp: terminated_def soft_zombie split: if_splits)

lemma sys_ok_slot_effect: "sys_ok m \<Longrightarrow> sys_ok (slot_effect x n m)"
  by (rule sys_ok_cong [of m]) (auto intro: priority_of_cong simp: live_def)

lemma sys_ok_say: "sys_ok m \<Longrightarrow> sys_ok (say x m)"
  by (rule sys_ok_cong [of m]) (auto intro: priority_of_cong simp: live_def)

text \<open>
  A change of priority changes the mode with it; that other threads keep theirs needs the
  attributes not to be shared.
\<close>

lemma sys_ok_reprioritise:
  assumes "sys_ok m" "t < 8" "thread_attr_entry m t = Some r"
  shows "sys_ok (reprioritised t p r m)"
proof -
  note fits = tmodes_nth_cases [OF assms(2), of m]
  have other: "thread_attr_entry m u \<noteq> Some r" if "u < 8" "u \<noteq> t" for u
    using sys_okD [OF assms(1,2)] assms(3) that by metis
  have chg: "sys_ok (at_effect r (\<lambda>at. at\<lparr>at_priority := p\<rparr>) m')"
    if p: "p \<in> {osPriorityNormal, osPriorityRealtime}"
      and f: "timer_base m' = timer_base m" "flexpret_thread_num m' = flexpret_thread_num m"
        "thread_attr_entry m' = thread_attr_entry m" "thread_attr m' = thread_attr m"
        "kernel_state m' = kernel_state m" "startup_state m' = startup_state m"
      and md: "tmodes_of m' = (tmodes_of m)[t := x]" "is_soft x \<longleftrightarrow> p = osPriorityNormal" for m' x
  proof -
    let ?m = "at_effect r (\<lambda>at. at\<lparr>at_priority := p\<rparr>) m'"
    have pr: "priority_of ?m u = (if u = t then p else priority_of m u)" if "u < 8" for u
      using other [OF that] f assms(3) that by (auto simp: priority_of_def split: option.splits)
    have lv: "live ?m u = live m u" for u
      using f by (simp add: live_def)
    have so: "is_soft (tmodes_of ?m ! u) = (if u = t then p = osPriorityNormal else is_soft (tmodes_of m ! u))"
      if "u < 8" for u
      using md assms(2) that by auto
    show ?thesis
      using assms(1) f p timers_placed_cong [of ?m m] pr lv so
      by (auto simp: sys_ok_def modes_match_def)
  qed
  show ?thesis
    unfolding reprioritised_def
    using assms(1) chg [of "to_hard_effect t m"] chg [of "to_soft_effect t m"] is_soft_new_mode(1,2) [OF fits]
      sys_ok_say assms(2)
    by (auto simp: tmodes_of_to_hard tmodes_of_to_soft)
qed

text \<open>A new thread, with attributes no other thread uses.\<close>

lemma sys_ok_created:
  fixes func arg :: addr
  assumes "sys_ok m" "t = flexpret_thread_num m" "t < 8" "func \<noteq> NULL"
    and "\<And>u. u < 8 \<Longrightarrow> u \<noteq> t \<Longrightarrow> attr \<noteq> None \<Longrightarrow> thread_attr_entry m u \<noteq> attr"
    and "new_prio m attr \<in> {osPriorityNormal, osPriorityRealtime}"
  defines "m1 \<equiv> created t func arg attr (new_ref m attr) m"
  shows "sys_ok (if kernel_state m = osKernelRunning then create_effect (new_prio m attr) t m1 else m1)"
proof -
  let ?r = "new_ref m attr" and ?p = "new_prio m attr"
  let ?m = "if kernel_state m = osKernelRunning then create_effect ?p t m1 else m1"
  have other: "thread_attr_entry m u \<noteq> Some ?r" if "u < 8" "u \<noteq> t" for u
  proof (cases attr)
    case None
    then show ?thesis
      using sys_okD [OF assms(1,3)] assms(2) that by (metis new_ref_def option.case(1) option.sel)
  next
    case (Some r)
    then show ?thesis
      using assms(5) [OF that] by (simp add: new_ref_def)
  qed
  have e: "thread_attr_entry ?m = (thread_attr_entry m)(t := Some ?r)"
    "thread_attr ?m = (thread_attr m)(?r := new_attr t attr m)"
    "timer_base ?m = timer_base m" "flexpret_thread_num ?m = Suc t" "kernel_state ?m = kernel_state m"
    by (simp_all add: m1_def)
  have pr: "priority_of ?m u = (if u = t then ?p else priority_of m u)" if "u < 8" for u
    using other [OF that] that unfolding priority_of_def e
    by (auto simp: new_prio_created split: option.splits)
  have lv: "live ?m u = (u = t \<or> live m u)" for u
    using assms(4) by (auto simp: m1_def live_updates)
  have so: "is_soft (tmodes_of ?m ! u) = (if u = t then ?p = osPriorityNormal else is_soft (tmodes_of m ! u))"
    if "u < 8" "kernel_state m = osKernelRunning" for u
    using that assms(3,6) by (auto simp: m1_def tmodes_of_create is_soft_def)
  have inj: "inj_on (thread_attr_entry ?m) {..<8}"
  proof (rule inj_onI)
    fix u v assume "u \<in> {..<8}" "v \<in> {..<8}" "thread_attr_entry ?m u = thread_attr_entry ?m v"
    then show "u = v"
      using other assms(1) unfolding e by (auto simp: sys_ok_def inj_on_def split: if_splits)
  qed
  have tp: "timers_placed ?m"
    using assms(1) timers_placed_cong [OF e(3)] by (simp add: sys_ok_def)
  have "\<forall>u < 8. thread_attr_entry ?m u \<noteq> None" "0 < flexpret_thread_num ?m" "flexpret_thread_num ?m \<le> 8"
    using assms(1,3) unfolding e by (auto simp: sys_ok_def)
  moreover have "\<forall>u < 8. live ?m u \<longrightarrow> priority_of ?m u \<in> {osPriorityNormal, osPriorityRealtime}"
    using assms(1,6) pr lv by (simp add: sys_ok_def)
  moreover have "modes_match ?m"
    using assms(1) pr lv so unfolding modes_match_def e by (auto simp: sys_ok_def modes_match_def)
  ultimately show ?thesis
    using inj tp unfolding sys_ok_def by blast
qed

lemma slot_ready_created:
  "slot_ready w \<Longrightarrow> slot_ready (w\<lparr>mach := created t f a at r (mach w)\<rparr>)"
  by (auto simp: slot_ready_def split: option.splits)

lemma lock_blind_frames: "lock_blind (at_effect r g)" "lock_blind (th_reset t f)"
  by (auto simp: lock_blind_def at_effect_def th_reset_def mutex_held_def mutex_avail_def)

lemma slot_ready_frames:
  assumes "slot_ready w"
  shows "slot_ready (w\<lparr>mach := at_effect r g (mach w)\<rparr>)"
    "slot_ready (w\<lparr>mach := th_reset t f (mach w)\<rparr>)" "slot_ready (w\<lparr>mach := say msg (mach w)\<rparr>)"
    "slot_ready (w\<lparr>mach := mode_effect t k (mach w)\<rparr>)"
    "slot_ready (w\<lparr>mach := create_effect p t (mach w)\<rparr>)"
    "slot_ready (w\<lparr>mach := terminated p t (mach w)\<rparr>)"
    "slot_ready (w\<lparr>mach := to_hard_effect t (mach w)\<rparr>)"
    "slot_ready (w\<lparr>mach := to_soft_effect t (mach w)\<rparr>)"
  using assms by (simp_all only: slot_ready_effect lock_blind_frames lock_blind_effects
      lock_blind_terminated lock_blind_mode_effect lock_blind_say)

lemma slots_typed_cong: "slots_of m' = slots_of m \<Longrightarrow> slots_typed m' = slots_typed m"
  by (simp add: slots_typed_def)

lemma list_all2_set_subset:
  "list_all2 (\<lambda>a b. b = a \<or> b \<in> S) xs ys \<Longrightarrow> set ys \<subseteq> set xs \<union> S"
  by (induction rule: list_all2_induct) auto

lemma slots_typed_slot_effect:
  assumes "slots_typed m" "x < 8 \<or> x = SLOT_S"
  shows "slots_typed (slot_effect x n m)"
proof (cases "resize x n (slots_of m)")
  case None
  then have "slots_of (slot_effect x n m) = slots_of m"
    by (simp add: slot_effect_def slots_of_def)
  with assms(1) show ?thesis by (simp add: slots_typed_def)
next
  case (Some s)
  have x: "x \<noteq> SLOT_D" "take_bit 4 x = x"
    using assms(2) thread_slot(1,3) [of "unat x"] soft_slot by (auto simp: word_less_nat_alt)
  have "list_all2 (\<lambda>a b. b = a \<or> b \<in> {x, SLOT_D}) (slots_of m) s"
    by (rule list_all2_mono [OF resize_Some(5) [OF Some x(1)]]) auto
  from list_all2_set_subset [OF this] show ?thesis
    using assms Some by (auto simp: slots_typed_def slots_of_effect [OF x])
qed

lemma thread_slot_typed: "t < 8 \<Longrightarrow> (of_nat t :: u8) < 8"
  by (auto simp: less_8_cases)

lemma slots_typed_frames [simp]:
  "slots_typed (mode_effect t k m) = slots_typed m" "slots_typed (at_effect r g m) = slots_typed m"
  "slots_typed (th_reset t f m) = slots_typed m" "slots_typed (cleaned h t m) = slots_typed m"
  "slots_typed (created t fn a at r m) = slots_typed m" "slots_typed (say x m) = slots_typed m"
  by (auto intro!: slots_typed_cong slots_of_cong simp: mode_effect_def or_mode_def clear_mode_def)

lemma slots_typed_effects [simp]:
  assumes "slots_typed m" "t < 8"
  shows "slots_typed (terminate_effect t m)" "slots_typed (to_hard_effect t m)"
    "slots_typed (to_soft_effect t m)" "slots_typed (create_effect p t m)" "slots_typed (terminated p t m)"
  using assms thread_slot_typed [OF assms(2)]
  by (simp_all add: terminate_effect_def to_hard_effect_def to_soft_effect_def create_effect_def terminated_def
      Let_def slots_typed_slot_effect)

lemma new_run:
  assumes "slot_ready w" "sys_ok (mach w)" "allowed (New f a at) w"
  shows "\<exists>p w'. osThreadNew f a at w = Ret p w' \<and> hart w' = hart w \<and> slot_ready w' \<and> sys_ok (mach w') \<and>
    (slots_typed (mach w) \<longrightarrow> slots_typed (mach w'))"
proof -
  let ?t = "flexpret_thread_num (mach w)"
  have t: "0 < ?t" "?t \<le> 8"
    using assms(2) by (auto simp: sys_ok_def)
  consider "f = NULL" | "f \<noteq> NULL" "?t = 8"
    | "f \<noteq> NULL" "?t < 8" "new_prio (mach w) at \<notin> {osPriorityNormal, osPriorityRealtime}"
    | "f \<noteq> NULL" "?t < 8" "new_prio (mach w) at \<in> {osPriorityNormal, osPriorityRealtime}"
    using t by linarith
  then show ?thesis
  proof cases
    case 1
    with assms show ?thesis by (simp add: osThreadNew_def)
  next
    case 2
    with assms show ?thesis
      by (simp add: osThreadNew_def slot_ready_frames sys_ok_say)
  next
    case 3
    then obtain r where "at = Some r"
      by (cases at) (auto simp: new_prio_def)
    with 3 assms show ?thesis by (auto simp: osThreadNew_def new_prio_def)
  next
    case 4
    let ?m = "created ?t f a at (new_ref (mach w) at) (mach w)"
    have "thread_attr_entry (mach w) ?t \<noteq> None"
      using assms(2) 4(2) by (simp add: sys_ok_def)
    from osThreadNew_run [OF assms(1) 4(1) refl t(1) 4(2) this 4(3), of a]
      sys_ok_created [OF assms(2) refl 4(2,1) _ 4(3), of a] assms(3)
      slot_ready_created [OF assms(1), of ?t f a at "new_ref (mach w) at"]
      slot_ready_frames(5) [of "w\<lparr>mach := ?m\<rparr>" "new_prio (mach w) at" ?t] 4(2)
    show ?thesis by simp
  qed
qed

text \<open>
  Each allowed call returns without an undefined access, leaves the slot mutex free, and
  keeps the invariant and the type of the slot register.
\<close>

lemma set_priority_returns:
  assumes "slot_ready w" "sys_ok (mach w)" "t < 8"
  shows "\<exists>w'. perform (SetPriority t p) w = Ret () w' \<and> hart w' = hart w \<and> slot_ready w' \<and> sys_ok (mach w') \<and>
    (slots_typed (mach w) \<longrightarrow> slots_typed (mach w'))"
proof -
  obtain r where r: "thread_attr_entry (mach w) t = Some r"
    using sys_okD [OF assms(2,3)] by blast
  have "slot_ready (w\<lparr>mach := reprioritised t p r (mach w)\<rparr>)"
    using slot_ready_frames(7) [OF assms(1), THEN slot_ready_frames(1)]
      slot_ready_frames(8) [OF assms(1), THEN slot_ready_frames(1)] slot_ready_frames(3) [OF assms(1)] assms(1)
    by (simp add: reprioritised_def)
  then show ?thesis
    using osThreadSetPriority_run [OF assms(1,3) r, of p] sys_ok_reprioritise [OF assms(2,3) r] assms(3)
    by (simp add: reprioritised_def)
qed

lemma terminate_returns:
  assumes "slot_ready w" "sys_ok (mach w)" "t < 8" "t \<noteq> hart w" "live (mach w) t"
  shows "\<exists>w'. perform (Terminate t) w = Ret () w' \<and> hart w' = hart w \<and> slot_ready w' \<and> sys_ok (mach w') \<and>
    (slots_typed (mach w) \<longrightarrow> slots_typed (mach w'))"
proof -
  obtain r where r: "thread_attr_entry (mach w) t = Some r" "priority_of (mach w) t = at_priority (thread_attr (mach w) r)"
    using sys_okD [OF assms(2,3)] by blast
  have p: "at_priority (thread_attr (mach w) r) \<in> {osPriorityNormal, osPriorityRealtime}" "timers_placed (mach w)"
    using assms(2,3,5) r(2) by (auto simp: sys_ok_def)
  have h: "hart w < 8"
    using assms(1) by (simp add: slot_ready_def)
  have n: "(of_nat t :: u32) \<noteq> - 1"
    using assms(3) by (auto simp: less_8_cases)
  show ?thesis
    using assms(3-5) h n thread_terminate_run [OF assms(1,3) r(1) p(2,1), of True]
      slot_ready_frames(6) [OF slot_ready_cleaned [OF assms(1)]] sys_ok_terminated [OF sys_ok_cleaned [OF assms(2)] assms(3)]
    by (simp add: osThreadTerminate_def thread_ptr_not_NULL thread_ptr_inj)
qed

lemma call_returns:
  assumes "slot_ready w" "sys_ok (mach w)" "allowed c w"
  shows "\<exists>w'. perform c w = Ret () w' \<and> hart w' = hart w \<and> slot_ready w' \<and> sys_ok (mach w') \<and>
    (slots_typed (mach w) \<longrightarrow> slots_typed (mach w'))"
proof (cases c)
  case (New f a at)
  with new_run [OF assms(1,2), of f a at] assms(3) show ?thesis by auto
next
  case (SetPriority t p)
  with set_priority_returns [OF assms(1,2)] assms(3) show ?thesis by simp
next
  case (Suspend t)
  with assms show ?thesis
    using slot_ready_frames(2) [OF assms(1), THEN slot_ready_frames(4)]
    by (simp add: osThreadSuspend_run sys_ok_zombie sys_ok_th_reset)
next
  case (Resume t)
  with assms show ?thesis
    using slot_ready_frames(4) [OF assms(1), THEN slot_ready_frames(2)]
    by (simp add: osThreadResume_run sys_ok_zombie sys_ok_th_reset)
next
  case (Detach t)
  with assms(3) have t: "t < 8" by simp
  obtain r where r: "thread_attr_entry (mach w) t = Some r"
    using sys_okD [OF assms(2) t] by blast
  show ?thesis
    using Detach osThreadDetach_run [OF t r] slot_ready_frames(1) [OF assms(1)] sys_ok_at_effect [OF assms(2)]
    by simp
next
  case (Terminate t)
  with terminate_returns [OF assms(1,2)] assms(3) show ?thesis by simp
next
  case (SetSlots t n)
  with assms(3) have t: "t < 8" by simp
  then show ?thesis
    using SetSlots assms set_slot_num_locked_run [OF assms(1) thread_slot(1) [OF t], of n]
      slot_ready_effect [OF lock_blind_slot_effect [of "of_nat t" n]]
    by (auto simp: osSchedulerSetSlotNum_def thread_slot(4) sys_ok_slot_effect slots_typed_slot_effect
        thread_slot_typed)
next
  case (SetSoftSlots n)
  then show ?thesis
    using assms set_slot_num_locked_run [OF assms(1) soft_slot(1), of n]
      slot_ready_effect [OF lock_blind_slot_effect [of SLOT_S n]]
    by (auto simp: osSchedulerSetSoftSlotNum_def sys_ok_slot_effect slots_typed_slot_effect)
qed

text \<open>A running system in which thread 0, hard and active, is the only live one.\<close>

definition example_system :: machine where
  "example_system = example_machine
     \<lparr>thread_attr_entry := (\<lambda>t. Some (Attr_static t)),
      thread_attr := (\<lambda>_. flexpret_thread_init_attr\<lparr>at_priority := osPriorityRealtime\<rparr>),
      kernel_state := osKernelRunning\<rparr>"

definition example_run :: "nat \<Rightarrow> (machine \<Rightarrow> machine) list \<Rightarrow> world" where
  "example_run h es = \<lparr>hart = h, mach = example_system, sched = es\<rparr>"

lemma example_run_simps [simp]:
  "hart (example_run h es) = h" "mach (example_run h es) = example_system" "sched (example_run h es) = es"
  by (simp_all add: example_run_def)

lemma example_system_simps [simp]:
  "thread_attr_entry example_system = (\<lambda>t. Some (Attr_static t))"
  "thread_attr example_system r = flexpret_thread_init_attr\<lparr>at_priority := osPriorityRealtime\<rparr>"
  "flexpret_thread_num example_system = 1" "kernel_state example_system = osKernelRunning"
  "live example_system t \<longleftrightarrow> t = 0" "tmodes_of example_system = [0, 1, 1, 1, 1, 1, 1, 1]"
  "slots_of example_system = [15, 15, 15, 15, 15, 15, 15, 0]"
  using example_tmodes example_slots
  by (simp_all add: example_system_def example_machine_def boot_machine_def live_def
      slots_of_cong tmodes_of_def slots_of_def)

lemma example_run_ready: "h < 8 \<Longrightarrow> slot_ready (example_run h es)"
  using example_ready [of h es] by (auto simp: slot_ready_def example_system_def mutex_avail_def split: option.splits)

lemma example_system_mutex [simp]:
  "slot_mutex example_system = Some 0" "startup_mutex_state example_system = startup_mutex_state example_machine"
  by (simp_all add: example_system_def) (simp add: example_machine_def)

lemma example_mutex_free: "mutex_avail example_system 0"
  using example_avail [of 0] by (simp add: mutex_avail_def example_system_def)

lemma example_system_ok: "sys_ok example_system"
proof -
  have "timers_placed example_system"
    using example_timers_usable [of 0] timers_placed_cong [of example_system example_timers]
    by (simp add: timer_usable_def example_system_def example_timers_def)
  moreover have "inj_on (\<lambda>t. Some (Attr_static t)) {..<8}"
    by (simp add: inj_on_def)
  ultimately show ?thesis
    by (simp add: sys_ok_def modes_match_def priority_of_def is_soft_def)
qed

section \<open>Properties\<close>

text \<open>
  C12: a thread created while the kernel runs gets the mode of its priority and, if two slots
  are free or a soft thread finds a soft slot, processor time at once; every thread that could
  run still can. Before the kernel runs a creation changes neither slots nor modes.
\<close>

theorem osThreadNew_spec:
  assumes "slot_ready w" "sys_ok (mach w)" "func \<noteq> NULL" "t = flexpret_thread_num (mach w)" "t < 8"
    and "allowed (New func arg attr) w" "new_prio (mach w) attr = p"
    and "p \<in> {osPriorityNormal, osPriorityRealtime}"
  shows "\<exists>w'. osThreadNew func arg attr w = Ret (thread_ptr t) w' \<and>
    (let m = mach w; m' = mach w' in
     live m' t \<and> th_arg (startup_state m' t) = arg \<and> th_state (startup_state m' t) = FLEXPRET_ACTIVE \<and>
     priority_of m' t = p \<and> flexpret_thread_num m' = Suc t \<and>
     (\<forall>u. u \<noteq> t \<longrightarrow> startup_state m' u = startup_state m u) \<and>
     (if kernel_state m = osKernelRunning
      then tmodes_of m' = (tmodes_of m)[t := if p = osPriorityNormal then 2 else 0] \<and>
        (1 < count_list (slots_of m) SLOT_D \<or> p = osPriorityNormal \<and> SLOT_S \<in> set (slots_of m) \<longrightarrow>
          can_run m' t) \<and>
        (\<forall>u < 8. u \<noteq> t \<longrightarrow> can_run m u \<longrightarrow> can_run m' u)
      else csr_slots m' = csr_slots m \<and> csr_tmodes m' = csr_tmodes m))"
proof -
  let ?m = "created t func arg attr (new_ref (mach w) attr) (mach w)"
  let ?m' = "if kernel_state (mach w) = osKernelRunning then create_effect p t ?m else ?m"
  have num: "0 < t" "thread_attr_entry (mach w) t \<noteq> None"
    using assms(2,4,5) by (auto simp: sys_ok_def)
  have run: "osThreadNew func arg attr w = Ret (thread_ptr t) (w\<lparr>mach := ?m'\<rparr>)"
    using osThreadNew_run [OF assms(1,3,4) num(1) assms(5) num(2)] assms(7,8) by simp
  have st: "startup_state ?m' = startup_state ?m" "flexpret_thread_num ?m' = Suc t"
    "thread_attr_entry ?m' t = Some (new_ref (mach w) attr)"
    "thread_attr ?m' (new_ref (mach w) attr) = new_attr t attr (mach w)"
    by simp_all
  have 1: "live ?m' t" "priority_of ?m' t = p"
    using assms(3,7) by (simp_all add: live_def st priority_of_def new_prio_created)
  have 2: "th_arg (startup_state ?m' t) = arg" "th_state (startup_state ?m' t) = FLEXPRET_ACTIVE"
    "\<forall>u. u \<noteq> t \<longrightarrow> startup_state ?m' u = startup_state (mach w) u"
    unfolding st by (simp_all add: created_def)
  have sl: "slots_of ?m = slots_of (mach w)"
    by (rule slots_of_cong) simp
  have 3: "can_run (create_effect p t ?m) u" if "u < 8" "u \<noteq> t" "can_run (mach w) u" for u
    using that assms(5,8) by (auto simp: can_run_def create_effect_def Let_def slot_membership tmodes_of_mode_effect sl)
  have 4: "can_run (create_effect p t ?m) t"
    if "1 < count_list (slots_of (mach w)) SLOT_D \<or> p = osPriorityNormal \<and> SLOT_S \<in> set (slots_of (mach w))"
    using that assms(5,8)
    by (auto simp: can_run_def create_effect_def Let_def slot_membership tmodes_of_mode_effect sl new_mode_def is_soft_def)
  show ?thesis
    using run 1 2 st(2) 3 4 tmodes_of_create [OF assms(5,8), of ?m] by (auto simp: Let_def)
qed

theorem osThreadNew_spec_witness:
  "\<exists>w'. osThreadNew 0x300 0x44 None (example_run 0 []) = Ret (thread_ptr 1) w' \<and> can_run (mach w') 1"
  using osThreadNew_spec [where w = "example_run 0 []" and func = "0x300" and t = 1 and attr = None
      and arg = "0x44" and p = osPriorityNormal]
    example_run_ready [of 0 "[]"] example_system_ok
  by (auto simp: new_prio_def Let_def)

text \<open>
  C13: a thread whose priority is changed has then the new priority and the mode that belongs to
  it; for the change to realtime it also has a slot of its own if it had one or two were free.
  An unsupported priority is refused and changes nothing but the output.
\<close>

theorem osThreadSetPriority_spec:
  assumes "slot_ready w" "sys_ok (mach w)" "t < 8" "p \<noteq> priority_of (mach w) t"
  shows "\<exists>r w'. osThreadSetPriority (thread_ptr t) p w = Ret r w' \<and>
    (if p \<in> {osPriorityNormal, osPriorityRealtime}
     then r = osOK \<and> osThreadGetPriority (thread_ptr t) w' = Ret p w' \<and>
       (is_soft (tmodes_of (mach w') ! t) \<longleftrightarrow> p = osPriorityNormal) \<and>
       (p = osPriorityRealtime \<and>
         (of_nat t \<in> set (slots_of (mach w)) \<or> 1 < count_list (slots_of (mach w)) SLOT_D) \<longrightarrow>
         of_nat t \<in> set (slots_of (mach w')))
     else r = osError \<and> mach w' = say (''unsupported priority'' @ [CHR 0x0A]) (mach w))"
proof -
  let ?m = "mach w"
  obtain r where r: "thread_attr_entry ?m t = Some r" "priority_of ?m t = at_priority (thread_attr ?m r)"
    using sys_okD [OF assms(2,3)] by blast
  let ?m' = "reprioritised t p r ?m"
  have run: "osThreadSetPriority (thread_ptr t) p w =
      Ret (if p = osPriorityRealtime \<or> p = osPriorityNormal then osOK else osError) (w\<lparr>mach := ?m'\<rparr>)"
    using osThreadSetPriority_run [OF assms(1,3) r(1), of p] r(2) assms(4) by simp
  show ?thesis
  proof (cases "p \<in> {osPriorityNormal, osPriorityRealtime}")
    case True
    then have e: "thread_attr_entry ?m' t = Some r" "at_priority (thread_attr ?m' r) = p"
      using r assms(4) by (auto simp: reprioritised_def)
    have "is_soft (tmodes_of ?m' ! t) \<longleftrightarrow> p = osPriorityNormal"
      using True r(2) assms(3,4) is_soft_new_mode(1,2) [OF tmodes_nth_cases [OF assms(3), of ?m]]
      by (auto simp: reprioritised_def tmodes_of_to_hard tmodes_of_to_soft)
    moreover have "slots_of (at_effect r' f m') = slots_of m'" for r' f m'
      by (rule slots_of_cong) simp
    then have "of_nat t \<in> set (slots_of ?m')"
      if "p = osPriorityRealtime" "of_nat t \<in> set (slots_of ?m) \<or> 1 < count_list (slots_of ?m) SLOT_D"
      using that r(2) assms(3,4)
      by (auto simp: reprioritised_def to_hard_effect_def Let_def slot_membership)
    moreover have "osThreadGetPriority (thread_ptr t) (w\<lparr>mach := ?m'\<rparr>) = Ret p (w\<lparr>mach := ?m'\<rparr>)"
      using e assms(3) by (simp add: osThreadGetPriority_def thread_ptr_not_NULL thread_slot(5))
    ultimately show ?thesis
      using True run by auto
  next
    case False
    then have "?m' = say (''unsupported priority'' @ [CHR 0x0A]) ?m"
      using r(2) assms(4) by (simp add: reprioritised_def)
    with False run show ?thesis by auto
  qed
qed

theorem osThreadSetPriority_spec_witness:
  "\<exists>w'. osThreadSetPriority (thread_ptr 0) osPriorityNormal (example_run 0 []) = Ret osOK w' \<and>
    is_soft (tmodes_of (mach w') ! 0)"
  using osThreadSetPriority_spec [of "example_run 0 []" 0 osPriorityNormal] example_run_ready [of 0 "[]"]
    example_system_ok
  by (auto simp: priority_of_def)

text \<open>
  Two threads created with the same attribute object share their priority: after one is
  made realtime the other, still soft, is reported realtime too, and asking for realtime does
  nothing for it.
\<close>

theorem shared_attributes:
  assumes "slot_ready w" "t < 8" "u < 8" "t \<noteq> u"
    and "thread_attr_entry (mach w) t = Some r" "thread_attr_entry (mach w) u = Some r"
    and "at_priority (thread_attr (mach w) r) = osPriorityNormal" "is_soft (tmodes_of (mach w) ! u)"
  shows "\<exists>w'. osThreadSetPriority (thread_ptr t) osPriorityRealtime w = Ret osOK w' \<and>
    osThreadGetPriority (thread_ptr u) w' = Ret osPriorityRealtime w' \<and>
    is_soft (tmodes_of (mach w') ! u) \<and>
    osThreadSetPriority (thread_ptr u) osPriorityRealtime w' = Ret osOK w'"
proof -
  let ?m = "reprioritised t osPriorityRealtime r (mach w)"
  have m: "?m = at_effect r (\<lambda>at. at\<lparr>at_priority := osPriorityRealtime\<rparr>) (to_hard_effect t (mach w))"
    using assms(7) by (simp add: reprioritised_def)
  have "thread_attr_entry ?m u = Some r" "at_priority (thread_attr ?m r) = osPriorityRealtime"
    "is_soft (tmodes_of ?m ! u)"
    using assms(2,4,6,8) unfolding m by (simp_all add: tmodes_of_to_hard)
  then show ?thesis
    using osThreadSetPriority_run [OF assms(1,2,5), of osPriorityRealtime] assms(3)
    by (simp add: osThreadGetPriority_def osThreadSetPriority_def thread_ptr_not_NULL thread_slot(5))
qed

theorem shared_attributes_witness:
  "\<exists>w w'. osThreadSetPriority (thread_ptr 1) osPriorityRealtime w = Ret osOK w' \<and>
    osThreadGetPriority (thread_ptr 2) w' = Ret osPriorityRealtime w' \<and> is_soft (tmodes_of (mach w') ! 2)"
proof -
  let ?m = "example_system\<lparr>thread_attr_entry := (\<lambda>_. Some (Attr_user 0)),
    thread_attr := (\<lambda>_. flexpret_thread_init_attr), csr_tmodes := 0x28\<rparr>"
  let ?w = "(example_run 0 [])\<lparr>mach := ?m\<rparr>"
  have r: "slot_ready ?w"
    using example_run_ready [of 0 "[]"] by (simp add: slot_ready_def mutex_avail_def split: option.splits)
  have s: "is_soft (tmodes_of ?m ! 2)"
    by (simp add: tmodes_of_def unpack_tmodes_def is_soft_def)
  have a: "at_priority (thread_attr (mach ?w) (Attr_user 0)) = osPriorityNormal"
    by (simp add: flexpret_thread_init_attr_def)
  obtain w' where "osThreadSetPriority (thread_ptr 1) osPriorityRealtime ?w = Ret osOK w'"
    "osThreadGetPriority (thread_ptr 2) w' = Ret osPriorityRealtime w'" "is_soft (tmodes_of (mach w') ! 2)"
    using shared_attributes [OF r _ _ _ _ _ a, of 1 2] s by auto
  then show ?thesis by blast
qed



subsection \<open>Joining\<close>

text \<open>What the joining thread relies on: its events keep the identity of the joined thread.\<close>

definition join_rely :: "nat \<Rightarrow> attr_ref \<Rightarrow> int \<Rightarrow> machine \<Rightarrow> bool" where
  "join_rely t r p m \<longleftrightarrow> (case slot_mutex m of None \<Rightarrow> False | Some i \<Rightarrow> mutex_avail m i) \<and>
     thread_attr_entry m t = Some r \<and> at_priority (thread_attr m r) = p \<and> timers_placed m"

lemma join_rely_blind: "clock_blind (join_rely t r p)"
  by (auto simp: clock_blind_def join_rely_def mutex_avail_def timers_placed_def timer_ptr_def split: option.splits)

lemma join_wait_Suc:
  "t < 8 \<Longrightarrow> join_wait (Suc n) t w = (if live (mach w) t
     then bnd (osDelay FLEXPRET_WAIT_PERIOD) (\<lambda>_. join_wait n t) w else Ret () w)"
  by (simp add: live_def osDelay_def bnd_def split: result.splits)

text \<open>The wait ends with the thread ended, or goes on until the events are used up.\<close>

lemma join_wait_post:
  assumes "t < 8" "clock_blind P"
  shows "length (sched w) < n \<Longrightarrow> kept_by P (sched w) \<Longrightarrow> P (mach w) \<Longrightarrow>
    (\<exists>w'. join_wait n t w = Ret () w' \<and> P (mach w') \<and> \<not> live (mach w') t \<and> hart w' = hart w) \<or>
    (\<exists>w'. join_wait n t w = Blocked w' \<and> sched w' = [])"
proof (induction n arbitrary: w)
  case 0
  then show ?case by simp
next
  case (Suc n)
  show ?case
  proof (cases "live (mach w) t")
    case True
    show ?thesis
    proof (cases "osDelay FLEXPRET_WAIT_PERIOD w")
      case (Ret r w1)
      have "length (sched w1) < n"
        using osDelay_consumes [OF Ret] Suc.prems(1) by (simp add: FLEXPRET_WAIT_PERIOD_def)
      with Suc.IH [of w1] osDelay_keeps [OF assms(2) Ret Suc.prems(2,3)] True Ret assms(1)
      show ?thesis by (simp add: join_wait_Suc del: join_wait.simps)
    next
      case (Blocked w1)
      with True assms(1) osDelay_blocked [OF Blocked] show ?thesis
        by (simp add: join_wait_Suc del: join_wait.simps)
    next
      case (Fault e)
      then show ?thesis using osDelay_no_fault by blast
    qed
  next
    case False
    with assms(1) Suc.prems(3) show ?thesis
      by (simp add: join_wait_Suc del: join_wait.simps)
  qed
qed

lemma terminated_slots:
  assumes "t < 8" "p \<in> {osPriorityNormal, osPriorityRealtime}"
  shows "of_nat t \<notin> set (slots_of (terminated p t m))"
    "tmodes_of (terminated p t m) ! t = tmodes_of m ! t OR 1"
  using assms
  by (auto simp: terminated_def terminate_effect_def Let_def slot_membership tmodes_of_mode_effect new_mode_def)



subsection \<open>Termination and mutexes\<close>



section \<open>Counting threads\<close>

lemma count_loop_eq:
  "count_loop st is c = c + of_nat (length (filter (\<lambda>i. th_func (st i) \<noteq> NULL) is))"
  by (induction "is" arbitrary: c) (simp_all add: add.assoc)

lemma enumerate_loop_eq:
  "enumerate_loop st is = map thread_ptr (filter (\<lambda>i. th_func (st i) \<noteq> NULL) is)"
  by (induction "is") simp_all

text \<open>
  \<^verbatim>\<open>osThreadGetCount\<close> counts the live threads. \<^verbatim>\<open>osThreadEnumerate\<close> lists live threads
  in order, all of them if the array has eight elements; but with fewer it never reports a
  live thread whose number is not below the size, however many elements stay unused.
\<close>

theorem enumerate_live_threads:
  "osThreadGetCount w = Ret (of_nat (card {t. t < 8 \<and> live (mach w) t})) w \<and>
   osThreadEnumerate n w =
     (let ids = map thread_ptr (filter (live (mach w)) [0..<min 8 (unat n)]) in
      Ret (ids, of_nat (length ids)) w)"
proof -
  have "length (filter (live (mach w)) [0..<8]) = card {t. t < 8 \<and> live (mach w) t}"
  proof -
    have "card (set (filter (live (mach w)) [0..<8])) = length (filter (live (mach w)) [0..<8])"
      by (rule distinct_card) (simp del: upt_rec_numeral)
    moreover have "set (filter (live (mach w)) [0..<8]) = {t. t < 8 \<and> live (mach w) t}"
      by (auto simp del: upt_rec_numeral)
    ultimately show ?thesis by simp
  qed
  moreover have "(\<lambda>i. th_func (startup_state (mach w) i) \<noteq> NULL) = live (mach w)"
    by (simp add: live_def fun_eq_iff)
  ultimately show ?thesis
    unfolding osThreadGetCount_def osThreadEnumerate_def
    by (simp add: count_loop_eq enumerate_loop_eq Let_def del: upt_rec_numeral)
qed

end
