(* ===== verification/Kernel_Properties.thy ===== *)
theory Kernel_Properties
  imports Kernel Thread_Properties
begin

text \<open>
  What initialisation, start and reset of the kernel do, and the invariant of the whole
  system: it holds after initialisation and every service keeps it.
\<close>

section \<open>Initialisation\<close>

text \<open>The state \<^verbatim>\<open>osKernelInitialize\<close> leaves, when no mutex has been created.\<close>

definition initialised :: "machine \<Rightarrow> machine" where
  "initialised m = m
     \<lparr>csr_mutex := (\<lambda>i. if i = 0 then 0 else if i < 8 then 1 else csr_mutex m i),
      startup_state := (startup_state m)(0 := (startup_state m 0)\<lparr>th_state := FLEXPRET_ACTIVE\<rparr>),
      thread_attr := (thread_attr m)(Attr_static 0 :=
       \<lparr>at_name = Some ''FlexPRET Thread 0'', at_attr_bits = osThreadDetached, at_cb_mem = NULL,
        at_cb_size = sizeof_hwthread_state, at_stack_mem = flexpret_thread_init_stack_addr ! 0,
        at_stack_size = flexpret_thread_init_stack_addr ! 0 - bss_end_addr m,
        at_priority = osPriorityRealtime, at_tz_module = 0, at_reserved = 0\<rparr>),
      thread_attr_entry := (\<lambda>t. if t < 8 then Some (Attr_static t) else thread_attr_entry m t),
      timer_attr_entry := (\<lambda>t. if t < 8 then None else timer_attr_entry m t),
      startup_mutex_state := (\<lambda>i. if i < 8 then (startup_mutex_state m i)
         \<lparr>mu_owner := NULL, mu_count := 0, mu_ifRecursive := (i = 0), mu_ifRobust := (i = 0),
          mu_active := (i = 0),
          mu_name := if i = 0 then Some ''slotMutex'' else mu_name (startup_mutex_state m i),
          mu_csr_addr := if i = 0 then 0 else mu_csr_addr (startup_mutex_state m i),
          mu_ifSpin := if i = 0 then True else mu_ifSpin (startup_mutex_state m i)\<rparr>
         else startup_mutex_state m i),
      flexpret_mutex_num := 1, slot_mutex := Some 0, kernel_state := osKernelReady\<rparr>"

lemma for_each_snoc: "for_each (is @ [i]) body = seqm (for_each is body) (body i)"
  by (induction "is") (simp_all add: fun_eq_iff seqm_def bnd_def split: result.split)

lemma upto_fun_upd: "(\<lambda>t. if t < n then x t else y t)(n := x n) = (\<lambda>t. if t < Suc n then x t else y t)"
  by (auto simp: fun_eq_iff less_Suc_eq)

lemma init_entries:
  "for_each [0..<n] (\<lambda>i. upd (\<lambda>m. m\<lparr>thread_attr_entry := (thread_attr_entry m)(i := Some (Attr_static i)),
      timer_attr_entry := (timer_attr_entry m)(i := None)\<rparr>)) w =
    Ret () (w\<lparr>mach := (mach w)
      \<lparr>thread_attr_entry := (\<lambda>t. if t < n then Some (Attr_static t) else thread_attr_entry (mach w) t),
       timer_attr_entry := (\<lambda>t. if t < n then None else timer_attr_entry (mach w) t)\<rparr>\<rparr>)"
proof (induction n)
  case (Suc n)
  then show ?case
    by (auto simp: for_each_snoc less_Suc_eq cong del: if_weak_cong intro!: world.equality machine.equality ext)
qed simp

lemma init_mutexes:
  "n \<le> 8 \<Longrightarrow> for_each [0..<n] (\<lambda>i. mu_upd i f) w =
    Ret () (w\<lparr>mach := (mach w)\<lparr>startup_mutex_state := (\<lambda>i.
      if i < n then f (startup_mutex_state (mach w) i) else startup_mutex_state (mach w) i)\<rparr>\<rparr>)"
proof (induction n)
  case (Suc n)
  with upto_fun_upd [of n "\<lambda>i. f (startup_mutex_state (mach w) i)" "startup_mutex_state (mach w)"]
  show ?case by (simp add: for_each_snoc cong del: if_weak_cong)
qed simp

lemma init_registers:
  "for_each [0, 1, 2, 3, 4, 5, 6, 7] (\<lambda>i. os_write_csr (CSR_MUTEX i) 1) w =
    Ret () (w\<lparr>mach := (mach w)\<lparr>csr_mutex := (\<lambda>i. if i < 8 then 1 else csr_mutex (mach w) i)\<rparr>\<rparr>)"
proof -
  have "(\<lambda>i. if i < 8 then 1 else c i) = c(0 := 1, 1 := 1, 2 := 1, 3 := 1, 4 := 1, 5 := 1, 6 := 1, 7 := 1 :: 4 word)"
    for c :: "nat \<Rightarrow> 4 word"
    by (auto simp: fun_eq_iff)
  then show ?thesis by simp
qed

lemma osKernelInitialize_run:
  assumes "flexpret_mutex_num (mach w) = 0"
  shows "osKernelInitialize w = Ret osOK (w\<lparr>mach := initialised (mach w)\<rparr>)"
proof -
  have f: "osMutexRecursive OR osMutexRobust = (9 :: u32)"
    by simp
  show ?thesis
    unfolding osKernelInitialize_def slotMutexAttr_def osMutexNew_def osMutexSetSpin_def f attr_upd_def st_upd_def
    using assms
    by (simp add: init_entries init_mutexes init_registers)
       (auto intro!: machine.equality simp: initialised_def fun_eq_iff)
qed

section \<open>Start\<close>

text \<open>
  What the loop of \<^verbatim>\<open>osKernelStart\<close> decides for thread \<open>t\<close>, where \<open>soft\<close> is the thread, if
  any, that brings the slot of the soft threads.
\<close>

definition start_mode :: "machine \<Rightarrow> nat \<Rightarrow> int" where
  "start_mode m t = (if live m t \<and> priority_of m t = osPriorityRealtime then TMODE_HA
     else if live m t \<and> priority_of m t = osPriorityNormal then TMODE_SA else TMODE_SZ)"

definition start_slot :: "machine \<Rightarrow> nat option \<Rightarrow> nat \<Rightarrow> int" where
  "start_slot m soft t = (if live m t \<and> priority_of m t = osPriorityRealtime then int t
     else if soft = Some t then uint SLOT_S else uint SLOT_D)"

definition first_soft :: "machine \<Rightarrow> nat list \<Rightarrow> nat option" where
  "first_soft m is = (if default_soft_slot_id m = - 1
     then find (\<lambda>t. live m t \<and> priority_of m t = osPriorityNormal) is else None)"

lemma first_soft_Cons:
  "first_soft m (t # is) = (if live m t \<and> priority_of m t = osPriorityNormal \<and> default_soft_slot_id m = - 1
     then Some t else first_soft m is)"
  by (simp add: first_soft_def)

lemma first_soft_Some:
  "first_soft m is = Some t \<Longrightarrow> t \<in> set is \<and> live m t \<and> priority_of m t = osPriorityNormal"
  by (auto simp: first_soft_def find_Some_iff split: if_splits)

text \<open>The machine during and after the loop: thread states, the default slot and messages.\<close>

definition loop_frame :: "machine \<Rightarrow> machine \<Rightarrow> bool" where
  "loop_frame m m' \<longleftrightarrow> (\<exists>st d out. m' = m\<lparr>startup_state := st, default_soft_slot_id := d, emulator_out := out\<rparr> \<and>
     (\<forall>t. th_func (st t) = th_func (startup_state m t)))"

lemma loop_frameI:
  "m' = m\<lparr>startup_state := st, default_soft_slot_id := d, emulator_out := out\<rparr> \<Longrightarrow>
    (\<And>t. th_func (st t) = th_func (startup_state m t)) \<Longrightarrow> loop_frame m m'"
  unfolding loop_frame_def by blast

lemma loop_frame_refl: "loop_frame m m"
  by (rule loop_frameI [where st = "startup_state m" and d = "default_soft_slot_id m" and out = "emulator_out m"])
    simp_all

lemma loop_frame_steps:
  "(\<And>st. th_func (f st) = th_func st) \<Longrightarrow> loop_frame m (th_reset t f m)"
  "loop_frame m (m\<lparr>default_soft_slot_id := d\<rparr>)" "loop_frame m (say x m)"
  by (rule loop_frameI [where st = "startup_state (th_reset t f m)" and d = "default_soft_slot_id m"
        and out = "emulator_out m"], simp_all add: th_reset_def)
    (rule loop_frameI [where st = "startup_state m" and d = d and out = "emulator_out m"]
       loop_frameI [where st = "startup_state m" and d = "default_soft_slot_id m" and out = "emulator_out (say x m)"],
     simp_all add: say_def)+

lemma loop_frame_trans: "loop_frame m m' \<Longrightarrow> loop_frame m' m'' \<Longrightarrow> loop_frame m m''"
  by (fastforce simp: loop_frame_def)

lemma loop_frameD:
  assumes "loop_frame m m'"
  shows "live m' t = live m t" "priority_of m' t = priority_of m t" "start_mode m' t = start_mode m t"
    "start_slot m' soft t = start_slot m soft t" "thread_attr_entry m' = thread_attr_entry m"
    "csr_slots m' = csr_slots m" "csr_tmodes m' = csr_tmodes m" "timer_base m' = timer_base m"
    "flexpret_thread_num m' = flexpret_thread_num m" "slot_mutex m' = slot_mutex m"
    "startup_mutex_state m' = startup_mutex_state m" "csr_mutex m' = csr_mutex m"
  using assms
  by (auto simp: loop_frame_def live_def priority_of_def start_mode_def start_slot_def split: option.splits)

text \<open>One pass of the loop, for thread \<open>i\<close>: its state, the shared soft slot, the message.\<close>

definition loop_pass :: "nat \<Rightarrow> machine \<Rightarrow> machine" where
  "loop_pass i m =
     (let m1 = (if live m i then th_reset i (\<lambda>st. st\<lparr>th_state := FLEXPRET_ACTIVE\<rparr>) m else m) in
      if live m i \<and> priority_of m i = osPriorityNormal \<and> default_soft_slot_id m = - 1
      then m1\<lparr>default_soft_slot_id := int i\<rparr>
      else if live m i \<and> priority_of m i \<notin> {osPriorityNormal, osPriorityRealtime}
      then say (''Unsupported priority'' @ [CHR 0x0A]) m1 else m1)"

lemma loop_pass_frame: "loop_frame m (loop_pass i m)"
proof -
  define m1 where "m1 = (if live m i then th_reset i (\<lambda>st. st\<lparr>th_state := FLEXPRET_ACTIVE\<rparr>) m else m)"
  have 1: "loop_frame m m1"
    by (simp add: m1_def loop_frame_refl loop_frame_steps)
  show ?thesis
    unfolding loop_pass_def Let_def m1_def [symmetric]
    using 1 loop_frame_trans [OF 1 loop_frame_steps(2)] loop_frame_trans [OF 1 loop_frame_steps(3)]
    by (simp split: if_split)
qed

lemma start_loop_Cons:
  assumes "i < 8" "i \<notin> set is" "thread_attr_entry (mach w) i \<noteq> None"
  shows "start_loop (i # is) s md w = start_loop is (s[i := start_slot (mach w) (first_soft (mach w) (i # is)) i])
    (md[i := start_mode (mach w) i]) (w\<lparr>mach := loop_pass i (mach w)\<rparr>)"
proof -
  let ?m = "mach w"
  obtain r where r: "thread_attr_entry ?m i = Some r" "priority_of ?m i = at_priority (thread_attr ?m r)"
    using assms(3) by (auto simp: priority_of_def)
  have nf: "first_soft ?m is \<noteq> Some i"
    using assms(2) first_soft_Some by blast
  show ?thesis
  proof (cases "live ?m i")
    case True
    then have th: "th_func (startup_state ?m i) \<noteq> NULL" by (simp add: live_def)
    consider "at_priority (thread_attr ?m r) = osPriorityRealtime"
      | "at_priority (thread_attr ?m r) = osPriorityNormal" "default_soft_slot_id ?m = - 1"
      | "at_priority (thread_attr ?m r) = osPriorityNormal" "default_soft_slot_id ?m \<noteq> - 1"
      | "at_priority (thread_attr ?m r) \<notin> {osPriorityNormal, osPriorityRealtime}"
      by auto
    then show ?thesis
      using True th assms(1) r nf
      by cases (simp_all add: start_slot_def start_mode_def first_soft_Cons loop_pass_def th_reset_def)
  next
    case False
    with assms(1) nf show ?thesis
      by (simp add: start_slot_def start_mode_def first_soft_Cons loop_pass_def) (simp add: live_def)
  qed
qed

text \<open>The soft slot goes to the first soft thread of the rest unless \<open>i\<close> has taken it.\<close>

lemma start_slot_pass:
  assumes "0 < i" "i \<notin> set is" "t \<in> set is"
  shows "start_slot m (first_soft (loop_pass i m) is) t = start_slot m (first_soft m (i # is)) t"
proof -
  let ?soft = "live m i \<and> priority_of m i = osPriorityNormal \<and> default_soft_slot_id m = - 1"
  have "first_soft (loop_pass i m) is = (if ?soft then None else first_soft m (i # is))"
  proof (cases ?soft)
    case True
    then show ?thesis using assms(1) by (simp add: first_soft_def loop_pass_def)
  next
    case False
    then have "default_soft_slot_id (loop_pass i m) = default_soft_slot_id m"
      by (auto simp: loop_pass_def th_reset_def Let_def)
    with False show ?thesis
      unfolding first_soft_Cons by (auto simp: first_soft_def loop_frameD(1,2) [OF loop_pass_frame])
  qed
  with assms(2,3) show ?thesis
    by (auto simp: start_slot_def first_soft_Cons)
qed

lemma start_loop_run:
  assumes "set is \<subseteq> {0<..<8}" "distinct is" "\<And>t. t < 8 \<Longrightarrow> thread_attr_entry (mach w) t \<noteq> None"
    and "length s = 8" "length md = 8"
  shows "\<exists>s' md' m'. start_loop is s md w = Ret (s', md') (w\<lparr>mach := m'\<rparr>) \<and> loop_frame (mach w) m' \<and>
    length s' = 8 \<and> length md' = 8 \<and>
    (\<forall>t. t \<notin> set is \<longrightarrow> s' ! t = s ! t \<and> md' ! t = md ! t) \<and>
    (\<forall>t \<in> set is. s' ! t = start_slot (mach w) (first_soft (mach w) is) t \<and> md' ! t = start_mode (mach w) t)"
  using assms
proof (induction "is" arbitrary: s md w)
  case Nil
  then show ?case by (auto intro!: exI [of _ "mach w"] loop_frame_refl)
next
  case (Cons i "is")
  let ?m = "mach w" and ?m2 = "loop_pass i (mach w)"
  let ?s = "s[i := start_slot ?m (first_soft ?m (i # is)) i]" and ?md = "md[i := start_mode ?m i]"
  have i: "i < 8" "0 < i" "i \<notin> set is" "set is \<subseteq> {0<..<8}" "distinct is"
    using Cons.prems(1,2) by auto
  note fr = loop_pass_frame [of ?m i]
  obtain s' md' m' where ih: "start_loop is ?s ?md (w\<lparr>mach := ?m2\<rparr>) = Ret (s', md') (w\<lparr>mach := m'\<rparr>)"
    "loop_frame ?m2 m'" "length s' = 8" "length md' = 8"
    "\<forall>t. t \<notin> set is \<longrightarrow> s' ! t = ?s ! t \<and> md' ! t = ?md ! t"
    "\<forall>t \<in> set is. s' ! t = start_slot ?m (first_soft ?m2 is) t \<and> md' ! t = start_mode ?m t"
    using Cons.IH [OF i(4,5), of "w\<lparr>mach := ?m2\<rparr>" ?s ?md] Cons.prems(3-5) loop_frameD(3,4,5) [OF fr] by auto
  have "\<forall>t. t \<notin> set (i # is) \<longrightarrow> s' ! t = s ! t \<and> md' ! t = md ! t"
    using ih(5) by simp
  moreover have "\<forall>t \<in> set (i # is). s' ! t = start_slot ?m (first_soft ?m (i # is)) t \<and> md' ! t = start_mode ?m t"
    using ih(5,6) start_slot_pass [OF i(2,3)] i(1,3) Cons.prems(4,5) by simp
  ultimately show ?case
    using start_loop_Cons [OF i(1,3) Cons.prems(3) [OF i(1)]] ih(1-4) loop_frame_trans [OF fr ih(2)] by auto
qed

lemma start_slot_word:
  fixes m :: machine and soft :: "nat option"
  assumes "t < 8"
  defines "x \<equiv> word_of_int (start_slot m soft t) :: u8"
  shows "take_bit 4 x = x" "x = of_nat t \<or> x = SLOT_S \<or> x = SLOT_D"
    "x = of_nat t \<longleftrightarrow> live m t \<and> priority_of m t = osPriorityRealtime"
    "x = SLOT_S \<longleftrightarrow> soft = Some t \<and> \<not> (live m t \<and> priority_of m t = osPriorityRealtime)"
  using thread_slot(1-3) [OF assms(1)] soft_slot
  by (auto simp: x_def start_slot_def take_bit_eq_mask mask_eq_exp_minus_1)

lemma start_mode_word:
  "(word_of_int (start_mode m t) :: u32) = (if live m t \<and> priority_of m t = osPriorityRealtime then 0
     else if live m t \<and> priority_of m t = osPriorityNormal then 2 else 3)"
  "take_bit 2 (word_of_int (start_mode m t) :: u32) = word_of_int (start_mode m t)"
  by (auto simp: start_mode_def take_bit_eq_mask mask_eq_exp_minus_1)

lemma osKernelStart_run:
  assumes "\<And>t. t < 8 \<Longrightarrow> thread_attr_entry (mach w) t \<noteq> None"
  obtains m' where "osKernelStart w = Ret osOK (w\<lparr>mach := m'\<rparr>)" "kernel_state m' = osKernelRunning"
    "\<And>t. live m' t = live (mach w) t" "\<And>t. priority_of m' t = priority_of (mach w) t"
    "\<And>t. t < 8 \<Longrightarrow> tmodes_of m' ! t = (if t = 0 then 0 else word_of_int (start_mode (mach w) t))"
    "\<And>t. t < 8 \<Longrightarrow> slots_of m' ! t = (if t = 0 then 0
       else word_of_int (start_slot (mach w) (first_soft (mach w) [1..<8]) t))"
    "thread_attr_entry m' = thread_attr_entry (mach w)" "timer_base m' = timer_base (mach w)"
    "flexpret_thread_num m' = flexpret_thread_num (mach w)" "slot_mutex m' = slot_mutex (mach w)"
    "startup_mutex_state m' = startup_mutex_state (mach w)" "csr_mutex m' = csr_mutex (mach w)"
proof -
  have sub: "set [1..<8] \<subseteq> {0<..<8::nat}" by auto
  obtain s md m' where run: "start_loop [1..<8] (replicate 8 0) (replicate 8 0) w = Ret (s, md) (w\<lparr>mach := m'\<rparr>)"
    "loop_frame (mach w) m'" "length s = 8" "length md = 8"
    "s ! 0 = 0" "md ! 0 = 0"
    "\<And>t. 0 < t \<Longrightarrow> t < 8 \<Longrightarrow> s ! t = start_slot (mach w) (first_soft (mach w) [1..<8]) t"
    "\<And>t. 0 < t \<Longrightarrow> t < 8 \<Longrightarrow> md ! t = start_mode (mach w) t"
    using start_loop_run [OF sub distinct_upt assms, of "replicate 8 0" "replicate 8 0"]
    by (force simp del: upt_rec_numeral)
  let ?m = "m'\<lparr>csr_slots := pack_slots (map ucast (map word_of_int s :: u8 list)),
    csr_tmodes := ucast (pack_tmodes (map word_of_int md)), kernel_state := osKernelRunning\<rparr>"
  have start: "osKernelStart w = Ret osOK (w\<lparr>mach := ?m\<rparr>)"
  proof -
    have "(replicate 8 0)[0 := 0] = replicate 8 (0 :: int)"
      by (rule list_update_same_conv [THEN iffD2]) simp_all
    then show ?thesis
      using run(1) by (simp add: osKernelStart_def del: upt_rec_numeral)
  qed
  have "slots_of ?m = map (take_bit 4) (map word_of_int s)"
    using slots_of_pack [of "map word_of_int s" m'] run(3) by (simp add: slots_of_def)
  then have sl: "slots_of ?m ! t = (if t = 0 then 0
      else word_of_int (start_slot (mach w) (first_soft (mach w) [1..<8]) t))" if "t < 8" for t
    using that run(3,5,7) start_slot_word(1) [OF that] by simp
  have "tmodes_of ?m = map (take_bit 2) (map word_of_int md)"
    using tmodes_of_ucast [where m = m' and v = "pack_tmodes (map word_of_int md)"] run(4)
    by (simp add: tmode_reg.unpack_pack tmodes_of_def)
  then have md: "tmodes_of ?m ! t = (if t = 0 then 0 else word_of_int (start_mode (mach w) t))" if "t < 8" for t
    using that run(4,6,8) start_mode_word(2) by simp
  have lv: "live ?m t = live (mach w) t" "priority_of ?m t = priority_of (mach w) t" for t
    using loop_frameD(1,2) [OF run(2), of t] priority_of_cong [of ?m m' t] by (simp_all add: live_def)
  show ?thesis
    by (rule that [OF start _ lv md sl]) (use loop_frameD [OF run(2)] in simp_all)
qed

section \<open>The invariant of the system\<close>

lemma slots_typed_nth:
  "slots_typed m \<longleftrightarrow> (\<forall>t < 8. slots_of m ! t \<in> {0..<8} \<union> {SLOT_S, SLOT_D})"
  by (auto simp: slots_typed_def set_conv_nth)

lemma start_ok:
  assumes "slot_ready w" "sys_ok (mach w)" "priority_of (mach w) 0 = osPriorityRealtime"
  shows "\<exists>w'. osKernelStart w = Ret osOK w' \<and> hart w' = hart w \<and> slot_ready w' \<and> sys_ok (mach w') \<and>
    slots_typed (mach w')"
proof -
  have "thread_attr_entry (mach w) t \<noteq> None" if "t < 8" for t
    using assms(2) that by (simp add: sys_ok_def)
  then obtain m' where m': "osKernelStart w = Ret osOK (w\<lparr>mach := m'\<rparr>)" "kernel_state m' = osKernelRunning"
    "\<And>t. live m' t = live (mach w) t" "\<And>t. priority_of m' t = priority_of (mach w) t"
    "\<And>t. t < 8 \<Longrightarrow> tmodes_of m' ! t = (if t = 0 then 0 else word_of_int (start_mode (mach w) t))"
    "\<And>t. t < 8 \<Longrightarrow> slots_of m' ! t = (if t = 0 then 0
       else word_of_int (start_slot (mach w) (first_soft (mach w) [1..<8]) t))"
    "thread_attr_entry m' = thread_attr_entry (mach w)" "timer_base m' = timer_base (mach w)"
    "flexpret_thread_num m' = flexpret_thread_num (mach w)" "slot_mutex m' = slot_mutex (mach w)"
    "startup_mutex_state m' = startup_mutex_state (mach w)" "csr_mutex m' = csr_mutex (mach w)"
    using osKernelStart_run [of w] by blast
  have "slots_of m' ! t \<in> {0..<8} \<union> {SLOT_S, SLOT_D}" if "t < 8" for t
    using m'(6) [OF that] start_slot_word(2) [OF that, of "mach w" "first_soft (mach w) [1..<8]"]
      thread_slot_typed [OF that] by (auto simp del: upt_rec_numeral One_nat_def)
  then have "slots_typed m'"
    by (simp add: slots_typed_nth)
  moreover have "slot_ready (w\<lparr>mach := m'\<rparr>)"
    using assms(1) m'(10-12) by (auto simp: slot_ready_def mutex_avail_def split: option.splits)
  moreover have "modes_match m'"
    using m'(3-5) assms(2,3)
    by (auto simp: modes_match_def sys_ok_def start_mode_word(1) is_soft_def)
  then have "sys_ok m'"
    using assms(2) m'(3,4,7-9) timers_placed_cong [of m' "mach w"] by (simp add: sys_ok_def)
  ultimately show ?thesis
    using m'(1) by simp
qed

text \<open>
  The state after \<^verbatim>\<open>osKernelInitialize\<close> when only thread 0 is live, as after start-up or
  inside \<^verbatim>\<open>osKernelReset\<close>.
\<close>

lemma initialised_ok:
  assumes "timers_placed m" "flexpret_thread_num m = 1" "\<And>t. 0 < t \<Longrightarrow> t < 8 \<Longrightarrow> \<not> live m t"
    "slots_typed m" "hart w < 8"
  shows "slot_ready (w\<lparr>mach := initialised m\<rparr>)" "sys_ok (initialised m)"
    "slots_typed (initialised m)" "priority_of (initialised m) 0 = osPriorityRealtime"
proof -
  have e: "live (initialised m) t \<longleftrightarrow> live m t" "kernel_state (initialised m) = osKernelReady"
    "flexpret_thread_num (initialised m) = flexpret_thread_num m"
    "u < 8 \<Longrightarrow> thread_attr_entry (initialised m) u = Some (Attr_static u)" for t u
    by (simp_all add: live_def initialised_def)
  have "priority_of (initialised m) 0 = osPriorityRealtime"
    by (simp add: priority_of_def initialised_def)
  moreover have "t = 0" if "live m t" "t < 8" for t
    using assms(3) that by blast
  moreover have "inj_on (thread_attr_entry (initialised m)) {..<8}"
    by (auto simp: inj_on_def e)
  moreover have "timers_placed (initialised m)"
    using assms(1) timers_placed_cong [of "initialised m" m] by (simp add: initialised_def)
  ultimately show "sys_ok (initialised m)"
    using assms(2) by (auto simp: sys_ok_def modes_match_def e)
  show "priority_of (initialised m) 0 = osPriorityRealtime"
    by (simp add: priority_of_def initialised_def)
  show "slots_typed (initialised m)"
    using assms(4) slots_of_cong [of "initialised m" m] by (simp add: slots_typed_def initialised_def)
  show "slot_ready (w\<lparr>mach := initialised m\<rparr>)"
    using assms(5) by (simp add: slot_ready_def mutex_avail_def initialised_def)
qed

text \<open>\<^verbatim>\<open>osKernelReset\<close> first goes back to the slots, modes and globals of start-up.\<close>

lemma reset_threads:
  "n \<le> 8 \<Longrightarrow> \<exists>st. for_each [1..<n] (\<lambda>i. bnd (init_stack i) (\<lambda>stack.
      st_upd i (\<lambda>st. st\<lparr>th_func := NULL, th_stack_address := stack, th_arg := NULL,
        th_state := FLEXPRET_INACTIVE\<rparr>))) w =
      Ret () (w\<lparr>mach := (mach w)\<lparr>startup_state := st\<rparr>\<rparr>) \<and> (\<forall>t. 0 < t \<longrightarrow> t < n \<longrightarrow> th_func (st t) = NULL)"
proof (induction n)
  case 0
  have "w = w\<lparr>mach := (mach w)\<lparr>startup_state := startup_state (mach w)\<rparr>\<rparr>" by simp
  then show ?case by (intro exI [of _ "startup_state (mach w)"]) simp
next
  case (Suc n)
  show ?case
  proof (cases "n = 0")
    case True
    have "w = w\<lparr>mach := (mach w)\<lparr>startup_state := startup_state (mach w)\<rparr>\<rparr>" by simp
    with True show ?thesis by (intro exI [of _ "startup_state (mach w)"]) simp
  next
    case False
    then have "[1..<Suc n] = [1..<n] @ [n]" by simp
    with Suc show ?thesis
      by (auto simp: for_each_snoc less_Suc_eq simp del: One_nat_def)
  qed
qed

lemma reset_handlers:
  "\<exists>h. for_each is (\<lambda>i. upd (\<lambda>m. m\<lparr>trap_handler_vector := f i (trap_handler_vector m)\<rparr>)) w =
    Ret () (w\<lparr>mach := (mach w)\<lparr>trap_handler_vector := h\<rparr>\<rparr>)"
proof (induction "is" arbitrary: w)
  case Nil
  have "w = w\<lparr>mach := (mach w)\<lparr>trap_handler_vector := trap_handler_vector (mach w)\<rparr>\<rparr>" by simp
  then show ?case by (intro exI [of _ "trap_handler_vector (mach w)"]) simp
next
  case (Cons i "is")
  show ?case
    using Cons [of "w\<lparr>mach := (mach w)\<lparr>trap_handler_vector := f i (trap_handler_vector (mach w))\<rparr>\<rparr>"] by simp
qed

lemma osKernelReset_run:
  "\<exists>m'. osKernelReset w = Ret osOK (w\<lparr>mach := initialised m'\<rparr>) \<and> timer_base m' = timer_base (mach w) \<and>
     flexpret_thread_num m' = 1 \<and> default_soft_slot_id m' = - 1 \<and> (\<forall>t. 0 < t \<longrightarrow> t < 8 \<longrightarrow> \<not> live m' t) \<and>
     csr_slots m' = 0xfffffff0 \<and> csr_tmodes m' = 0x5554 \<and>
     csr_timer m' = csr_timer (mach w) \<and> csr_compare m' = csr_compare (mach w)"
proof -
  let ?m1 = "(mach w)\<lparr>csr_slots := 0xfffffff0, csr_tmodes := 0x5554\<rparr>"
  obtain st where st: "for_each [1..<8] (\<lambda>i. bnd (init_stack i) (\<lambda>stack.
      st_upd i (\<lambda>st. st\<lparr>th_func := NULL, th_stack_address := stack, th_arg := NULL,
        th_state := FLEXPRET_INACTIVE\<rparr>))) (w\<lparr>mach := ?m1\<rparr>) =
      Ret () (w\<lparr>mach := ?m1\<lparr>startup_state := st\<rparr>\<rparr>)" "\<forall>t. 0 < t \<longrightarrow> t < 8 \<longrightarrow> th_func (st t) = NULL"
    using reset_threads [of 8 "w\<lparr>mach := ?m1\<rparr>"] by auto
  let ?m2 = "?m1\<lparr>startup_state := st, flexpret_thread_num := 1, default_soft_slot_id := - 1, flexpret_mutex_num := 0\<rparr>"
  obtain h where h: "for_each [0..<8] (\<lambda>i.
        upd (\<lambda>m. m\<lparr>trap_handler_vector := (trap_handler_vector m)(i := (trap_handler_vector m i)
          (0 := H_default_ie, 1 := H_default_ee, 2 := H_default_int, 3 := H_default_fault))\<rparr>)) (w\<lparr>mach := ?m2\<rparr>) =
      Ret () (w\<lparr>mach := ?m2\<lparr>trap_handler_vector := h\<rparr>\<rparr>)"
    using reset_handlers [of "[0..<8]" "\<lambda>i v. v(i := (v i) (0 := H_default_ie, 1 := H_default_ee,
      2 := H_default_int, 3 := H_default_fault))" "w\<lparr>mach := ?m2\<rparr>"] by (auto simp del: upt_rec_numeral)
  let ?m3 = "?m2\<lparr>trap_handler_vector := h\<rparr>"
  have cut: "(0x55555554 :: u16) = 0x5554" by simp
  have "osKernelReset w = osKernelInitialize (w\<lparr>mach := ?m3\<rparr>)"
    using st(1) h by (simp add: cut osKernelReset_def del: upt_rec_numeral One_nat_def)
  then have "osKernelReset w = Ret osOK (w\<lparr>mach := initialised ?m3\<rparr>)"
    using osKernelInitialize_run [of "w\<lparr>mach := ?m3\<rparr>"] by simp
  then show ?thesis
    using st(2) by (intro exI [of _ ?m3]) (simp add: live_def)
qed

text \<open>
  The states of the system, seen between the calls: start-up initialises the kernel; then any
  thread calls a service, or starts or resets the kernel, and time passes.
\<close>

inductive os_reach :: "machine \<Rightarrow> world \<Rightarrow> bool" for b where
  boot: "osKernelInitialize \<lparr>hart = 0, mach = b, sched = []\<rparr> = Ret r w \<Longrightarrow> os_reach b w"
| service: "os_reach b w \<Longrightarrow> allowed c w \<Longrightarrow> perform c w = Ret () w' \<Longrightarrow> os_reach b w'"
| start: "os_reach b w \<Longrightarrow> priority_of (mach w) 0 = osPriorityRealtime \<Longrightarrow> osKernelStart w = Ret r w' \<Longrightarrow>
    os_reach b w'"
| reset: "os_reach b w \<Longrightarrow> osKernelReset w = Ret r w' \<Longrightarrow> os_reach b w'"
| switch: "os_reach b w \<Longrightarrow> h < 8 \<Longrightarrow> os_reach b (w\<lparr>hart := h, mach := (mach w)\<lparr>csr_time := c\<rparr>\<rparr>)"

lemma boot_ok:
  "slots_typed (boot_machine ma ta mx be)" "flexpret_thread_num (boot_machine ma ta mx be) = 1"
  "flexpret_mutex_num (boot_machine ma ta mx be) = 0" "0 < t \<Longrightarrow> \<not> live (boot_machine ma ta mx be) t"
  by (simp_all add: slots_typed_def slots_of_def unpack_slots_def boot_machine_def live_def)

lemma slots_typed_reset: "csr_slots m = 0xfffffff0 \<Longrightarrow> slots_typed m"
  by (simp add: slots_typed_def slots_of_def unpack_slots_def)

lemma sys_ok_clock: "sys_ok (m\<lparr>csr_time := c\<rparr>) = sys_ok m"
proof -
  have *: "sys_ok m \<Longrightarrow> sys_ok (m\<lparr>csr_time := c\<rparr>)" for m c
    by (rule sys_ok_cong [of m]) (auto intro: priority_of_cong simp: live_def tmodes_of_def)
  from *[of m c] *[of "m\<lparr>csr_time := c\<rparr>" "csr_time m"] show ?thesis by auto
qed

lemma os_reach_ok:
  assumes "os_reach b w" "b = boot_machine ma ta mx be" "timers_placed b"
  shows "slot_ready w \<and> sys_ok (mach w) \<and> slots_typed (mach w)"
  using assms
proof induction
  case (boot r w)
  then have "w = \<lparr>hart = 0, mach = initialised b, sched = []\<rparr>"
    using osKernelInitialize_run [of "\<lparr>hart = 0, mach = b, sched = []\<rparr>"] by (simp add: boot_ok)
  with boot show ?case
    using initialised_ok [of b "\<lparr>hart = 0, mach = b, sched = []\<rparr>"] by (simp add: boot_ok)
next
  case (service w c w')
  then show ?case using call_returns [of w c] by auto
next
  case (start w r w')
  then show ?case using start_ok [of w] by auto
next
  case (reset w r w')
  obtain m' where m': "osKernelReset w = Ret osOK (w\<lparr>mach := initialised m'\<rparr>)" "timer_base m' = timer_base (mach w)"
    "flexpret_thread_num m' = 1" "\<forall>t. 0 < t \<longrightarrow> t < 8 \<longrightarrow> \<not> live m' t" "csr_slots m' = 0xfffffff0"
    using osKernelReset_run [of w] by blast
  have "timers_placed m'" "hart w < 8"
    using reset timers_placed_cong [OF m'(2)] by (simp_all add: sys_ok_def slot_ready_def)
  then show ?case
    using reset.hyps(2) m' initialised_ok [of m' w] slots_typed_reset [OF m'(5)] by auto
next
  case (switch w h c)
  then show ?case
    by (auto simp: sys_ok_clock slot_ready_def mutex_avail_def slots_typed_def slots_of_def split: option.splits)
qed

section \<open>Properties\<close>


text \<open>The placement of the linker and a run: a soft thread is created, then the kernel starts.\<close>

definition example_boot :: machine where
  "example_boot = boot_machine 0x200 0x20000100 0x20000200 0x20000600"

lemma example_boot_placed: "timers_placed example_boot"
  by (simp add: example_boot_def timers_placed_def timer_ptr_def boot_machine_def sizeof_hwtimer_state_def
      less_8_cases)

lemma example_reach:
  "\<exists>w. os_reach example_boot w \<and> live (mach w) 1 \<and> kernel_state (mach w) = osKernelRunning"
proof -
  let ?w0 = "\<lparr>hart = 0, mach = initialised example_boot, sched = []\<rparr>"
  let ?m1 = "created 1 0x300 NULL None (Attr_static 1) (initialised example_boot)"
  let ?w1 = "?w0\<lparr>mach := ?m1\<rparr>"
  note b = boot_ok [where ma = "0x200" and ta = "0x20000100" and mx = "0x20000200" and be = "0x20000600",
      folded example_boot_def]
  have r0: "os_reach example_boot ?w0"
    using osKernelInitialize_run [of "\<lparr>hart = 0, mach = example_boot, sched = []\<rparr>"] b(3)
    by (auto intro: os_reach.boot)
  have i: "slot_ready ?w0" "priority_of (initialised example_boot) 0 = osPriorityRealtime"
    using initialised_ok [of example_boot ?w0] b example_boot_placed by auto
  have f: "flexpret_thread_num (initialised example_boot) = 1" "kernel_state (initialised example_boot) = osKernelReady"
    "u < 8 \<Longrightarrow> thread_attr_entry (initialised example_boot) u = Some (Attr_static u)" for u
    using b(2) by (simp_all add: initialised_def)
  have "perform (New 0x300 NULL None) ?w0 = Ret () ?w1"
    using osThreadNew_run [OF i(1), of "0x300" 1 None NULL] f by (simp add: new_prio_def new_ref_def)
  then have r1: "os_reach example_boot ?w1"
    by (rule os_reach.service [OF r0, rotated]) simp
  have p: "priority_of ?m1 0 = osPriorityRealtime"
    using i(2) f(3) [of 0] by (simp add: priority_of_def)
  have "thread_attr_entry (mach ?w1) t \<noteq> None" if "t < 8" for t
    using f(3) [OF that] by simp
  from osKernelStart_run [OF this] obtain m' where m': "osKernelStart ?w1 = Ret osOK (?w1\<lparr>mach := m'\<rparr>)"
    "kernel_state m' = osKernelRunning" "\<And>t. live m' t = live (mach ?w1) t"
    by metis
  have "os_reach example_boot (?w1\<lparr>mach := m'\<rparr>)"
    using os_reach.start [OF r1 _ m'(1)] p by simp
  moreover have "live m' 1"
    unfolding m'(3) by (simp add: live_updates)
  ultimately show ?thesis
    using m'(2) by (intro exI [of _ "?w1\<lparr>mach := m'\<rparr>"]) simp
qed


text \<open>
  C34: in those states the slot register holds nothing but identifiers of the eight threads and
  the values of soft and free slots.
\<close>

theorem slot_register_typed:
  assumes "os_reach (boot_machine main_addr timers mutexes bss_end) w"
    and "timers_placed (boot_machine main_addr timers mutexes bss_end)" "s \<in> set (slots_of (mach w))"
  shows "s < 8 \<or> s = SLOT_S \<or> s = SLOT_D"
  using os_reach_ok [OF assms(1) refl assms(2)] assms(3) by (auto simp: slots_typed_def)

theorem slot_register_typed_witness:
  "\<exists>w. os_reach example_boot w \<and> live (mach w) 1 \<and>
    (hd (slots_of (mach w)) < 8 \<or> hd (slots_of (mach w)) = SLOT_S \<or> hd (slots_of (mach w)) = SLOT_D)"
proof -
  obtain w where w: "os_reach example_boot w" "live (mach w) 1"
    using example_reach by blast
  have "slots_of (mach w) \<noteq> []"
    by (metis length_slots_of list.size(3) zero_neq_numeral)
  with w slot_register_typed [OF w(1) [unfolded example_boot_def] example_boot_placed [unfolded example_boot_def]]
  show ?thesis by (intro exI [of _ w]) auto
qed

text \<open>Which threads have a slot in the table the loop has made.\<close>

lemma start_slots_own:
  assumes slots: "\<And>u. u < 8 \<Longrightarrow> slots_of m' ! u = (if u = 0 then 0 else word_of_int (start_slot m fs u))"
    and t: "0 < t" "t < 8"
  shows "of_nat t \<in> set (slots_of m') \<longleftrightarrow> live m t \<and> priority_of m t = osPriorityRealtime"
proof -
  have "slots_of m' ! u = of_nat t \<longleftrightarrow> u = t \<and> live m t \<and> priority_of m t = osPriorityRealtime"
    if "u < 8" for u
    using start_slot_word(2,3) [OF that, of m fs] thread_slot(1,2) [OF t(2)] of_nat_u8_inj [OF t(2) that]
      slots [OF that] t(1) of_nat_u8_inj [OF t(2), of 0]
    by (auto simp del: upt_rec_numeral One_nat_def)
  then show ?thesis
    using t(2) by (auto simp: in_set_conv_nth)
qed

lemma start_slots_soft:
  assumes slots: "\<And>u. u < 8 \<Longrightarrow> slots_of m' ! u = (if u = 0 then 0 else word_of_int (start_slot m (first_soft m [1..<8]) u))"
  shows "SLOT_S \<in> set (slots_of m') \<longleftrightarrow> first_soft m [1..<8] \<noteq> None"
proof -
  let ?fs = "first_soft m [1..<8]"
  have "slots_of m' ! u = SLOT_S \<longleftrightarrow> u \<noteq> 0 \<and> ?fs = Some u" if "u < 8" for u
    using start_slot_word(4) [OF that, of m ?fs] first_soft_Some [of m "[1..<8]" u] slots [OF that]
    by (auto simp del: upt_rec_numeral One_nat_def)
  then show ?thesis
    using first_soft_Some [of m "[1..<8]"] by (fastforce simp: in_set_conv_nth simp del: upt_rec_numeral One_nat_def)
qed



text \<open>
  C21: \<^verbatim>\<open>osKernelReset\<close> ends every thread but thread 0, frees the slots, the modes and all mutexes,
  and leaves the kernel ready for another start; but it does not disarm the timers: the compare
  registers stay as they were, with the default handlers installed.
\<close>

theorem osKernelReset_spec:
  "\<exists>w'. osKernelReset w = Ret osOK w' \<and> (let m = mach w; m' = mach w' in
    kernel_state m' = osKernelReady \<and> flexpret_thread_num m' = 1 \<and> (\<forall>t. 0 < t \<longrightarrow> t < 8 \<longrightarrow> \<not> live m' t) \<and>
    slots_of m' = [0, SLOT_D, SLOT_D, SLOT_D, SLOT_D, SLOT_D, SLOT_D, SLOT_D] \<and> tmodes_of m' = [0, 1, 1, 1, 1, 1, 1, 1] \<and>
    slot_mutex m' = Some 0 \<and> mutex_avail m' 0 \<and> (\<forall>i. 0 < i \<longrightarrow> i < 8 \<longrightarrow> \<not> mu_active (startup_mutex_state m' i)) \<and>
    (\<forall>t. t < 8 \<longrightarrow> timer_attr_entry m' t = None) \<and>
    csr_timer m' = csr_timer m \<and> csr_compare m' = csr_compare m)"
proof -
  obtain m' where m': "osKernelReset w = Ret osOK (w\<lparr>mach := initialised m'\<rparr>)"
    "flexpret_thread_num m' = 1" "\<forall>t. 0 < t \<longrightarrow> t < 8 \<longrightarrow> \<not> live m' t"
    "csr_slots m' = 0xfffffff0" "csr_tmodes m' = 0x5554"
    "csr_timer m' = csr_timer (mach w)" "csr_compare m' = csr_compare (mach w)"
    using osKernelReset_run [of w] by blast
  have "slots_of (initialised m') = [0, SLOT_D, SLOT_D, SLOT_D, SLOT_D, SLOT_D, SLOT_D, SLOT_D]" "tmodes_of (initialised m') = [0, 1, 1, 1, 1, 1, 1, 1]"
    using m'(4,5) by (simp_all add: slots_of_def unpack_slots_def tmodes_of_def unpack_tmodes_def
        initialised_def)
  then show ?thesis
    using m' by (simp add: Let_def initialised_def live_def mutex_avail_def)
qed

theorem osKernelReset_spec_witness:
  "\<exists>w'. osKernelReset (example_run 3 []) = Ret osOK w' \<and> \<not> live (mach w') 1"
  using osKernelReset_spec [of "example_run 3 []"] by (auto simp: Let_def)

section \<open>Version information\<close>

lemma hex_digits_0_1: "hex_digits 8 0 = ''00000000''" "hex_digits 8 1 = ''00000001''"
  by code_simp+

lemma version_digits:
  "KERNEL_VER_MAJOR FLEXPRET_OS_VERSION = 1" "KERNEL_VER_MINOR FLEXPRET_OS_VERSION = 0"
  "KERNEL_VER_PATCHLEVEL FLEXPRET_OS_VERSION = 0"
  by code_simp+

text \<open>Printing such a digit, followed by whatever comes next.\<close>

lemma print_digit:
  assumes "hart w < 8" "qbuf_ok (mach w)" "v \<in> {0, 1}"
  obtains w' where "itoa_hex_removing_ldz v w = Ret [if v = 0 then CHR ''0'' else CHR ''1''] w'" "hart w' = hart w"
    "qbuf_ok (mach w')"
proof -
  have "skip_zeros 0 (hex_digits 8 v @ [NUL]) = 7"
    using assms(3) by (auto simp: hex_digits_0_1) (simp_all add: skip_zeros.simps)
  then show ?thesis
    using that [of "w\<lparr>mach := (mach w)\<lparr>qbuf := (qbuf (mach w))(hart w := hex_digits 8 v @ [NUL])\<rparr>\<rparr>"]
      itoa_hex_removing_ldz_run [OF assms(1,2) refl, of v] assms(2,3)
    by (auto simp: hex_digits_0_1 qbuf_ok_def)
qed

lemma put_string_run:
  "NUL \<notin> set s \<Longrightarrow> pos + min (length s) (unat n) < length b \<Longrightarrow>
    put_string b pos s n w = Ret (take pos b @ take (unat n) s @ NUL # drop (Suc (pos + min (length s) (unat n))) b) w"
  using strncpy_loop_Some [of s pos n b "[]"] by (simp add: put_string_def strncpy_def)

lemma put_string_fault:
  "NUL \<notin> set s \<Longrightarrow> length b \<le> pos + min (length s) (unat n) \<Longrightarrow> put_string b pos s n w = Fault Bad_Index"
  using strncpy_loop_None [of s b pos n "[]"] by (simp add: put_string_def strncpy_def)

text \<open>One pass of the loop for a digit, when it fits with the separator and when it does not.\<close>

lemma info_step:
  assumes "hart w < 8" "qbuf_ok (mach w)" "v \<in> {0, 1}" "1 \<le> id_size" "pos + 2 < length b"
    and "j = Suc i" "pos' = pos + 2" "b' = take pos b @ (if v = 0 then CHR ''0'' else CHR ''1'') #
        (if i \<noteq> 2 then CHR ''.'' else CHR 0x0A) # NUL # drop (pos + 3) b"
  shows "\<exists>w'. info_loop i (v # vs) b pos id_size w = info_loop j vs b' pos' (id_size - 2) w' \<and>
    hart w' < 8 \<and> qbuf_ok (mach w')"
proof -
  define c where "c = (if v = 0 then CHR ''0'' else CHR ''1'')"
  define d where "d = (if i \<noteq> 2 then CHR ''.'' else CHR 0x0A)"
  obtain w' where w': "itoa_hex_removing_ldz v w = Ret [c] w'" "hart w' = hart w" "qbuf_ok (mach w')"
    using print_digit [OF assms(1-3)] unfolding c_def by blast
  have cd: "c \<noteq> NUL" "d \<noteq> NUL"
    by (simp_all add: c_def d_def)
  have 1: "put_string (replicate 9 NUL) 0 [c] 1 w' = Ret (c # replicate 8 NUL) w'"
    using put_string_run [of "[c]" 0 1 "replicate 9 NUL" w'] cd by (simp add: eval_nat_numeral)
  have 2: "put_string b pos [c] 1 w' = Ret (take pos b @ c # NUL # drop (pos + 2) b) w'"
    using put_string_run [of "[c]" pos 1 b w'] cd assms(5) by simp
  have 3: "put_string (take pos b @ c # NUL # drop (pos + 2) b) (pos + 1) [d] 1 w' =
      Ret (take pos b @ c # d # NUL # drop (pos + 3) b) w'"
    using put_string_run [of "[d]" "pos + 1" 1 "take pos b @ c # NUL # drop (pos + 2) b" w'] cd assms(5)
    by (simp add: numeral_3_eq_3)
  have "info_loop i (v # vs) b pos id_size w =
      info_loop (Suc i) vs (take pos b @ c # d # NUL # drop (pos + 3) b) (pos + 2) (id_size - 2) w'"
    using assms(4) w'(1) 1 2 3 cd by (cases "i = 2") (simp_all add: Let_def d_def)
  then show ?thesis
    using w'(2,3) assms(1,6-8) unfolding c_def d_def by (metis add_2_eq_Suc')
qed

lemma info_overflow:
  assumes "hart w < 8" "qbuf_ok (mach w)" "v \<in> {0, 1}" "1 \<le> id_size" "length b = pos + 2"
  shows "info_loop i (v # vs) b pos id_size w = Fault Bad_Index"
proof -
  define c where "c = (if v = 0 then CHR ''0'' else CHR ''1'')"
  obtain w' where w': "itoa_hex_removing_ldz v w = Ret [c] w'"
    using print_digit [OF assms(1-3)] unfolding c_def by blast
  have cd: "c \<noteq> NUL"
    by (simp add: c_def)
  have 1: "put_string (replicate 9 NUL) 0 [c] 1 w' = Ret (c # replicate 8 NUL) w'"
    using put_string_run [of "[c]" 0 1 "replicate 9 NUL" w'] cd by (simp add: eval_nat_numeral)
  have 2: "put_string b pos [c] 1 w' = Ret (take pos b @ [c, NUL]) w'"
    using put_string_run [of "[c]" pos 1 b w'] cd assms(5) by simp
  have 3: "put_string (take pos b @ [c, NUL]) (pos + 1) [d] 1 w' = Fault Bad_Index" if "d \<noteq> NUL" for d
    using put_string_fault [of "[d]" "take pos b @ [c, NUL]" "pos + 1" 1 w'] that assms(5) by simp
  show ?thesis
    using assms(4) w' 1 2 3 [of "CHR ''.''"] 3 [of "CHR 0x0A"] cd by (simp add: Let_def)
qed

text \<open>After one, two and three numbers of the version, when the buffer is long enough for them.\<close>

abbreviation (input) info_1 where "info_1 b \<equiv> ''1.'' @ NUL # drop 3 b"
abbreviation (input) info_2 where "info_2 b \<equiv> ''1.0.'' @ NUL # drop 5 b"
abbreviation (input) info_3 where "info_3 b \<equiv> ''1.0.0'' @ CHR 0x0A # NUL # drop 7 b"

lemma info_one:
  assumes "hart w < 8" "qbuf_ok (mach w)" "1 \<le> n" "4 \<le> length b"
  shows "\<exists>w'. info_loop 0 [1, 0, 0] b 0 n w = info_loop 1 [0, 0] (info_1 b) 2 (n - 2) w' \<and> hart w' < 8 \<and> qbuf_ok (mach w')"
  by (rule info_step [OF assms(1,2)]) (use assms(3,4) in simp_all)

lemma info_two:
  assumes "hart w < 8" "qbuf_ok (mach w)" "1 \<le> n" "1 \<le> n - 2" "6 \<le> length b"
  shows "\<exists>w'. info_loop 0 [1, 0, 0] b 0 n w = info_loop 2 [0] (info_2 b) 4 (n - 2 - 2) w' \<and> hart w' < 8 \<and> qbuf_ok (mach w')"
proof -
  obtain w1 where w1: "info_loop 0 [1, 0, 0] b 0 n w = info_loop 1 [0, 0] (info_1 b) 2 (n - 2) w1" "hart w1 < 8" "qbuf_ok (mach w1)"
    using info_one [OF assms(1-3), of b] assms(5) by (auto simp del: info_loop.simps)
  show ?thesis
    unfolding w1(1) by (rule info_step [OF w1(2,3)]) (use assms(4,5) in simp_all)
qed

lemma info_three:
  assumes "hart w < 8" "qbuf_ok (mach w)" "1 \<le> n" "1 \<le> n - 2" "1 \<le> n - 2 - 2" "7 \<le> length b"
  shows "\<exists>w'. info_loop 0 [1, 0, 0] b 0 n w = info_loop 3 [] (info_3 b) 6 (n - 2 - 2 - 2) w' \<and> hart w' < 8 \<and> qbuf_ok (mach w')"
proof -
  obtain w2 where w2: "info_loop 0 [1, 0, 0] b 0 n w = info_loop 2 [0] (info_2 b) 4 (n - 2 - 2) w2" "hart w2 < 8" "qbuf_ok (mach w2)"
    using info_two [OF assms(1-4), of b] assms(6) by (auto simp del: info_loop.simps)
  show ?thesis
    unfolding w2(1) by (rule info_step [OF w2(2,3)]) (use assms(5,6) in simp_all)
qed

lemma info_fails:
  assumes "hart w < 8" "qbuf_ok (mach w)" "1 \<le> n" "4 \<le> length b \<Longrightarrow> 1 \<le> n - 2" "6 \<le> length b \<Longrightarrow> 1 \<le> n - 2 - 2"
    and "length b \<in> {2, 4, 6}"
  shows "info_loop 0 [1, 0, 0] b 0 n w = Fault Bad_Index"
proof -
  from assms(6) consider "length b = 2" | "length b = 4" | "length b = 6" by auto
  then show ?thesis
  proof cases
    case 1
    then show ?thesis
      using info_overflow [OF assms(1,2), of 1 n b 0 0 "[0, 0]"] assms(3) by (simp del: info_loop.simps)
  next
    case 2
    then obtain w1 where w1: "info_loop 0 [1, 0, 0] b 0 n w = info_loop 1 [0, 0] (info_1 b) 2 (n - 2) w1" "hart w1 < 8" "qbuf_ok (mach w1)"
      using info_one [OF assms(1-3), of b] by (auto simp del: info_loop.simps)
    show ?thesis
      unfolding w1(1) by (rule info_overflow [OF w1(2,3)]) (use assms(4) 2 in simp_all)
  next
    case 3
    then obtain w2 where w2: "info_loop 0 [1, 0, 0] b 0 n w = info_loop 2 [0] (info_2 b) 4 (n - 2 - 2) w2" "hart w2 < 8" "qbuf_ok (mach w2)"
      using info_two [OF assms(1-3) assms(4), of b] by (auto simp del: info_loop.simps)
    show ?thesis
      unfolding w2(1) by (rule info_overflow [OF w2(2,3)]) (use assms(5) 3 in simp_all)
  qed
qed

text \<open>
  \<^verbatim>\<open>osKernelGetInfo\<close> with a version record and a buffer of at least seven bytes, of which
  it is told, writes the text 1.0.0, a newline and the terminator. But told the size of a
  buffer of two, four or six bytes it writes behind its end.
\<close>

theorem osKernelGetInfo_spec:
  assumes "hart w < 8" "qbuf_ok (mach w)" "unat id_size = length b" "7 \<le> length b \<or> length b \<in> {2, 4, 6}"
  shows "if 7 \<le> length b
    then \<exists>w'. osKernelGetInfo True (Some b) id_size w =
      Ret (osOK, Some (FLEXPRET_OS_VERSION, FLEXPRET_OS_VERSION), Some (''1.0.0'' @ [CHR 0x0A, NUL] @ drop 7 b)) w'
    else osKernelGetInfo True (Some b) id_size w = Fault Bad_Index"
proof -
  let ?n = "id_size - 1"
  have start: "osKernelGetInfo True (Some b) id_size w = bnd (info_loop 0 [1, 0, 0] b 0 ?n)
      (\<lambda>b. ret (osOK, Some (FLEXPRET_OS_VERSION, FLEXPRET_OS_VERSION), Some b)) w"
    using assms(3,4) by (auto simp: osKernelGetInfo_def version_digits Let_def)
  have le: "1 \<le> ?n" "4 \<le> length b \<Longrightarrow> 1 \<le> ?n - 2" "6 \<le> length b \<Longrightarrow> 1 \<le> ?n - 2 - 2"
    using assms(3,4) by (auto simp: word_le_nat_alt unat_sub_if_size)
  show ?thesis
  proof (cases "7 \<le> length b")
    case True
    then obtain w' where "info_loop 0 [1, 0, 0] b 0 ?n w = info_loop 3 [] (info_3 b) 6 (?n - 2 - 2 - 2) w'"
      using info_three [OF assms(1,2) le(1) le(2) le(3)] by (auto simp del: info_loop.simps)
    with True start show ?thesis by simp
  next
    case False
    with assms(4) have "info_loop 0 [1, 0, 0] b 0 ?n w = Fault Bad_Index"
      by (intro info_fails [OF assms(1,2) le]) simp_all
    with False start show ?thesis by (simp del: info_loop.simps)
  qed
qed

theorem osKernelGetInfo_spec_witness:
  "\<exists>w'. osKernelGetInfo True (Some (replicate 8 (CHR ''x''))) 8 (example_run 0 []) =
      Ret (osOK, Some (FLEXPRET_OS_VERSION, FLEXPRET_OS_VERSION),
        Some (''1.0.0'' @ [CHR 0x0A, NUL, CHR ''x''])) w' \<and>
    osKernelGetInfo True (Some (replicate 4 (CHR ''x''))) 4 (example_run 0 []) = Fault Bad_Index"
proof -
  have "qbuf_ok example_system"
    by (simp add: qbuf_ok_def example_system_def example_machine_def boot_machine_def)
  moreover have "drop 7 (replicate 8 (CHR ''x'')) = [CHR ''x'']"
    by (simp add: eval_nat_numeral)
  ultimately show ?thesis
    using osKernelGetInfo_spec [of "example_run 0 []" 8 "replicate 8 (CHR ''x'')"]
      osKernelGetInfo_spec [of "example_run 0 []" 4 "replicate 4 (CHR ''x'')"] by simp
qed

end
