(* ===== verification/Interrupts.thy ===== *)
theory Interrupts
  imports Timing
begin

text \<open>
  Traps from end to end: the hardware takes one when an armed timer expires or a deadline is
  missed, \<^verbatim>\<open>trap_entry\<close> of \<^verbatim>\<open>src/os/asm/trap.S\<close> calls the handler installed for the thread, and
  the handlers of \<^verbatim>\<open>flexpret_trap.c\<close> and \<^verbatim>\<open>flexpret_timing.c\<close> run. The other timing instructions of
  \<^verbatim>\<open>include/flexpret_timing.h\<close> are here, too. Callbacks and handlers of the application are the
  arguments \<open>call\<close> and \<open>user\<close>.
\<close>

section \<open>Instructions\<close>

text \<open>
  \<^verbatim>\<open>WU\<close> sleeps like \<^verbatim>\<open>DU\<close> but goes on with the next instruction however the thread was woken:
  by its compare value, or by another thread that made its mode active.
\<close>

definition asleep :: "machine \<Rightarrow> nat \<Rightarrow> bool" where
  "asleep m h \<longleftrightarrow> bit (csr_tmodes m) (2 * h)"

function sleep_until_woken :: "unit os" where
  "sleep_until_woken w =
     (if \<not> asleep (mach w) (hart w) then Ret () w
      else case sched w of
          [] \<Rightarrow> Blocked w
        | e # es \<Rightarrow> sleep_until_woken (w\<lparr>mach := du_wake (hart w) (e (mach w)), sched := es\<rparr>))"
  by pat_completeness auto
termination
  by (relation "measure (\<lambda>w. length (sched w))") auto

declare sleep_until_woken.simps [simp del]

definition wait_until :: "unit os" where
  "wait_until w =
     (if expired (mach w) (hart w) then Ret () w
      else sleep_until_woken (w\<lparr>mach := du_sleep (hart w) (mach w)\<rparr>))"

text \<open>\<^verbatim>\<open>mt\<close> and \<^verbatim>\<open>mti\<close> set a deadline relative to now; \<^verbatim>\<open>mti\<close> has an immediate of 20 bits.\<close>

definition mt :: "u32 \<Rightarrow> unit os" where
  "mt reg = bnd my_hart (\<lambda>h. upd (\<lambda>m. m\<lparr>csr_mtfd := (csr_mtfd m)(h := csr_time m + reg)\<rparr>))"

definition mti :: "20 word \<Rightarrow> unit os" where
  "mti imm = mt (ucast imm)"

definition enable_interrupts :: "unit os" where
  "enable_interrupts = bnd my_hart (\<lambda>h. upd (\<lambda>m. m\<lparr>csr_ie := (csr_ie m)(h := True)\<rparr>))"

definition disable_interrupts :: "unit os" where
  "disable_interrupts = bnd my_hart (\<lambda>h. upd (\<lambda>m. m\<lparr>csr_ie := (csr_ie m)(h := False)\<rparr>))"

section \<open>Taking a trap\<close>

definition run_handler :: "(addr \<Rightarrow> addr \<Rightarrow> unit os) \<Rightarrow> (nat \<Rightarrow> unit os) \<Rightarrow> trap_handler \<Rightarrow> unit os" where
  "run_handler call user k = (case k of
       H_NULL \<Rightarrow> (\<lambda>w. Fault Null_Deref)
     | H_default_ie \<Rightarrow> default_ie_handler
     | H_default_ee \<Rightarrow> default_ee_handler
     | H_default_int \<Rightarrow> default_int_handler
     | H_default_fault \<Rightarrow> default_fault_handler
     | H_timer \<Rightarrow> timer_handler call
     | H_timer_periodic \<Rightarrow> timer_periodic_handler call
     | H_user n \<Rightarrow> user n)"

text \<open>
  The hardware notes the cause and disables interrupts; \<^verbatim>\<open>trap_ret\<close> enables them again. That
  the registers of the thread are saved and restored is below the model.
\<close>

definition take_trap :: "(addr \<Rightarrow> addr \<Rightarrow> unit os) \<Rightarrow> (nat \<Rightarrow> unit os) \<Rightarrow> u32 \<Rightarrow> unit os" where
  "take_trap call user cause =
     bnd my_hart (\<lambda>h.
     seqm (upd (\<lambda>m. m\<lparr>csr_cause := (csr_cause m)(h := cause)\<rparr>))
     (seqm disable_interrupts
     (seqm (idx h FLEXPRET_HW_THREADS_NUMS)
     (bnd (os_read_csr CSR_CAUSE) (\<lambda>a0.
     bnd (rdm (\<lambda>m. trap_handler_vector m h (nat (fst (trap_entry a0))))) (\<lambda>k.
     seqm (run_handler call user k)
     enable_interrupts))))))"

text \<open>
  An armed and expired timer interrupts when interrupts are enabled; it is not armed any more
  (\<^verbatim>\<open>src/Core/csr.scala\<close>).
\<close>

definition expire_interrupt :: "(addr \<Rightarrow> addr \<Rightarrow> unit os) \<Rightarrow> (nat \<Rightarrow> unit os) \<Rightarrow> unit os" where
  "expire_interrupt call user =
     bnd my_hart (\<lambda>h.
     bnd (rdm (\<lambda>m. csr_timer m h = TIMER_IE \<and> expired m h \<and> csr_ie m h)) (\<lambda>taken.
     whenm taken
       (seqm (upd (\<lambda>m. m\<lparr>csr_timer := (csr_timer m)(h := TIMER_OFF)\<rparr>))
        (take_trap call user 0x8000000d))))"

text \<open>\<^verbatim>\<open>fd\<close>: an exception if the deadline, when there is one, has passed.\<close>

definition fd :: "(addr \<Rightarrow> addr \<Rightarrow> unit os) \<Rightarrow> (nat \<Rightarrow> unit os) \<Rightarrow> unit os" where
  "fd call user =
     bnd my_hart (\<lambda>h.
     bnd (rdm (\<lambda>m. csr_mtfd m h \<noteq> 0 \<and> \<not> bit (csr_time m - csr_mtfd m h) 31)) (\<lambda>missed.
     whenm missed (take_trap call user 0xf)))"

section \<open>What a trap does\<close>

lemma disable_interrupts_app [simp]: "disable_interrupts w =
    Ret () (w\<lparr>mach := (mach w)\<lparr>csr_ie := (csr_ie (mach w))(hart w := False)\<rparr>\<rparr>)"
  by (simp add: disable_interrupts_def)

lemma enable_interrupts_app [simp]: "enable_interrupts w =
    Ret () (w\<lparr>mach := (mach w)\<lparr>csr_ie := (csr_ie (mach w))(hart w := True)\<rparr>\<rparr>)"
  by (simp add: enable_interrupts_def)

text \<open>The state in which a handler starts.\<close>

definition trapped :: "u32 \<Rightarrow> world \<Rightarrow> world" where
  "trapped cause w = w\<lparr>mach := (mach w)\<lparr>csr_cause := (csr_cause (mach w))(hart w := cause),
     csr_ie := (csr_ie (mach w))(hart w := False)\<rparr>\<rparr>"

lemma trapped_simps [simp]:
  "hart (trapped c w) = hart w" "sched (trapped c w) = sched w"
  "csr_time (mach (trapped c w)) = csr_time (mach w)"
  "csr_compare (mach (trapped c w)) = csr_compare (mach w)"
  "csr_timer (mach (trapped c w)) = csr_timer (mach w)"
  "startup_timer_state (mach (trapped c w)) = startup_timer_state (mach w)"
  "trap_handler_vector (mach (trapped c w)) = trap_handler_vector (mach w)"
  "timer_attr_entry (mach (trapped c w)) = timer_attr_entry (mach w)"
  "timer_base (mach (trapped c w)) = timer_base (mach w)"
  "qbuf (mach (trapped c w)) = qbuf (mach w)"
  "emulator_out (mach (trapped c w)) = emulator_out (mach w)"
  by (simp_all add: trapped_def)

lemma take_trap_eq:
  "hart w < 8 \<Longrightarrow> take_trap call user cause w =
    seqm (run_handler call user (trap_handler_vector (mach w) (hart w) (nat (fst (trap_entry cause)))))
      enable_interrupts (trapped cause w)"
  by (simp add: take_trap_def trapped_def exec_eqs del: exec_conds)

lemma trap_entry_expire [simp]: "trap_entry 0x8000000d = (0, 0)" "trap_entry 0xf = (1, 0)"
  by (simp_all add: trap_entry_def)

lemma expire_interrupt_eq:
  assumes "hart w < 8" "csr_timer (mach w) (hart w) = TIMER_IE" "expired (mach w) (hart w)" "csr_ie (mach w) (hart w)"
  shows "expire_interrupt call user w =
    seqm (run_handler call user (trap_handler_vector (mach w) (hart w) 0)) enable_interrupts
      (trapped 0x8000000d (w\<lparr>mach := (mach w)\<lparr>csr_timer := (csr_timer (mach w))(hart w := TIMER_OFF)\<rparr>\<rparr>))"
  using assms by (simp add: expire_interrupt_def take_trap_eq)

section \<open>Periodic timers\<close>

text \<open>A callback that takes \<open>c\<close> clock ticks and leaves the timer of \<open>h\<close> alone.\<close>

definition takes :: "(addr \<Rightarrow> addr \<Rightarrow> unit os) \<Rightarrow> nat \<Rightarrow> u32 \<Rightarrow> bool" where
  "takes call h c \<longleftrightarrow> (\<forall>f a v. hart v = h \<longrightarrow> (\<exists>m. call f a v = Ret () (v\<lparr>mach := m\<rparr>) \<and>
     csr_time m = csr_time (mach v) + c \<and> startup_timer_state m h = startup_timer_state (mach v) h \<and>
     trap_handler_vector m h = trap_handler_vector (mach v) h))"

definition ticking :: "nat \<Rightarrow> u32 \<Rightarrow> machine \<Rightarrow> bool" where
  "ticking h n m \<longleftrightarrow> h < 8 \<and> csr_timer m h = TIMER_IE \<and> csr_ie m h \<and>
     trap_handler_vector m h 0 = H_timer_periodic \<and> tm_ticks (startup_timer_state m h) = n"

lemma periodic_interrupt:
  assumes "ticking (hart w) n (mach w)" "expired (mach w) (hart w)" "takes call (hart w) c"
  shows "\<exists>w'. expire_interrupt call user w = Ret () w' \<and> hart w' = hart w \<and> ticking (hart w) n (mach w') \<and>
    csr_compare (mach w') (hart w) = csr_time (mach w) + c + n"
proof -
  let ?h = "hart w"
  let ?v = "trapped 0x8000000d (w\<lparr>mach := (mach w)\<lparr>csr_timer := (csr_timer (mach w))(?h := TIMER_OFF)\<rparr>\<rparr>)"
  let ?tm = "startup_timer_state (mach w) ?h"
  obtain m where m: "call (tm_func ?tm) (tm_arg ?tm) ?v = Ret () (?v\<lparr>mach := m\<rparr>)"
    "csr_time m = csr_time (mach w) + c" "startup_timer_state m ?h = ?tm"
    "trap_handler_vector m ?h = trap_handler_vector (mach w) ?h"
    using assms(3) [unfolded takes_def, rule_format, of ?v "tm_func ?tm" "tm_arg ?tm"] by auto
  have h: "?h < 8" "trap_handler_vector (mach w) ?h 0 = H_timer_periodic" "tm_ticks ?tm = n"
    using assms(1) by (simp_all add: ticking_def)
  have "run_handler call user H_timer_periodic ?v = Ret () (w\<lparr>mach := m
    \<lparr>csr_compare := (csr_compare m)(?h := n + csr_time m), csr_timer := (csr_timer m)(?h := TIMER_IE)\<rparr>\<rparr>)"
    using h m by (simp add: run_handler_def timer_periodic_handler_def exec_eqs trapped_def del: exec_conds)
  with expire_interrupt_eq [of w call user] assms(1,2) h m show ?thesis
    by (simp add: ticking_def add.commute)
qed

text \<open>
  The timer fires over and over: time runs to its compare value and \<open>d\<close> ticks further, until
  the interrupt is taken.
\<close>

fun run_periods :: "(nat \<Rightarrow> unit os) \<Rightarrow> (u32 \<times> (addr \<Rightarrow> addr \<Rightarrow> unit os)) list \<Rightarrow> unit os" where
  "run_periods user [] = ret ()"
| "run_periods user ((d, call) # ps) =
     bnd my_hart (\<lambda>h.
     seqm (upd (\<lambda>m. m\<lparr>csr_time := csr_compare m h + d\<rparr>))
     (seqm (expire_interrupt call user)
     (run_periods user ps)))"

lemma run_periods_Ret:
  "ticking (hart w) n (mach w) \<Longrightarrow> (\<And>d c call. (d, c, call) \<in> set ps \<Longrightarrow> d < 0x80000000 \<and> takes call (hart w) c) \<Longrightarrow>
    \<exists>w'. run_periods user (map (\<lambda>(d, c, call). (d, call)) ps) w = Ret () w' \<and> hart w' = hart w \<and>
      ticking (hart w) n (mach w') \<and> csr_compare (mach w') (hart w) =
        csr_compare (mach w) (hart w) + of_nat (length ps) * n + sum_list (map (\<lambda>(d, c, call). d + c) ps)"
proof (induction ps arbitrary: w)
  case Nil
  then show ?case by simp
next
  case (Cons p ps)
  obtain d c call where p: "p = (d, c, call)" by (cases p)
  let ?w = "w\<lparr>mach := (mach w)\<lparr>csr_time := csr_compare (mach w) (hart w) + d\<rparr>\<rparr>"
  have d: "d < 0x80000000" "takes call (hart w) c"
    using Cons.prems(2) [of d c call] by (simp_all add: p)
  have "ticking (hart ?w) n (mach ?w)" "expired (mach ?w) (hart ?w)"
    using Cons.prems(1) d(1) by (simp_all add: ticking_def expired_def bit_31_iff not_le)
  from periodic_interrupt [OF this, of call c user] d(2) obtain w1 where
    w1: "expire_interrupt call user ?w = Ret () w1" "hart w1 = hart w" "ticking (hart w1) n (mach w1)"
      "csr_compare (mach w1) (hart w1) = csr_compare (mach w) (hart w) + d + c + n"
    by auto
  from Cons.IH [OF w1(3)] Cons.prems(2) w1(2) obtain w2 where
    "run_periods user (map (\<lambda>(d, c, call). (d, call)) ps) w1 = Ret () w2" "hart w2 = hart w"
    "ticking (hart w) n (mach w2)" "csr_compare (mach w2) (hart w) =
        csr_compare (mach w1) (hart w) + of_nat (length ps) * n + sum_list (map (\<lambda>(d, c, call). d + c) ps)"
    by fastforce
  with w1 show ?case
    by (simp add: p algebra_simps)
qed

section \<open>The default handler\<close>

lemma default_ie_handler_run:
  assumes "hart w < 8" "qbuf_ok (mach w)"
  shows "\<exists>w' out. default_ie_handler w = Ret () w' \<and>
    emulator_out (mach w') = emulator_out (mach w) @ ''Thread '' @ out @ '' trapped in ie.'' @ [CHR 0x0A]"
proof -
  let ?k = "skip_zeros 0 (hex_digits 8 (of_nat (hart w)) @ [NUL])"
  let ?d = "drop ?k (hex_digits 8 (of_nat (hart w)))"
  have "NUL \<notin> set ?d"
    using NUL_notin_hex_digits by (meson in_set_dropD)
  then have d: "takeWhile (\<lambda>c. c \<noteq> NUL) ?d = ?d"
    by (simp add: takeWhile_eq_all_conv) metis
  let ?w = "w\<lparr>mach := output_loop ''Thread '' (mach w)\<rparr>"
  have "hart ?w < 8" "qbuf_ok (mach ?w)"
    using assms by (simp_all add: qbuf_ok_def output_loop_eq)
  from itoa_hex_removing_ldz_run [OF this refl] d show ?thesis
    by (simp add: default_ie_handler_def flexpret_info_def emulator_outputstr_def output_loop_eq)
qed

text \<open>A system with an active periodic timer for every thread.\<close>

definition example_periodic :: machine where
  "example_periodic = example_timers\<lparr>startup_timer_state :=
     (\<lambda>_. \<lparr>tm_ticks = 0, tm_func = 0x300, tm_type = osTimerPeriodic, tm_arg = NULL\<rparr>)\<rparr>"

lemma example_periodic_simps:
  "csr_time example_periodic = 0" "csr_ie example_periodic h" "timer_base example_periodic = timer_base example_timers"
  "timer_attr_entry example_periodic = timer_attr_entry example_timers" "qbuf_ok example_periodic"
  "startup_timer_state example_periodic h = \<lparr>tm_ticks = 0, tm_func = 0x300, tm_type = osTimerPeriodic, tm_arg = NULL\<rparr>"
  by (simp_all add: example_periodic_def example_timers_def example_machine_def boot_machine_def qbuf_ok_def)

lemma example_periodic_usable: "t < 8 \<Longrightarrow> timer_usable example_periodic t"
  using example_timers_usable [of t] by (simp add: timer_usable_def timers_placed_def timer_ptr_def example_periodic_simps)

section \<open>Properties\<close>

text \<open>
  C26: a periodic timer drifts. Every interrupt arms it one period after its callback has
  returned, so after some interrupts the next is due not after that many periods but later by the
  sum of all delays of the interrupts and of the times the callbacks took.
\<close>

theorem periodic_timer_drifts:
  assumes "timer_usable (mach w) (hart w)" "tm_type (startup_timer_state (mach w) (hart w)) = osTimerPeriodic"
    and "csr_ie (mach w) (hart w)" "0 < n"
    and "\<And>d c call. (d, c, call) \<in> set ps \<Longrightarrow> d < 0x80000000 \<and> takes call (hart w) c"
  shows "\<exists>w1 w2. osTimerStart (timer_ptr (mach w) (hart w)) n w = Ret osOK w1 \<and>
    run_periods user (map (\<lambda>(d, c, call). (d, call)) ps) w1 = Ret () w2 \<and>
    csr_timer (mach w2) (hart w) = TIMER_IE \<and>
    csr_compare (mach w2) (hart w) = csr_time (mach w) + of_nat (Suc (length ps)) * n +
      sum_list (map (\<lambda>(d, c, call). d + c) ps)"
proof -
  let ?w = "w\<lparr>mach := armed (hart w) (hart w) n (mach w)\<rparr>"
  have h: "hart w < 8"
    using assms(1) by (simp add: timer_usable_def)
  have "csr_ie (armed (hart w) (hart w) n (mach w)) = csr_ie (mach w)"
    by (simp add: armed_def)
  then have "ticking (hart ?w) n (mach ?w)"
    using assms(2,3) h by (simp add: ticking_def)
  from run_periods_Ret [OF this, of ps user] assms(5) obtain w2 where
    "run_periods user (map (\<lambda>(d, c, call). (d, call)) ps) ?w = Ret () w2" "ticking (hart w) n (mach w2)"
    "csr_compare (mach w2) (hart w) = csr_time (mach w) + n + of_nat (length ps) * n +
      sum_list (map (\<lambda>(d, c, call). d + c) ps)"
    by (fastforce simp: add.commute)
  with osTimerStart_run [OF assms(1) h assms(4)] show ?thesis
    by (auto simp: ticking_def algebra_simps)
qed

theorem periodic_timer_drifts_witness:
  "\<exists>w1 w2. osTimerStart (timer_ptr example_periodic 3) 500 \<lparr>hart = 3, mach = example_periodic, sched = []\<rparr> = Ret osOK w1 \<and>
    run_periods (\<lambda>_. ret ()) [(7, \<lambda>f a. upd (tick 20)), (0, \<lambda>f a. upd (tick 5))] w1 = Ret () w2 \<and>
    csr_compare (mach w2) 3 = 3 * 500 + 32"
proof -
  let ?ps = "[(7 :: u32, 20 :: u32, \<lambda>(f :: addr) (a :: addr). upd (tick 20)), (0, 5, \<lambda>f a. upd (tick 5))]"
  have "\<exists>m. upd (tick c) v = Ret () (v\<lparr>mach := m\<rparr>) \<and> csr_time m = csr_time (mach v) + c \<and>
      startup_timer_state m h = startup_timer_state (mach v) h \<and>
      trap_handler_vector m h = trap_handler_vector (mach v) h" for c h v
    by (rule exI [of _ "tick c (mach v)"]) (simp add: tick_def)
  then have t: "takes (\<lambda>f a. upd (tick c)) h c" for c h
    by (simp add: takes_def)
  let ?w = "\<lparr>hart = 3, mach = example_periodic, sched = []\<rparr>"
  have "\<exists>w1 w2. osTimerStart (timer_ptr (mach ?w) (hart ?w)) 500 ?w = Ret osOK w1 \<and>
      run_periods (\<lambda>_. ret ()) (map (\<lambda>(d, c, call). (d, call)) ?ps) w1 = Ret () w2 \<and>
      csr_timer (mach w2) (hart ?w) = TIMER_IE \<and>
      csr_compare (mach w2) (hart ?w) = csr_time (mach ?w) + of_nat (Suc (length ?ps)) * 500 +
        sum_list (map (\<lambda>(d, c, call). d + c) ?ps)"
    by (rule periodic_timer_drifts) (auto simp: example_periodic_usable example_periodic_simps t)
  then show ?thesis
    by (auto simp: example_periodic_simps)
qed

text \<open>
  A periodic timer cannot be stopped in its own callback: \<^verbatim>\<open>osTimerStop\<close> reports success, but the
  handler then arms the hardware with the cleared ticks, that is for now, and the next interrupt,
  which is due at once, goes to the default handler and is reported as an unexpected trap.
\<close>

theorem periodic_stop_traps:
  assumes "timer_usable (mach w) (hart w)" "ticking (hart w) n (mach w)" "0 < n" "expired (mach w) (hart w)"
    and "qbuf_ok (mach w)"
    and "\<And>f a v. call f a v = bnd (osTimerStop (timer_ptr (mach w) (hart w))) (\<lambda>_. ret ()) v"
  shows "\<exists>w1 w2 out. expire_interrupt call user w = Ret () w1 \<and>
    osTimerIsRunning (timer_ptr (mach w) (hart w)) w1 = Ret False w1 \<and>
    csr_timer (mach w1) (hart w) = TIMER_IE \<and> expired (mach w1) (hart w) \<and>
    expire_interrupt call user w1 = Ret () w2 \<and>
    emulator_out (mach w2) = emulator_out (mach w1) @ ''Thread '' @ out @ '' trapped in ie.'' @ [CHR 0x0A]"
proof -
  let ?h = "hart w"
  let ?v = "trapped 0x8000000d (w\<lparr>mach := (mach w)\<lparr>csr_timer := (csr_timer (mach w))(?h := TIMER_OFF)\<rparr>\<rparr>)"
  have h: "?h < 8" "csr_timer (mach w) ?h = TIMER_IE" "csr_ie (mach w) ?h"
    "trap_handler_vector (mach w) ?h 0 = H_timer_periodic" "tm_ticks (startup_timer_state (mach w) ?h) \<noteq> 0"
    using assms(2,3) by (auto simp: ticking_def)
  have v: "timer_usable (mach ?v) (hart ?v)" "timer_ptr (mach ?v) (hart ?v) = timer_ptr (mach w) ?h"
    using assms(1) by (simp_all add: timer_usable_def timers_placed_def timer_ptr_def trapped_def)
  have stop: "osTimerStop (timer_ptr (mach w) ?h) ?v = Ret osOK (?v\<lparr>mach := stopped ?h (mach ?v)\<rparr>)"
    using osTimerStop_run [OF v(1)] v(2) h(5) by simp
  let ?m1 = "(stopped ?h (mach ?v))\<lparr>csr_compare := (csr_compare (mach w))(?h := csr_time (mach w)),
    csr_timer := (csr_timer (mach w))(?h := TIMER_IE), csr_ie := (csr_ie (mach w))(?h := True)\<rparr>"
  let ?w1 = "w\<lparr>mach := ?m1\<rparr>"
  have r1: "expire_interrupt call user w = Ret () ?w1"
    using h stop expire_interrupt_eq [OF h(1,2) assms(4) h(3)]
    by (simp add: run_handler_def timer_periodic_handler_def assms(6)) (simp add: stopped_def trapped_def)
  have "timer_usable ?m1 ?h" "timer_ptr ?m1 ?h = timer_ptr (mach w) ?h"
    using v by (simp_all add: timer_usable_def timers_placed_def timer_ptr_def)
  then have i: "osTimerIsRunning (timer_ptr (mach w) ?h) ?w1 = Ret False ?w1"
    using osTimerIsRunning_run [of ?w1 ?h] by simp
  have e: "expired ?m1 ?h"
    by (simp add: expired_def)
  let ?v1 = "trapped 0x8000000d (?w1\<lparr>mach := ?m1\<lparr>csr_timer := (csr_timer ?m1)(?h := TIMER_OFF)\<rparr>\<rparr>)"
  have "hart ?v1 < 8" "qbuf_ok (mach ?v1)"
    using assms(5) h(1) by (simp_all add: qbuf_ok_def)
  from default_ie_handler_run [OF this] obtain w2 out where w2: "default_ie_handler ?v1 = Ret () w2"
    "emulator_out (mach w2) = emulator_out (mach ?v1) @ ''Thread '' @ out @ '' trapped in ie.'' @ [CHR 0x0A]"
    by blast
  let ?w2 = "w2\<lparr>mach := (mach w2)\<lparr>csr_ie := (csr_ie (mach w2))(hart w2 := True)\<rparr>\<rparr>"
  have r2: "expire_interrupt call user ?w1 = Ret () ?w2"
    "emulator_out (mach ?w2) = emulator_out (mach ?w1) @ ''Thread '' @ out @ '' trapped in ie.'' @ [CHR 0x0A]"
    using w2 expire_interrupt_eq [of ?w1 call user] h(1) e by (simp_all add: run_handler_def)
  have t: "csr_timer (mach ?w1) ?h = TIMER_IE" "expired (mach ?w1) ?h"
    using e by simp_all
  show ?thesis
    by (intro exI conjI) (rule r1, rule i, rule t(1), rule t(2), rule r2(1), rule r2(2))
qed

theorem periodic_stop_traps_witness:
  "\<exists>call w w1 w2. hart w = 3 \<and> expire_interrupt call (\<lambda>_. ret ()) w = Ret () w1 \<and>
    osTimerIsRunning (timer_ptr (mach w) 3) w1 = Ret False w1 \<and> csr_timer (mach w1) 3 = TIMER_IE \<and>
    expire_interrupt call (\<lambda>_. ret ()) w1 = Ret () w2"
proof -
  let ?m = "(armed 3 3 500 example_periodic)\<lparr>csr_time := 500\<rparr>"
  let ?w = "\<lparr>hart = 3, mach = ?m, sched = []\<rparr>"
  let ?call = "\<lambda>(f :: addr) (a :: addr). bnd (osTimerStop (timer_ptr ?m 3)) (\<lambda>_. ret ())"
  have "timer_usable ?m 3" "qbuf_ok ?m"
    using example_periodic_usable [of 3] example_periodic_simps(5)
    by (simp_all add: timer_usable_def timers_placed_def timer_ptr_def qbuf_ok_def armed_def)
  moreover have "ticking 3 500 ?m" "expired ?m 3"
    by (simp_all add: ticking_def expired_def example_periodic_simps armed_def)
  ultimately have "\<exists>w1 w2 out. expire_interrupt ?call (\<lambda>_. ret ()) ?w = Ret () w1 \<and>
      osTimerIsRunning (timer_ptr (mach ?w) (hart ?w)) w1 = Ret False w1 \<and>
      csr_timer (mach w1) (hart ?w) = TIMER_IE \<and> expired (mach w1) (hart ?w) \<and>
      expire_interrupt ?call (\<lambda>_. ret ()) w1 = Ret () w2 \<and>
      emulator_out (mach w2) = emulator_out (mach w1) @ ''Thread '' @ out @ '' trapped in ie.'' @ [CHR 0x0A]"
    by (intro periodic_stop_traps [of ?w 500]) simp_all
  then obtain w1 w2 where "expire_interrupt ?call (\<lambda>_. ret ()) ?w = Ret () w1"
    "osTimerIsRunning (timer_ptr (mach ?w) 3) w1 = Ret False w1" "csr_timer (mach w1) 3 = TIMER_IE"
    "expire_interrupt ?call (\<lambda>_. ret ()) w1 = Ret () w2"
    by auto
  then show ?thesis
    by (rule_tac x = ?call in exI) (rule exI [of _ ?w], auto)
qed



end
