(* ===== verification/Bench.thy ===== *)
theory Bench
  imports Prelude
begin

text \<open>
  What the three test benches of \<^verbatim>\<open>src/emulator/testbench\<close> share. Each clocks the simulated
  processor, watches its general purpose outputs and the \<^verbatim>\<open>to_host\<close> register and counts cycles per
  thread. The processor is generated from the Chisel sources: here it is a parameter, the
  functions by which the test benches use it. Dump files are not modelled.
\<close>

section \<open>The processor\<close>

text \<open>The signals of the processor the test benches read.\<close>

record pins =
  dec_reg_inst :: u32
  bus_enable :: bool
  bus_write :: bool
  bus_addr :: u32
  bus_data_in :: u32
  gpio_out :: "nat \<Rightarrow> u32"
  host_to_host :: u32
  if_reg_valid :: bool
  if_reg_tid :: nat
  csr_rw_write :: bool
  csr_rw_addr :: u32
  ctl_exe_valid :: bool
  exe_reg_tid :: nat
  exe_reg_pc :: u32
  exe_reg_inst :: u32

text \<open>
  \<open>load\<close> stands for reading the two memory files and \<open>clear_pc\<close> for clearing the program counter
  of thread 0; the other functions are the methods and registers of the generated class.
\<close>

record 'c core_if =
  new_core :: 'c
  clock_lo :: "bool \<Rightarrow> 'c \<Rightarrow> 'c"
  clock_hi :: "bool \<Rightarrow> 'c \<Rightarrow> 'c"
  load :: "'c \<Rightarrow> 'c"
  clear_pc :: "'c \<Rightarrow> 'c"
  reg_tmodes :: "nat \<Rightarrow> 4 word \<Rightarrow> 'c \<Rightarrow> 'c"
  reg_slots :: "nat \<Rightarrow> 4 word \<Rightarrow> 'c \<Rightarrow> 'c"
  int_exts_0 :: "bool \<Rightarrow> 'c \<Rightarrow> 'c"
  pins_of :: "'c \<Rightarrow> pins"

section \<open>The state of the test bench\<close>

text \<open>What is printed, with the values printed.\<close>

datatype message = M_passed string | M_failed string u32 | M_timeout
  | M_gpio nat u64 u32 | M_counters u64 nat u64 u64 u64
  | M_trace u64 nat bool u32 u32 | M_trace_pc u64 nat bool u32 | M_char char | M_extra string | M_output nat string | M_total u64 u64

record options =
  sweep :: bool
  trace :: bool
  max_cycles :: u64

text \<open>
  Of the arrays \<^verbatim>\<open>io_buf[t]\<close> the state keeps the \<^verbatim>\<open>io_buf_len[t]\<close> characters written. The fields
  \<open>if_valid\<close> to \<open>dec_tid\<close> are uninitialised at first.
\<close>

record 'c bench =
  core :: 'c
  cycle :: u64
  finished :: bool
  fail :: bool
  tohost_prev :: u32
  gpio_prev :: "nat \<Rightarrow> u32"
  if_valid :: bool
  dec_valid :: bool
  if_tid :: nat
  dec_tid :: nat
  processor_cycles :: "nat \<Rightarrow> u64"
  thread_cycles :: "nat \<Rightarrow> u64"
  commit_cycles :: "nat \<Rightarrow> u64"
  io_buf :: "nat \<Rightarrow> string"
  valid_inst :: u64
  stderr :: "message list"
  stat_log :: "(u64 \<times> nat \<times> bool \<times> u32 \<times> u32) list"

type_synonym ('a, 'c) tb = "'c bench \<Rightarrow> ('a, 'c bench) result"

definition say_err :: "message \<Rightarrow> (unit, 'c) tb" where
  "say_err m = modify (\<lambda>s. s\<lparr>stderr := stderr s @ [m]\<rparr>)"

definition boot_bench :: "'c core_if \<Rightarrow> 'c bench" where
  "boot_bench C = \<lparr>core = new_core C, cycle = 0, finished = False, fail = False, tohost_prev = 0,
     gpio_prev = (\<lambda>_. 0), if_valid = False, dec_valid = False, if_tid = 0, dec_tid = 0,
     processor_cycles = (\<lambda>_. 0), thread_cycles = (\<lambda>_. 0), commit_cycles = (\<lambda>_. 0), io_buf = (\<lambda>_. []),
     valid_inst = 0, stderr = [], stat_log = []\<rparr>"

section \<open>Parts of a cycle\<close>

definition watch_gpio :: "pins \<Rightarrow> (unit, 'c) tb" where
  "watch_gpio p = for_each [0, 1, 2, 3] (\<lambda>i.
     bnd (gets (\<lambda>s. (gpio_prev s i, cycle s))) (\<lambda>(prev, cyc).
     seqm (whenm (gpio_out p i \<noteq> prev) (say_err (M_gpio i cyc (gpio_out p i))))
     (modify (\<lambda>s. s\<lparr>gpio_prev := (gpio_prev s)(i := gpio_out p i)\<rparr>))))"

definition watch_tohost :: "string \<Rightarrow> pins \<Rightarrow> (unit, 'c) tb" where
  "watch_tohost msg p =
     (let tohost = host_to_host p in
      bnd (gets tohost_prev) (\<lambda>prev.
      seqm (whenm (tohost \<noteq> prev)
        (seqm (whenm (tohost = 1)
           (seqm (say_err (M_passed msg)) (modify (\<lambda>s. s\<lparr>finished := True\<rparr>))))
         (whenm (1 < tohost)
           (seqm (say_err (M_failed msg tohost)) (modify (\<lambda>s. s\<lparr>fail := True, finished := True\<rparr>))))))
      (modify (\<lambda>s. s\<lparr>tohost_prev := tohost\<rparr>))))"

text \<open>
  The four counters, of arrays with four elements, for the thread in the execute stage: two
  cycles before it was in the fetch stage. Writing register \<open>a\<close> resets them, writing register \<open>b\<close>
  prints them.
\<close>

definition count_cycle_at :: "u32 \<Rightarrow> u32 \<Rightarrow> pins \<Rightarrow> (unit, 'c) tb" where
  "count_cycle_at a b p =
     bnd (gets dec_tid) (\<lambda>exe_tid.
     seqm (modify (\<lambda>s. s\<lparr>dec_valid := if_valid s, dec_tid := if_tid s,
       if_valid := if_reg_valid p, if_tid := if_reg_tid p\<rparr>))
     (seqm (whenm (csr_rw_write p \<and> csr_rw_addr p = b)
        (seqm (require (exe_tid < 4) Bad_Index)
        (bnd (gets (\<lambda>s. M_counters (cycle s) exe_tid (processor_cycles s exe_tid) (thread_cycles s exe_tid)
           (commit_cycles s exe_tid))) say_err)))
     (seqm (modify (\<lambda>s. s\<lparr>processor_cycles := (\<lambda>i. if i < 4 then processor_cycles s i + 1 else processor_cycles s i)\<rparr>))
     (seqm (require (exe_tid < 4) Bad_Index)
     (seqm (modify (\<lambda>s. s\<lparr>thread_cycles := (thread_cycles s)(exe_tid := thread_cycles s exe_tid + 1)\<rparr>))
     (seqm (whenm (ctl_exe_valid p)
        (modify (\<lambda>s. s\<lparr>commit_cycles := (commit_cycles s)(exe_tid := commit_cycles s exe_tid + 1)\<rparr>)))
     (whenm (csr_rw_write p \<and> csr_rw_addr p = a)
        (modify (\<lambda>s. s\<lparr>processor_cycles := (processor_cycles s)(exe_tid := 0),
           thread_cycles := (thread_cycles s)(exe_tid := 0),
           commit_cycles := (commit_cycles s)(exe_tid := 0)\<rparr>)))))))))"

section \<open>A simulation\<close>

definition sim_more :: "options \<Rightarrow> 'c bench \<Rightarrow> bool" where
  "sim_more opt s \<longleftrightarrow> \<not> finished s \<and> (max_cycles opt = 0 \<or> cycle s < max_cycles opt)"

text \<open>
  The simulation loop around the body of one cycle. The first argument bounds the number of
  cycles; \<open>Blocked\<close> is a simulation that has not ended by then.
\<close>

fun loop_cycles :: "nat \<Rightarrow> options \<Rightarrow> (unit, 'c) tb \<Rightarrow> (unit, 'c) tb" where
  "loop_cycles 0 opt body s = (if sim_more opt s then Blocked s else Ret () s)"
| "loop_cycles (Suc n) opt body s =
     (if sim_more opt s then seqm body (loop_cycles n opt body) s else Ret () s)"

text \<open>\<^verbatim>\<open>sprintf(msg, ...)\<close>: both numbers have one digit.\<close>

definition config_name :: "nat \<Rightarrow> nat \<Rightarrow> string" where
  "config_name h f = ''(tid = '' @ [char_of (48 + h)] @ '', f = 1/'' @ [char_of (48 + f)] @ '') ''"

section \<open>What the parts do\<close>

text \<open>The processor alone: its next state, and the signals seen on the way.\<close>

definition settled :: "'c core_if \<Rightarrow> 'c \<Rightarrow> 'c" where
  "settled C c = clock_lo C False (int_exts_0 C (dec_reg_inst (pins_of C c) = 0x00202573) c)"

definition next_core :: "'c core_if \<Rightarrow> 'c \<Rightarrow> 'c" where
  "next_core C c = clock_hi C False (settled C c)"

definition seen :: "'c core_if \<Rightarrow> 'c \<Rightarrow> pins" where
  "seen C c = pins_of C (settled C c)"

text \<open>The signals of the first \<open>k\<close> cycles.\<close>

definition signals :: "'c core_if \<Rightarrow> 'c \<Rightarrow> nat \<Rightarrow> pins list" where
  "signals C c k = map (\<lambda>i. seen C ((next_core C ^^ i) c)) [0..<k]"

lemma signals_Suc: "signals C c (Suc k) = seen C c # signals C (next_core C c) k"
  unfolding signals_def by (simp add: map_upt_Suc funpow_swap1 del: upt_Suc)

lemma modify_seqm [simp]: "seqm (modify f) k s = k (f s)"
  by (simp add: seqm_def bnd_def)

lemma gets_bnd [simp]: "bnd (gets f) k s = k (f s) s"
  by (simp add: bnd_def)

lemma require_seqm: "seqm (require P e) k s = (if P then k s else Fault e)"
  by (simp add: seqm_def bnd_def require_def)

text \<open>What \<^verbatim>\<open>watch_gpio\<close> prints for the ports \<open>is\<close>.\<close>

definition gpio_changes :: "pins \<Rightarrow> 'c bench \<Rightarrow> nat list \<Rightarrow> message list" where
  "gpio_changes p s is = map (\<lambda>i. M_gpio i (cycle s) (gpio_out p i)) (filter (\<lambda>i. gpio_out p i \<noteq> gpio_prev s i) is)"

lemma watch_gpio_run:
  "watch_gpio p s = Ret () (s\<lparr>gpio_prev := (\<lambda>i. if i < 4 then gpio_out p i else gpio_prev s i),
    stderr := stderr s @ gpio_changes p s [0, 1, 2, 3]\<rparr>)"
proof -
  define body :: "nat \<Rightarrow> (unit, 'a) tb" where "body = (\<lambda>i.
     bnd (gets (\<lambda>s. (gpio_prev s i, cycle s))) (\<lambda>(prev, cyc).
     seqm (whenm (gpio_out p i \<noteq> prev) (say_err (M_gpio i cyc (gpio_out p i))))
     (modify (\<lambda>s. s\<lparr>gpio_prev := (gpio_prev s)(i := gpio_out p i)\<rparr>))))"
  have b: "body i s = Ret () (s\<lparr>gpio_prev := (gpio_prev s)(i := gpio_out p i), stderr := stderr s @ gpio_changes p s [i]\<rparr>)" for i s
    by (simp add: body_def gpio_changes_def say_err_def whenm_def)
  have "distinct is \<Longrightarrow> for_each is body s = Ret () (s
      \<lparr>gpio_prev := (\<lambda>i. if i \<in> set is then gpio_out p i else gpio_prev s i), stderr := stderr s @ gpio_changes p s is\<rparr>)" for "is" s
  proof (induction "is" arbitrary: s)
    case Nil
    show ?case by (simp add: gpio_changes_def)
  next
    case (Cons i "is")
    have "gpio_changes p (s\<lparr>gpio_prev := (gpio_prev s)(i := gpio_out p i), stderr := x\<rparr>) is = gpio_changes p s is" for x
      using Cons.prems by (auto simp: gpio_changes_def intro!: arg_cong [where f = "map _"] filter_cong)
    with Cons show ?case
      by (auto simp: b gpio_changes_def fun_eq_iff intro!: arg_cong [where f = "\<lambda>g. s\<lparr>gpio_prev := g, stderr := _\<rparr>"])
  qed
  from this [of "[0, 1, 2, 3]"] show ?thesis
    by (simp add: watch_gpio_def body_def less_Suc_eq numeral_eq_Suc cong: if_cong)
qed

lemma watch_tohost_run:
  "watch_tohost msg p s = Ret () (s
     \<lparr>stderr := stderr s @ (if host_to_host p = tohost_prev s \<or> host_to_host p = 0 then []
        else [if host_to_host p = 1 then M_passed msg else M_failed msg (host_to_host p)]),
      finished := finished s \<or> host_to_host p \<noteq> tohost_prev s \<and> host_to_host p \<noteq> 0,
      fail := fail s \<or> host_to_host p \<noteq> tohost_prev s \<and> 1 < host_to_host p,
      tohost_prev := host_to_host p\<rparr>)"
proof -
  have "host_to_host p = 0 \<or> host_to_host p = 1 \<or> 1 < host_to_host p"
    by (metis linorder_neqE not_one_less_zero word_less_1 word_neq_0_conv)
  then show ?thesis
    by (auto simp: watch_tohost_def Let_def say_err_def whenm_def)
qed

text \<open>The counters after a cycle in which \<open>t\<close> is in the execute stage.\<close>

definition counted :: "bool \<Rightarrow> nat \<Rightarrow> (nat \<Rightarrow> u64) \<Rightarrow> bool \<Rightarrow> nat \<Rightarrow> u64" where
  "counted reset t n b = (\<lambda>i. if i = t \<and> reset then 0 else if b \<and> i = t then n i + 1 else n i)"

lemma counted_eq: "counted r t n b = (if r then n(t := 0) else if b then n(t := n t + 1) else n)"
  by (auto simp: counted_def fun_eq_iff)

definition counts_shown :: "bool \<Rightarrow> 'c bench \<Rightarrow> message list" where
  "counts_shown b s = (if b then [M_counters (cycle s) (dec_tid s) (processor_cycles s (dec_tid s))
     (thread_cycles s (dec_tid s)) (commit_cycles s (dec_tid s))] else [])"

lemma count_cycle_run:
  "count_cycle_at a b p s = (if dec_tid s < 4 then Ret () (s\<lparr>dec_valid := if_valid s, dec_tid := if_tid s,
       if_valid := if_reg_valid p, if_tid := if_reg_tid p,
       stderr := stderr s @ counts_shown (csr_rw_write p \<and> csr_rw_addr p = b) s,
       processor_cycles := counted (csr_rw_write p \<and> csr_rw_addr p = a) (dec_tid s)
         (\<lambda>i. if i < 4 then processor_cycles s i + 1 else processor_cycles s i) False,
       thread_cycles := counted (csr_rw_write p \<and> csr_rw_addr p = a) (dec_tid s) (thread_cycles s) True,
       commit_cycles := counted (csr_rw_write p \<and> csr_rw_addr p = a) (dec_tid s) (commit_cycles s) (ctl_exe_valid p)\<rparr>)
     else Fault Bad_Index)"
proof (cases "dec_tid s < 4")
  case True
  define start stop where "start = (csr_rw_write p \<and> csr_rw_addr p = a)" and "stop = (csr_rw_write p \<and> csr_rw_addr p = b)"
  show ?thesis
    using True unfolding count_cycle_at_def start_def [symmetric] stop_def [symmetric]
    by (cases start; cases stop; cases "ctl_exe_valid p")
      (simp_all add: require_seqm counted_eq counts_shown_def say_err_def cong del: if_weak_cong)
next
  case False
  then show ?thesis by (simp add: count_cycle_at_def require_seqm whenm_def)
qed

text \<open>With a limit on the cycles the loop ends by then.\<close>

lemma loop_cycles_ends:
  "(\<And>s s'. body s = Ret () s' \<Longrightarrow> cycle s' = cycle s + 1) \<Longrightarrow> (\<And>s s'. body s \<noteq> Blocked s') \<Longrightarrow>
    max_cycles opt \<noteq> 0 \<Longrightarrow> unat (max_cycles opt - cycle s) \<le> n \<Longrightarrow> cycle s \<le> max_cycles opt \<Longrightarrow>
    loop_cycles n opt body s \<noteq> Blocked s'"
proof (induction n arbitrary: s)
  case 0
  then have "max_cycles opt = cycle s"
    by (simp add: unat_eq_0)
  with 0(3) show ?case by (auto simp: sim_more_def)
next
  case (Suc n)
  show ?case
  proof (cases "sim_more opt s \<and> (\<exists>u s1. body s = Ret u s1)")
    case True
    then obtain s1 where s1: "body s = Ret () s1" by auto
    have "cycle s < max_cycles opt"
      using True Suc.prems(3) by (simp add: sim_more_def)
    then have "cycle s1 \<le> max_cycles opt" "unat (max_cycles opt - cycle s1) \<le> n"
      using Suc.prems(4) unfolding Suc.prems(1) [OF s1] by (unat_arith, unat_arith)
    with Suc.IH [of s1] Suc.prems(1-3) True s1 show ?thesis by simp
  next
    case False
    with Suc.prems(2) [of s] show ?thesis
      by (cases "body s") auto
  qed
qed

lemma loop_cycles_fault:
  "(\<And>s e. body s = Fault e \<Longrightarrow> e = Bad_Index) \<Longrightarrow> loop_cycles n opt body s = Fault e \<Longrightarrow> e = Bad_Index"
proof (induction n arbitrary: s)
  case (Suc n)
  then show ?case by (cases "body s") (auto split: if_splits)
qed (simp split: if_splits)

text \<open>
  A loop whose body keeps an invariant and makes no undefined access runs to its end, with a
  state for each cycle.
\<close>

lemma loop_cycles_trace:
  assumes step: "\<And>s. I s \<Longrightarrow> \<exists>s'. body s = Ret () s' \<and> I s' \<and> cycle s' = cycle s + 1"
    and limit: "max_cycles opt \<noteq> 0"
  shows "I s \<Longrightarrow> cycle s \<le> max_cycles opt \<Longrightarrow> unat (max_cycles opt - cycle s) \<le> n \<Longrightarrow>
    \<exists>k S. k \<le> n \<and> S 0 = s \<and> loop_cycles n opt body s = Ret () (S k) \<and> \<not> sim_more opt (S k) \<and>
      cycle (S k) \<le> max_cycles opt \<and>
      (\<forall>i < k. body (S i) = Ret () (S (Suc i)) \<and> I (S i))"
proof (induction n arbitrary: s)
  case 0
  then have "\<not> sim_more opt s"
    using limit by (auto simp: unat_eq_0 sim_more_def)
  with 0 show ?case by (intro exI [of _ 0] exI [of _ "\<lambda>_. s"]) simp
next
  case (Suc n)
  show ?case
  proof (cases "sim_more opt s")
    case False
    with Suc.prems show ?thesis by (intro exI [of _ 0] exI [of _ "\<lambda>_. s"]) simp
  next
    case True
    obtain s1 where s1: "body s = Ret () s1" "I s1" "cycle s1 = cycle s + 1"
      using step [OF Suc.prems(1)] by blast
    have "cycle s < max_cycles opt"
      using True limit by (simp add: sim_more_def)
    then have "cycle s1 \<le> max_cycles opt" "unat (max_cycles opt - cycle s1) \<le> n"
      using Suc.prems(3) unfolding s1(3) by (unat_arith, unat_arith)
    from Suc.IH [OF s1(2) this] obtain k S where S: "k \<le> n" "S 0 = s1" "loop_cycles n opt body s1 = Ret () (S k)"
      "\<not> sim_more opt (S k)" "cycle (S k) \<le> max_cycles opt" "\<forall>i < k. body (S i) = Ret () (S (Suc i)) \<and> I (S i)"
      by blast
    let ?S = "\<lambda>i. if i = 0 then s else S (i - 1)"
    have "body (?S i) = Ret () (?S (Suc i)) \<and> I (?S i)" if "i < Suc k" for i
      using that S(2,6) s1(1) Suc.prems(1) by (cases i) simp_all
    with S s1(1) True show ?thesis
      by (intro exI [of _ "Suc k"] exI [of _ ?S]) simp
  qed
qed

end
