(* ===== verification/Startup.thy ===== *)
theory Startup
  imports Kernel_Properties Interrupts Bench
begin

text \<open>
  \<^verbatim>\<open>src/os/asm/startup.S\<close>: what a hardware thread does from its reset on. Thread 0 calls \<^verbatim>\<open>main\<close> and
  reports its result to the test bench; the others wait for a function in their control block,
  call it, and wait again. The functions themselves are the argument \<open>call\<close>: it is given the
  entry point, the argument and the stack address. The address of \<^verbatim>\<open>trap_entry\<close>, written to the
  trap vector register, is below the model.
\<close>

section \<open>Operations\<close>

text \<open>
  The loop at \<^verbatim>\<open>wait\<close>: one outside event before each further look at the function pointer. The
  argument is a bound on the passes.
\<close>

fun wait_start :: "nat \<Rightarrow> addr os" where
  "wait_start 0 = (\<lambda>w. Blocked w)"
| "wait_start (Suc n) =
     bnd my_hart (\<lambda>t.
     bnd (st_get t) (\<lambda>st.
     if th_func st = NULL then seqm env_step (wait_start n) else ret (th_func st)))"

definition startup :: "(addr \<Rightarrow> addr \<Rightarrow> addr \<Rightarrow> u32 os) \<Rightarrow> addr \<Rightarrow> addr \<Rightarrow> addr \<Rightarrow> u32 os" where
  "startup call a2 a0 a1 = seqm enable_interrupts (call a2 a0 a1)"

text \<open>The end of thread 0: it spins for ever.\<close>

definition finish :: "u32 \<Rightarrow> unit os" where
  "finish a0 = seqm (os_write_csr CSR_TOHOST (a0 + 1)) (\<lambda>w. Blocked w)"

text \<open>
  From the reset on. \<^verbatim>\<open>thread_after_return_handler\<close> jumps to the reset. The first argument bounds the
  number of functions the thread runs; \<open>main_addr\<close> is the address of \<^verbatim>\<open>main\<close>, which is also in the
  register of its argument.
\<close>

fun reset :: "nat \<Rightarrow> (addr \<Rightarrow> addr \<Rightarrow> addr \<Rightarrow> u32 os) \<Rightarrow> addr \<Rightarrow> unit os" where
  "reset 0 call main_addr = (\<lambda>w. Blocked w)"
| "reset (Suc n) call main_addr =
     bnd my_hart (\<lambda>t.
     if t = 0 then
       bnd (st_get 0) (\<lambda>st.
       bnd (startup call main_addr main_addr (th_stack_address st)) finish)
     else
       bnd (\<lambda>w. wait_start (Suc (length (sched w))) w) (\<lambda>func.
       bnd (st_get t) (\<lambda>st.
       bnd (startup call func (th_arg st) (th_stack_address st)) (\<lambda>_.
       seqm thread_after_return_handler
       (reset n call main_addr)))))"

section \<open>Waiting for a function\<close>

text \<open>The wait returns at the first look that finds one, and as long as there is none it goes on.\<close>

lemma wait_start_returns:
  assumes "hart w < 8" "sched w = es @ rest" "length es < n"
    and "th_func (startup_state (foldl (\<lambda>m e. e m) (mach w) es) (hart w)) \<noteq> NULL"
    and "\<And>k. k < length es \<Longrightarrow> th_func (startup_state (foldl (\<lambda>m e. e m) (mach w) (take k es)) (hart w)) = NULL"
  shows "wait_start n w = Ret (th_func (startup_state (foldl (\<lambda>m e. e m) (mach w) es) (hart w)))
    (w\<lparr>mach := foldl (\<lambda>m e. e m) (mach w) es, sched := rest\<rparr>)"
  using assms
proof (induction es arbitrary: n w)
  case Nil
  then obtain m where "n = Suc m" by (cases n) auto
  with Nil show ?case by (simp add: st_get_def)
next
  case (Cons e es)
  then obtain m where m: "n = Suc m" by (cases n) auto
  have "th_func (startup_state (mach w) (hart w)) = NULL"
    using Cons.prems(5) [of 0] by simp
  then have "wait_start n w = wait_start m (w\<lparr>mach := e (mach w), sched := es @ rest\<rparr>)"
    using Cons.prems(1,2) m by (simp add: st_get_def)
  also have "\<dots> = Ret (th_func (startup_state (foldl (\<lambda>m e. e m) (e (mach w)) es) (hart w)))
    (w\<lparr>mach := foldl (\<lambda>m e. e m) (e (mach w)) es, sched := rest\<rparr>)"
    using Cons.prems(1,3,4) Cons.prems(5) [of "Suc k" for k] m
    by (subst Cons.IH) simp_all
  finally show ?case
    by simp
qed

section \<open>The end of a function\<close>

text \<open>A thread without a function and without further events stays so.\<close>

lemma wait_for_func_stays:
  assumes "hart w < 8" "sched w = []" "th_func (startup_state (mach w) (hart w)) = NULL"
  shows "\<exists>w'. wait_for_func (Suc 0) w = Blocked w' \<and> startup_state (mach w') = startup_state (mach w) \<and>
    csr_slots (mach w') = csr_slots (mach w)"
proof -
  let ?w = "w\<lparr>mach := write_csr CSR_COMPARE (hart w) (csr_time (mach w) + FLEXPRET_WAIT_PERIOD) (mach w)\<rparr>"
  have "\<not> expired (mach ?w) (hart w)"
    by (rule not_expired_start [of FLEXPRET_WAIT_PERIOD]) (simp_all add: FLEXPRET_WAIT_PERIOD_def)
  then have "delay_until ?w = Blocked (?w\<lparr>mach := du_sleep (hart w) (mach ?w)\<rparr>)"
    using assms(2) by (simp add: delay_until.simps)
  then show ?thesis
    using assms by (simp add: st_get_def osDelay_def delay_until_periodic_def set_compare_def Let_def du_sleep_def)
qed

text \<open>What is left when the function of thread \<open>t\<close> has returned.\<close>

lemma after_return_run:
  assumes "hart w = t" "0 < t" "t < 8" "sched w = []" "timers_placed (mach w)"
  shows "\<exists>w'. thread_after_return_handler w = Blocked w' \<and> csr_slots (mach w') = csr_slots (mach w) \<and>
    \<not> live (mach w') t \<and> th_state (startup_state (mach w') t) = FLEXPRET_TERMINATED"
proof -
  let ?w = "w\<lparr>mach := cleaned t t (mach w)\<rparr>"
  have st: "th_func (startup_state (mach ?w) t) = NULL" "th_state (startup_state (mach ?w) t) = FLEXPRET_TERMINATED"
    "csr_slots (mach ?w) = csr_slots (mach w)"
    by (simp_all add: cleaned_def)
  from wait_for_func_stays [of ?w] assms st obtain w' where
    w': "wait_for_func (Suc 0) ?w = Blocked w'" "startup_state (mach w') = startup_state (mach ?w)"
      "csr_slots (mach w') = csr_slots (mach ?w)"
    by auto
  have "thread_after_return_handler w = Blocked w'"
    using assms thread_clean_run [OF assms(3,5)] w'(1)
    by (simp add: thread_after_return_handler_def del: wait_for_func.simps)
  with w' st show ?thesis
    by (auto simp: live_def)
qed

section \<open>Properties\<close>

text \<open>The stack a new thread is given.\<close>

definition new_stack :: "machine \<Rightarrow> attr_ref option \<Rightarrow> nat \<Rightarrow> addr" where
  "new_stack m attr t = (case attr of
       None \<Rightarrow> th_stack_address (startup_state m t)
     | Some r \<Rightarrow> if at_stack_mem (thread_attr m r) = NULL then stack_of t else at_stack_mem (thread_attr m r))"

text \<open>
  When main returns, its result reaches the test bench. Thread 0 writes it, plus one, to \<^verbatim>\<open>to_host\<close>;
  for 0 the test bench reports that the program has passed, for any other result that it has
  failed, and it ends. The result -1 is the exception: it is written as 0 and the test bench goes on.
\<close>

theorem exit_reported:
  assumes "hart w = 0" "stack = th_stack_address (startup_state (mach w) 0)"
    and "call main_addr main_addr stack (w\<lparr>mach := (mach w)\<lparr>csr_ie := (csr_ie (mach w))(0 := True)\<rparr>\<rparr>) = Ret r v"
    and "tohost_prev s = 0" "\<not> finished s"
  shows "reset (Suc n) call main_addr w = Blocked (v\<lparr>mach := (mach v)\<lparr>csr_tohost := r + 1\<rparr>\<rparr>) \<and>
    (host_to_host p = r + 1 \<longrightarrow> (\<exists>s'. watch_tohost msg p s = Ret () s' \<and>
      (finished s' \<longleftrightarrow> r \<noteq> - 1) \<and> (fail s' \<longleftrightarrow> fail s \<or> r \<noteq> 0 \<and> r \<noteq> - 1) \<and>
      stderr s' = stderr s @ (if r = 0 then [M_passed msg] else if r = - 1 then [] else [M_failed msg (r + 1)])))"
proof -
  have "reset (Suc n) call main_addr w = Blocked (v\<lparr>mach := (mach v)\<lparr>csr_tohost := r + 1\<rparr>\<rparr>)"
    using assms(1-3) by (simp add: st_get_def startup_def finish_def)
  moreover have "r + 1 = 0 \<longleftrightarrow> r = - 1"
    by (simp add: eq_neg_iff_add_eq_0)
  moreover have "1 < x \<longleftrightarrow> x \<noteq> 0 \<and> x \<noteq> 1" for x :: u32
    by (cases x "1 :: u32" rule: linorder_cases) auto
  ultimately show ?thesis
    using assms(4,5) by (simp add: watch_tohost_run)
qed

theorem exit_reported_witness:
  "\<exists>w'. reset 1 (\<lambda>f x sp. ret 0) 0x200 (example_run 0 []) = Blocked w' \<and>
    (\<forall>msg p C. \<exists>s'. watch_tohost msg (p\<lparr>host_to_host := csr_tohost (mach w')\<rparr>) (boot_bench C) = Ret () s' \<and>
      finished s' \<and> \<not> fail s')"
proof -
  note exit = exit_reported [where w = "example_run 0 []" and call = "\<lambda>f x sp. ret 0" and n = 0 and r = 0
      and main_addr = "0x200" and p = "p\<lparr>host_to_host := 1\<rparr>" and s = "boot_bench C" for p C, OF _ refl refl]
  obtain w' where w': "reset 1 (\<lambda>f x sp. ret 0) 0x200 (example_run 0 []) = Blocked w'" "csr_tohost (mach w') = 1"
    using exit [of C p msg] by (auto simp: boot_bench_def simp del: reset.simps)
  have "\<exists>s'. watch_tohost msg (p\<lparr>host_to_host := 1\<rparr>) (boot_bench C) = Ret () s' \<and> finished s' \<and> \<not> fail s'" for msg p C
    using exit [of C p msg] by (auto simp: boot_bench_def simp del: reset.simps)
  with w' show ?thesis by auto
qed

text \<open>
  C15: a created thread runs. When its hardware thread waits in the reset code it calls the function given
  to \<^verbatim>\<open>osThreadNew\<close> with the given argument on the stack of its attributes, and with interrupts enabled,
  and ends as that call does. When the function returns the thread is terminated: it waits without a
  function, but keeps its slots.
\<close>

theorem created_thread_runs:
  assumes "slot_ready w" "sys_ok (mach w)" "func \<noteq> NULL" "t = flexpret_thread_num (mach w)" "t < 8"
    and "new_prio (mach w) attr \<in> {osPriorityNormal, osPriorityRealtime}"
  shows "\<exists>w'. osThreadNew func arg attr w = Ret (thread_ptr t) w' \<and>
    (let u = w'\<lparr>hart := t, sched := []\<rparr>;
         run = reset (Suc n) call main_addr u in
     case call func arg (new_stack (mach w) attr t) (u\<lparr>mach := (mach u)\<lparr>csr_ie := (csr_ie (mach u))(t := True)\<rparr>\<rparr>) of
       Fault e \<Rightarrow> run = Fault e
     | Blocked v \<Rightarrow> run = Blocked v
     | Ret r v \<Rightarrow> hart v = t \<and> sched v = [] \<and> timers_placed (mach v) \<longrightarrow>
         (\<exists>v'. run = Blocked v' \<and> csr_slots (mach v') = csr_slots (mach v) \<and> \<not> live (mach v') t \<and>
           th_state (startup_state (mach v') t) = FLEXPRET_TERMINATED))"
proof -
  have num: "0 < t" "thread_attr_entry (mach w) t \<noteq> None"
    using assms(2,4,5) by (auto simp: sys_ok_def)
  obtain m where new: "osThreadNew func arg attr w = Ret (thread_ptr t) (w\<lparr>mach := m\<rparr>)"
    and st: "startup_state m = startup_state (created t func arg attr (new_ref (mach w) attr) (mach w))"
    using osThreadNew_run [OF assms(1,3,4) num(1) assms(5) num(2) assms(6)]
    by (cases "kernel_state (mach w) = osKernelRunning") auto
  let ?u = "w\<lparr>mach := m, hart := t, sched := []\<rparr>"
  let ?run = "call func arg (new_stack (mach w) attr t) (?u\<lparr>mach := m\<lparr>csr_ie := (csr_ie m)(t := True)\<rparr>\<rparr>)"
  have "reset (Suc n) call main_addr ?u =
    (case ?run of
       Ret r v \<Rightarrow> seqm thread_after_return_handler (reset n call main_addr) v
     | Blocked v \<Rightarrow> Blocked v
     | Fault e \<Rightarrow> Fault e)"
    using num(1) assms(3,5) by (simp add: st_get_def startup_def st created_def new_stack_def seqm_def bnd_def
        split: result.split)
  moreover have "\<exists>v'. seqm thread_after_return_handler (reset n call main_addr) v = Blocked v' \<and>
      csr_slots (mach v') = csr_slots (mach v) \<and> \<not> live (mach v') t \<and>
      th_state (startup_state (mach v') t) = FLEXPRET_TERMINATED"
    if "hart v = t \<and> sched v = [] \<and> timers_placed (mach v)" for v
    using after_return_run [of v t] that num(1) assms(5) by (auto simp: seqm_def bnd_def)
  ultimately show ?thesis
    using new by (cases ?run) (simp_all add: Let_def del: reset.simps)
qed

theorem created_thread_runs_witness:
  "\<exists>w' v. osThreadNew 0x300 0x44 None (example_run 0 []) = Ret (thread_ptr 1) w' \<and>
    reset 1 (\<lambda>f x sp w. if f = 0x300 \<and> x = 0x44 then Ret 0 (w\<lparr>mach := example_boot\<rparr>) else Fault Bad_Index) 0x200
      (w'\<lparr>hart := 1, sched := []\<rparr>) = Blocked v \<and> \<not> live (mach v) 1"
  using created_thread_runs [where w = "example_run 0 []" and func = "0x300" and t = 1 and attr = None
      and arg = "0x44" and n = 0 and main_addr = "0x200" and
      call = "\<lambda>f x sp w. if f = 0x300 \<and> x = 0x44 then Ret 0 (w\<lparr>mach := example_boot\<rparr>) else Fault Bad_Index"]
    example_run_ready [of 0 "[]"] example_system_ok example_boot_placed
  by (auto simp: new_prio_def Let_def)

end
