(* ===== verification/Encoding.thy ===== *)
theory Encoding
  imports Clock
begin

text \<open>
  The tables of \<^verbatim>\<open>src/os/include/flexpret_encoding.h\<close>: the encodings of the instructions, the numbers
  of the control registers and the causes of traps; and, against them, the decoder of the processor
  (\<^verbatim>\<open>src/Core/control.scala\<close>, \<^verbatim>\<open>instructions.scala\<close>, \<^verbatim>\<open>decode.scala\<close>). The header serves the
  assembler, the processor executes its output: the theory shows that both mean the same.
\<close>

unbundle bit_operations_syntax

section \<open>Tables of the header\<close>

text \<open>
  \<^verbatim>\<open>MATCH_x\<close> and \<^verbatim>\<open>MASK_x\<close> of each instruction, in the order of the header.
\<close>

definition encodings_1 :: "(string \<times> u32 \<times> u32) list" where
  "encodings_1 = [
     (''FMV_S_X'', 0xf0000053, 0xfff0707f), (''AMOXOR_W'', 0x2000202f, 0xf800707f),
     (''REMUW'', 0x200703b, 0xfe00707f), (''FMIN_D'', 0x2a000053, 0xfe00707f),
     (''AMOMAX_D'', 0xa000302f, 0xf800707f), (''BLTU'', 0x6063, 0x707f),
     (''FSGNJN_D'', 0x22001053, 0xfe00707f), (''FMIN_S'', 0x28000053, 0xfe00707f),
     (''CSRRW'', 0x1073, 0x707f), (''SLLIW'', 0x101b, 0xfe00707f), (''LB'', 0x3, 0x707f),
     (''FMAX_S'', 0x28001053, 0xfe00707f), (''LH'', 0x1003, 0x707f),
     (''FCVT_D_W'', 0xd2000053, 0xfff0007f), (''LW'', 0x2003, 0x707f), (''ADD'', 0x33, 0xfe00707f),
     (''CSRRC'', 0x3073, 0x707f), (''FMAX_D'', 0x2a001053, 0xfe00707f), (''BNE'', 0x1063, 0x707f),
     (''FCVT_S_D'', 0x40100053, 0xfff0007f), (''BGEU'', 0x7063, 0x707f),
     (''FADD_D'', 0x2000053, 0xfe00007f), (''SLTIU'', 0x3013, 0x707f), (''FADD_S'', 0x53, 0xfe00007f),
     (''FCLASS_D'', 0xe2001053, 0xfff0707f), (''FCVT_S_W'', 0xd0000053, 0xfff0007f),
     (''MUL'', 0x2000033, 0xfe00707f), (''AMOMINU_D'', 0xc000302f, 0xf800707f),
     (''FCVT_S_LU'', 0xd0300053, 0xfff0007f), (''SRLI'', 0x5013, 0xfc00707f),
     (''AMOMINU_W'', 0xc000202f, 0xf800707f), (''DIVUW'', 0x200503b, 0xfe00707f),
     (''MULW'', 0x200003b, 0xfe00707f), (''SRLW'', 0x503b, 0xfe00707f),
     (''DIV'', 0x2004033, 0xfe00707f), (''FDIV_D'', 0x1a000053, 0xfe00007f), (''FENCE'', 0xf, 0x707f),
     (''FNMSUB_S'', 0x4b, 0x600007f), (''FCVT_L_S'', 0xc0200053, 0xfff0007f),
     (''SBREAK'', 0x100073, 0xffffffff), (''FLE_S'', 0xa0000053, 0xfe00707f),
     (''FDIV_S'', 0x18000053, 0xfe00007f), (''FLE_D'', 0xa2000053, 0xfe00707f),
     (''FENCE_I'', 0x100f, 0x707f), (''FNMSUB_D'', 0x200004b, 0x600007f), (''ADDW'', 0x3b, 0xfe00707f),
     (''SLL'', 0x1033, 0xfe00707f), (''XOR'', 0x4033, 0xfe00707f), (''SUB'', 0x40000033, 0xfe00707f),
     (''BLT'', 0x4063, 0x707f), (''SCALL'', 0x73, 0xffffffff), (''FCLASS_S'', 0xe0001053, 0xfff0707f),
     (''SC_W'', 0x1800202f, 0xf800707f), (''REM'', 0x2006033, 0xfe00707f),
     (''SRLIW'', 0x501b, 0xfe00707f), (''LUI'', 0x37, 0x7f), (''CSRRCI'', 0x7073, 0x707f),
     (''ADDI'', 0x13, 0x707f), (''MULH'', 0x2001033, 0xfe00707f), (''FMUL_S'', 0x10000053, 0xfe00007f),
     (''CSRRSI'', 0x6073, 0x707f), (''SRAI'', 0x40005013, 0xfc00707f),
     (''AMOAND_D'', 0x6000302f, 0xf800707f), (''FLT_D'', 0xa2001053, 0xfe00707f),
     (''SRAW'', 0x4000503b, 0xfe00707f), (''FMUL_D'', 0x12000053, 0xfe00007f),
     (''LD'', 0x3003, 0x707f), (''ORI'', 0x6013, 0x707f), (''CSRRS'', 0x2073, 0x707f),
     (''FLT_S'', 0xa0001053, 0xfe00707f), (''ADDIW'', 0x1b, 0x707f),
     (''AMOAND_W'', 0x6000202f, 0xf800707f), (''FEQ_S'', 0xa0002053, 0xfe00707f),
     (''FSGNJX_D'', 0x22002053, 0xfe00707f), (''SRA'', 0x40005033, 0xfe00707f)]"

definition encodings_2 :: "(string \<times> u32 \<times> u32) list" where
  "encodings_2 = [
     (''BGE'', 0x5063, 0x707f), (''SRAIW'', 0x4000501b, 0xfe00707f), (''SRL'', 0x5033, 0xfe00707f),
     (''FSUB_D'', 0xa000053, 0xfe00007f), (''FSGNJX_S'', 0x20002053, 0xfe00707f),
     (''FEQ_D'', 0xa2002053, 0xfe00707f), (''FCVT_D_WU'', 0xd2100053, 0xfff0007f),
     (''OR'', 0x6033, 0xfe00707f), (''FCVT_WU_D'', 0xc2100053, 0xfff0007f),
     (''SUBW'', 0x4000003b, 0xfe00707f), (''FCVT_D_L'', 0xd2200053, 0xfff0007f),
     (''AMOMAXU_D'', 0xe000302f, 0xf800707f), (''XORI'', 0x4013, 0x707f),
     (''AMOXOR_D'', 0x2000302f, 0xf800707f), (''AMOMAXU_W'', 0xe000202f, 0xf800707f),
     (''FCVT_WU_S'', 0xc0100053, 0xfff0007f), (''ANDI'', 0x7013, 0x707f),
     (''FMV_X_S'', 0xe0000053, 0xfff0707f), (''SRET'', 0x80000073, 0xffffffff),
     (''FNMADD_S'', 0x4f, 0x600007f), (''JAL'', 0x6f, 0x7f), (''LWU'', 0x6003, 0x707f),
     (''FMV_X_D'', 0xe2000053, 0xfff0707f), (''FCVT_D_S'', 0x42000053, 0xfff0007f),
     (''FNMADD_D'', 0x200004f, 0x600007f), (''AMOADD_D'', 0x302f, 0xf800707f),
     (''LR_D'', 0x1000302f, 0xf9f0707f), (''FCVT_W_S'', 0xc0000053, 0xfff0007f),
     (''MULHSU'', 0x2002033, 0xfe00707f), (''AMOADD_W'', 0x202f, 0xf800707f),
     (''FCVT_D_LU'', 0xd2300053, 0xfff0007f), (''LR_W'', 0x1000202f, 0xf9f0707f),
     (''FCVT_W_D'', 0xc2000053, 0xfff0007f), (''SLT'', 0x2033, 0xfe00707f),
     (''SLLW'', 0x103b, 0xfe00707f), (''AMOOR_D'', 0x4000302f, 0xf800707f), (''SLTI'', 0x2013, 0x707f),
     (''REMU'', 0x2007033, 0xfe00707f), (''FLW'', 0x2007, 0x707f), (''REMW'', 0x200603b, 0xfe00707f),
     (''SLTU'', 0x3033, 0xfe00707f), (''SLLI'', 0x1013, 0xfc00707f),
     (''AMOOR_W'', 0x4000202f, 0xf800707f), (''BEQ'', 0x63, 0x707f), (''FLD'', 0x3007, 0x707f),
     (''FSUB_S'', 0x8000053, 0xfe00007f), (''AND'', 0x7033, 0xfe00707f),
     (''FMV_D_X'', 0xf2000053, 0xfff0707f), (''LBU'', 0x4003, 0x707f),
     (''FSGNJ_S'', 0x20000053, 0xfe00707f), (''AMOMAX_W'', 0xa000202f, 0xf800707f),
     (''FSGNJ_D'', 0x22000053, 0xfe00707f), (''MULHU'', 0x2003033, 0xfe00707f),
     (''FCVT_L_D'', 0xc2200053, 0xfff0007f), (''FCVT_S_WU'', 0xd0100053, 0xfff0007f),
     (''FCVT_LU_S'', 0xc0300053, 0xfff0007f), (''FCVT_S_L'', 0xd0200053, 0xfff0007f),
     (''AUIPC'', 0x17, 0x7f), (''FCVT_LU_D'', 0xc2300053, 0xfff0007f), (''CSRRWI'', 0x5073, 0x707f),
     (''SC_D'', 0x1800302f, 0xf800707f), (''FMADD_S'', 0x43, 0x600007f),
     (''FSQRT_S'', 0x58000053, 0xfff0007f), (''AMOMIN_W'', 0x8000202f, 0xf800707f),
     (''FSGNJN_S'', 0x20001053, 0xfe00707f), (''AMOSWAP_D'', 0x800302f, 0xf800707f),
     (''FSQRT_D'', 0x5a000053, 0xfff0007f), (''FMADD_D'', 0x2000043, 0x600007f),
     (''DIVW'', 0x200403b, 0xfe00707f), (''AMOMIN_D'', 0x8000302f, 0xf800707f),
     (''DIVU'', 0x2005033, 0xfe00707f), (''AMOSWAP_W'', 0x800202f, 0xf800707f),
     (''JALR'', 0x67, 0x707f), (''FSD'', 0x3027, 0x707f), (''SW'', 0x2023, 0x707f)]"

definition encodings_3 :: "(string \<times> u32 \<times> u32) list" where
  "encodings_3 = [
     (''FMSUB_S'', 0x47, 0x600007f), (''LHU'', 0x5003, 0x707f), (''SH'', 0x1023, 0x707f),
     (''FSW'', 0x2027, 0x707f), (''SB'', 0x23, 0x707f), (''FMSUB_D'', 0x2000047, 0x600007f),
     (''SD'', 0x3023, 0x707f)]"

text \<open>
  \<^verbatim>\<open>DECLARE_INSN\<close>: the mnemonic and the names of the two macros.
\<close>

definition declared_insns_1 :: "(string \<times> string \<times> string) list" where
  "declared_insns_1 = [
     (''fmv_s_x'', ''FMV_S_X'', ''FMV_S_X''), (''amoxor_w'', ''AMOXOR_W'', ''AMOXOR_W''),
     (''remuw'', ''REMUW'', ''REMUW''), (''fmin_d'', ''FMIN_D'', ''FMIN_D''),
     (''amomax_d'', ''AMOMAX_D'', ''AMOMAX_D''), (''bltu'', ''BLTU'', ''BLTU''),
     (''fsgnjn_d'', ''FSGNJN_D'', ''FSGNJN_D''), (''fmin_s'', ''FMIN_S'', ''FMIN_S''),
     (''csrrw'', ''CSRRW'', ''CSRRW''), (''slliw'', ''SLLIW'', ''SLLIW''), (''lb'', ''LB'', ''LB''),
     (''fmax_s'', ''FMAX_S'', ''FMAX_S''), (''lh'', ''LH'', ''LH''),
     (''fcvt_d_w'', ''FCVT_D_W'', ''FCVT_D_W''), (''lw'', ''LW'', ''LW''), (''add'', ''ADD'', ''ADD''),
     (''csrrc'', ''CSRRC'', ''CSRRC''), (''fmax_d'', ''FMAX_D'', ''FMAX_D''),
     (''bne'', ''BNE'', ''BNE''), (''fcvt_s_d'', ''FCVT_S_D'', ''FCVT_S_D''),
     (''bgeu'', ''BGEU'', ''BGEU''), (''fadd_d'', ''FADD_D'', ''FADD_D''),
     (''sltiu'', ''SLTIU'', ''SLTIU''), (''fadd_s'', ''FADD_S'', ''FADD_S''),
     (''fclass_d'', ''FCLASS_D'', ''FCLASS_D''), (''fcvt_s_w'', ''FCVT_S_W'', ''FCVT_S_W''),
     (''mul'', ''MUL'', ''MUL''), (''amominu_d'', ''AMOMINU_D'', ''AMOMINU_D''),
     (''fcvt_s_lu'', ''FCVT_S_LU'', ''FCVT_S_LU''), (''srli'', ''SRLI'', ''SRLI''),
     (''amominu_w'', ''AMOMINU_W'', ''AMOMINU_W''), (''divuw'', ''DIVUW'', ''DIVUW''),
     (''mulw'', ''MULW'', ''MULW''), (''srlw'', ''SRLW'', ''SRLW''), (''div'', ''DIV'', ''DIV''),
     (''fdiv_d'', ''FDIV_D'', ''FDIV_D''), (''fence'', ''FENCE'', ''FENCE''),
     (''fnmsub_s'', ''FNMSUB_S'', ''FNMSUB_S''), (''fcvt_l_s'', ''FCVT_L_S'', ''FCVT_L_S''),
     (''sbreak'', ''SBREAK'', ''SBREAK''), (''fle_s'', ''FLE_S'', ''FLE_S''),
     (''fdiv_s'', ''FDIV_S'', ''FDIV_S''), (''fle_d'', ''FLE_D'', ''FLE_D''),
     (''fence_i'', ''FENCE_I'', ''FENCE_I''), (''fnmsub_d'', ''FNMSUB_D'', ''FNMSUB_D''),
     (''addw'', ''ADDW'', ''ADDW''), (''sll'', ''SLL'', ''SLL''), (''xor'', ''XOR'', ''XOR''),
     (''sub'', ''SUB'', ''SUB''), (''blt'', ''BLT'', ''BLT''), (''scall'', ''SCALL'', ''SCALL''),
     (''fclass_s'', ''FCLASS_S'', ''FCLASS_S''), (''sc_w'', ''SC_W'', ''SC_W''),
     (''rem'', ''REM'', ''REM''), (''srliw'', ''SRLIW'', ''SRLIW''), (''lui'', ''LUI'', ''LUI''),
     (''csrrci'', ''CSRRCI'', ''CSRRCI''), (''addi'', ''ADDI'', ''ADDI''),
     (''mulh'', ''MULH'', ''MULH''), (''fmul_s'', ''FMUL_S'', ''FMUL_S''),
     (''csrrsi'', ''CSRRSI'', ''CSRRSI''), (''srai'', ''SRAI'', ''SRAI''),
     (''amoand_d'', ''AMOAND_D'', ''AMOAND_D''), (''flt_d'', ''FLT_D'', ''FLT_D''),
     (''sraw'', ''SRAW'', ''SRAW''), (''fmul_d'', ''FMUL_D'', ''FMUL_D''), (''ld'', ''LD'', ''LD''),
     (''ori'', ''ORI'', ''ORI''), (''csrrs'', ''CSRRS'', ''CSRRS''), (''flt_s'', ''FLT_S'', ''FLT_S''),
     (''addiw'', ''ADDIW'', ''ADDIW''), (''amoand_w'', ''AMOAND_W'', ''AMOAND_W''),
     (''feq_s'', ''FEQ_S'', ''FEQ_S''), (''fsgnjx_d'', ''FSGNJX_D'', ''FSGNJX_D''),
     (''sra'', ''SRA'', ''SRA''), (''bge'', ''BGE'', ''BGE''), (''sraiw'', ''SRAIW'', ''SRAIW''),
     (''srl'', ''SRL'', ''SRL''), (''fsub_d'', ''FSUB_D'', ''FSUB_D''),
     (''fsgnjx_s'', ''FSGNJX_S'', ''FSGNJX_S''), (''feq_d'', ''FEQ_D'', ''FEQ_D''),
     (''fcvt_d_wu'', ''FCVT_D_WU'', ''FCVT_D_WU''), (''or'', ''OR'', ''OR''),
     (''fcvt_wu_d'', ''FCVT_WU_D'', ''FCVT_WU_D''), (''subw'', ''SUBW'', ''SUBW''),
     (''fcvt_d_l'', ''FCVT_D_L'', ''FCVT_D_L''), (''amomaxu_d'', ''AMOMAXU_D'', ''AMOMAXU_D''),
     (''xori'', ''XORI'', ''XORI''), (''amoxor_d'', ''AMOXOR_D'', ''AMOXOR_D''),
     (''amomaxu_w'', ''AMOMAXU_W'', ''AMOMAXU_W''), (''fcvt_wu_s'', ''FCVT_WU_S'', ''FCVT_WU_S''),
     (''andi'', ''ANDI'', ''ANDI''), (''fmv_x_s'', ''FMV_X_S'', ''FMV_X_S''),
     (''sret'', ''SRET'', ''SRET''), (''fnmadd_s'', ''FNMADD_S'', ''FNMADD_S''),
     (''jal'', ''JAL'', ''JAL''), (''lwu'', ''LWU'', ''LWU''), (''fmv_x_d'', ''FMV_X_D'', ''FMV_X_D''),
     (''fcvt_d_s'', ''FCVT_D_S'', ''FCVT_D_S''), (''fnmadd_d'', ''FNMADD_D'', ''FNMADD_D''),
     (''amoadd_d'', ''AMOADD_D'', ''AMOADD_D''), (''lr_d'', ''LR_D'', ''LR_D''),
     (''fcvt_w_s'', ''FCVT_W_S'', ''FCVT_W_S''), (''mulhsu'', ''MULHSU'', ''MULHSU''),
     (''amoadd_w'', ''AMOADD_W'', ''AMOADD_W''), (''fcvt_d_lu'', ''FCVT_D_LU'', ''FCVT_D_LU''),
     (''lr_w'', ''LR_W'', ''LR_W''), (''fcvt_w_d'', ''FCVT_W_D'', ''FCVT_W_D''),
     (''slt'', ''SLT'', ''SLT''), (''sllw'', ''SLLW'', ''SLLW''),
     (''amoor_d'', ''AMOOR_D'', ''AMOOR_D''), (''slti'', ''SLTI'', ''SLTI''),
     (''remu'', ''REMU'', ''REMU''), (''flw'', ''FLW'', ''FLW''), (''remw'', ''REMW'', ''REMW''),
     (''sltu'', ''SLTU'', ''SLTU''), (''slli'', ''SLLI'', ''SLLI''),
     (''amoor_w'', ''AMOOR_W'', ''AMOOR_W''), (''beq'', ''BEQ'', ''BEQ''), (''fld'', ''FLD'', ''FLD''),
     (''fsub_s'', ''FSUB_S'', ''FSUB_S''), (''and'', ''AND'', ''AND''),
     (''fmv_d_x'', ''FMV_D_X'', ''FMV_D_X''), (''lbu'', ''LBU'', ''LBU''),
     (''fsgnj_s'', ''FSGNJ_S'', ''FSGNJ_S''), (''amomax_w'', ''AMOMAX_W'', ''AMOMAX_W''),
     (''fsgnj_d'', ''FSGNJ_D'', ''FSGNJ_D''), (''mulhu'', ''MULHU'', ''MULHU''),
     (''fcvt_l_d'', ''FCVT_L_D'', ''FCVT_L_D''), (''fcvt_s_wu'', ''FCVT_S_WU'', ''FCVT_S_WU''),
     (''fcvt_lu_s'', ''FCVT_LU_S'', ''FCVT_LU_S''), (''fcvt_s_l'', ''FCVT_S_L'', ''FCVT_S_L''),
     (''auipc'', ''AUIPC'', ''AUIPC''), (''fcvt_lu_d'', ''FCVT_LU_D'', ''FCVT_LU_D''),
     (''csrrwi'', ''CSRRWI'', ''CSRRWI''), (''sc_d'', ''SC_D'', ''SC_D''),
     (''fmadd_s'', ''FMADD_S'', ''FMADD_S''), (''fsqrt_s'', ''FSQRT_S'', ''FSQRT_S''),
     (''amomin_w'', ''AMOMIN_W'', ''AMOMIN_W''), (''fsgnjn_s'', ''FSGNJN_S'', ''FSGNJN_S''),
     (''amoswap_d'', ''AMOSWAP_D'', ''AMOSWAP_D''), (''fsqrt_d'', ''FSQRT_D'', ''FSQRT_D''),
     (''fmadd_d'', ''FMADD_D'', ''FMADD_D''), (''divw'', ''DIVW'', ''DIVW''),
     (''amomin_d'', ''AMOMIN_D'', ''AMOMIN_D''), (''divu'', ''DIVU'', ''DIVU''),
     (''amoswap_w'', ''AMOSWAP_W'', ''AMOSWAP_W''), (''jalr'', ''JALR'', ''JALR''),
     (''fsd'', ''FSD'', ''FSD''), (''sw'', ''SW'', ''SW'')]"

definition declared_insns_2 :: "(string \<times> string \<times> string) list" where
  "declared_insns_2 = [
     (''fmsub_s'', ''FMSUB_S'', ''FMSUB_S''), (''lhu'', ''LHU'', ''LHU''), (''sh'', ''SH'', ''SH''),
     (''fsw'', ''FSW'', ''FSW''), (''sb'', ''SB'', ''SB''), (''fmsub_d'', ''FMSUB_D'', ''FMSUB_D''),
     (''sd'', ''SD'', ''SD'')]"

text \<open>
  \<^verbatim>\<open>CSR_x\<close>, and \<^verbatim>\<open>DECLARE_CSR\<close> with the names of the macros.
\<close>

definition csr_macros :: "(string \<times> u32) list" where
  "csr_macros = [
     (''FFLAGS'', 0x1), (''FRM'', 0x2), (''FCSR'', 0x3), (''STATS'', 0xc0), (''SUP0'', 0x500),
     (''SUP1'', 0x501), (''EPC'', 0x502), (''BADVADDR'', 0x503), (''PTBR'', 0x504), (''ASID'', 0x505),
     (''COUNT'', 0x506), (''COMPARE'', 0x507), (''EVEC'', 0x508), (''CAUSE'', 0x509),
     (''STATUS'', 0x50a), (''HARTID'', 0x50b), (''IMPL'', 0x50c), (''FATC'', 0x50d),
     (''SEND_IPI'', 0x50e), (''CLEAR_IPI'', 0x50f), (''RESET'', 0x51d), (''TOHOST'', 0x51e),
     (''FROMHOST'', 0x51f), (''CYCLE'', 0xc00), (''TIME'', 0xc01), (''INSTRET'', 0xc02),
     (''UARCH0'', 0xcc0), (''UARCH1'', 0xcc1), (''UARCH2'', 0xcc2), (''UARCH3'', 0xcc3),
     (''UARCH4'', 0xcc4), (''UARCH5'', 0xcc5), (''UARCH6'', 0xcc6), (''UARCH7'', 0xcc7),
     (''UARCH8'', 0xcc8), (''UARCH9'', 0xcc9), (''UARCH10'', 0xcca), (''UARCH11'', 0xccb),
     (''UARCH12'', 0xccc), (''UARCH13'', 0xccd), (''UARCH14'', 0xcce), (''UARCH15'', 0xccf),
     (''COUNTH'', 0x586), (''CYCLEH'', 0xc80), (''TIMEH'', 0xc81), (''INSTRETH'', 0xc82)]"

definition declared_csrs :: "(string \<times> string) list" where
  "declared_csrs = [
     (''fflags'', ''FFLAGS''), (''frm'', ''FRM''), (''fcsr'', ''FCSR''), (''stats'', ''STATS''),
     (''sup0'', ''SUP0''), (''sup1'', ''SUP1''), (''epc'', ''EPC''), (''badvaddr'', ''BADVADDR''),
     (''ptbr'', ''PTBR''), (''asid'', ''ASID''), (''count'', ''COUNT''), (''compare'', ''COMPARE''),
     (''evec'', ''EVEC''), (''cause'', ''CAUSE''), (''status'', ''STATUS''), (''hartid'', ''HARTID''),
     (''impl'', ''IMPL''), (''fatc'', ''FATC''), (''send_ipi'', ''SEND_IPI''),
     (''clear_ipi'', ''CLEAR_IPI''), (''reset'', ''RESET''), (''tohost'', ''TOHOST''),
     (''fromhost'', ''FROMHOST''), (''cycle'', ''CYCLE''), (''time'', ''TIME''),
     (''instret'', ''INSTRET''), (''uarch0'', ''UARCH0''), (''uarch1'', ''UARCH1''),
     (''uarch2'', ''UARCH2''), (''uarch3'', ''UARCH3''), (''uarch4'', ''UARCH4''),
     (''uarch5'', ''UARCH5''), (''uarch6'', ''UARCH6''), (''uarch7'', ''UARCH7''),
     (''uarch8'', ''UARCH8''), (''uarch9'', ''UARCH9''), (''uarch10'', ''UARCH10''),
     (''uarch11'', ''UARCH11''), (''uarch12'', ''UARCH12''), (''uarch13'', ''UARCH13''),
     (''uarch14'', ''UARCH14''), (''uarch15'', ''UARCH15''), (''counth'', ''COUNTH''),
     (''cycleh'', ''CYCLEH''), (''timeh'', ''TIMEH''), (''instreth'', ''INSTRETH'')]"

text \<open>
  \<^verbatim>\<open>CAUSE_x\<close>, and \<^verbatim>\<open>DECLARE_CAUSE\<close> with the names of the macros.
\<close>

definition cause_macros :: "(string \<times> u32) list" where
  "cause_macros = [
     (''MISALIGNED_FETCH'', 0x0), (''FAULT_FETCH'', 0x1), (''ILLEGAL_INSTRUCTION'', 0x2),
     (''PRIVILEGED_INSTRUCTION'', 0x3), (''FP_DISABLED'', 0x4), (''SYSCALL'', 0x6),
     (''BREAKPOINT'', 0x7), (''MISALIGNED_LOAD'', 0x8), (''MISALIGNED_STORE'', 0x9),
     (''FAULT_LOAD'', 0xa), (''FAULT_STORE'', 0xb), (''ACCELERATOR_DISABLED'', 0xc)]"

definition declared_causes :: "(string \<times> string) list" where
  "declared_causes = [
     (''fflags'', ''FFLAGS''), (''frm'', ''FRM''), (''fcsr'', ''FCSR''), (''stats'', ''STATS''),
     (''sup0'', ''SUP0''), (''sup1'', ''SUP1''), (''epc'', ''EPC''), (''badvaddr'', ''BADVADDR''),
     (''ptbr'', ''PTBR''), (''asid'', ''ASID''), (''count'', ''COUNT''), (''compare'', ''COMPARE''),
     (''evec'', ''EVEC''), (''cause'', ''CAUSE''), (''status'', ''STATUS''), (''hartid'', ''HARTID''),
     (''impl'', ''IMPL''), (''fatc'', ''FATC''), (''send_ipi'', ''SEND_IPI''),
     (''clear_ipi'', ''CLEAR_IPI''), (''reset'', ''RESET''), (''tohost'', ''TOHOST''),
     (''fromhost'', ''FROMHOST''), (''cycle'', ''CYCLE''), (''time'', ''TIME''),
     (''instret'', ''INSTRET''), (''uarch0'', ''UARCH0''), (''uarch1'', ''UARCH1''),
     (''uarch2'', ''UARCH2''), (''uarch3'', ''UARCH3''), (''uarch4'', ''UARCH4''),
     (''uarch5'', ''UARCH5''), (''uarch6'', ''UARCH6''), (''uarch7'', ''UARCH7''),
     (''uarch8'', ''UARCH8''), (''uarch9'', ''UARCH9''), (''uarch10'', ''UARCH10''),
     (''uarch11'', ''UARCH11''), (''uarch12'', ''UARCH12''), (''uarch13'', ''UARCH13''),
     (''uarch14'', ''UARCH14''), (''uarch15'', ''UARCH15''), (''counth'', ''COUNTH''),
     (''cycleh'', ''CYCLEH''), (''timeh'', ''TIMEH''), (''instreth'', ''INSTRETH'')]"

text \<open>
  The whole tables; \<open>insns\<close> has the values the preprocessor puts in for the macros.
\<close>

definition encodings :: "(string \<times> u32 \<times> u32) list" where
  "encodings = encodings_1 @ encodings_2 @ encodings_3"

definition declared_insns :: "(string \<times> string \<times> string) list" where
  "declared_insns = declared_insns_1 @ declared_insns_2"

definition insns :: "(string \<times> u32 \<times> u32) list" where
  "insns = map (\<lambda>(n, a, b). (n, fst (the (map_of encodings a)), snd (the (map_of encodings b)))) declared_insns"

text \<open>
  A word is the instruction with a value and a mask of the bits that count.
\<close>

definition matches :: "u32 \<times> u32 \<Rightarrow> u32 \<Rightarrow> bool" where
  "matches e w \<longleftrightarrow> w AND snd e = fst e"

section \<open>The decoder of the processor\<close>

text \<open>
  The keys of \<^verbatim>\<open>decode_table\<close> with their bit patterns. Some entries decode as illegal if the
  processor is built without the feature; the keys are the same in every build.
\<close>

definition decode_keys :: "(string \<times> string) list" where
  "decode_keys = [
     (''LUI'', ''?????????????????????????0110111''),
     (''AUIPC'', ''?????????????????????????0010111''),
     (''JAL'', ''?????????????????????????1101111''), (''JALR'', ''?????????????????000?????1100111''),
     (''BEQ'', ''?????????????????000?????1100011''), (''BNE'', ''?????????????????001?????1100011''),
     (''BLT'', ''?????????????????100?????1100011''), (''BGE'', ''?????????????????101?????1100011''),
     (''BLTU'', ''?????????????????110?????1100011''),
     (''BGEU'', ''?????????????????111?????1100011''), (''LB'', ''?????????????????000?????0000011''),
     (''LH'', ''?????????????????001?????0000011''), (''LW'', ''?????????????????010?????0000011''),
     (''LBU'', ''?????????????????100?????0000011''), (''LHU'', ''?????????????????101?????0000011''),
     (''SB'', ''?????????????????000?????0100011''), (''SH'', ''?????????????????001?????0100011''),
     (''SW'', ''?????????????????010?????0100011''), (''ADDI'', ''?????????????????000?????0010011''),
     (''SLTI'', ''?????????????????010?????0010011''),
     (''SLTIU'', ''?????????????????011?????0010011''),
     (''XORI'', ''?????????????????100?????0010011''), (''ORI'', ''?????????????????110?????0010011''),
     (''ANDI'', ''?????????????????111?????0010011''),
     (''SLLI'', ''000000???????????001?????0010011''),
     (''SRLI'', ''000000???????????101?????0010011''),
     (''SRAI'', ''010000???????????101?????0010011''), (''ADD'', ''0000000??????????000?????0110011''),
     (''SUB'', ''0100000??????????000?????0110011''), (''SLL'', ''0000000??????????001?????0110011''),
     (''SLT'', ''0000000??????????010?????0110011''), (''SLTU'', ''0000000??????????011?????0110011''),
     (''XOR'', ''0000000??????????100?????0110011''), (''SRL'', ''0000000??????????101?????0110011''),
     (''SRA'', ''0100000??????????101?????0110011''), (''OR'', ''0000000??????????110?????0110011''),
     (''AND'', ''0000000??????????111?????0110011''),
     (''CSRRW'', ''?????????????????001?????1110011''),
     (''CSRRS'', ''?????????????????010?????1110011''),
     (''CSRRC'', ''?????????????????011?????1110011''),
     (''CSRRWI'', ''?????????????????101?????1110011''),
     (''CSRRSI'', ''?????????????????110?????1110011''),
     (''CSRRCI'', ''?????????????????111?????1110011''),
     (''FENCE'', ''?????????????????000?????0001111''),
     (''FENCE_I'', ''?????????????????001?????0001111''),
     (''MUL'', ''0000001??????????000?????0110011''), (''MULH'', ''0000001??????????001?????0110011''),
     (''MULHSU'', ''0000001??????????010?????0110011''),
     (''MULHU'', ''0000001??????????011?????0110011''),
     (''SCALL'', ''0??????????0?????000?????1110011''),
     (''SRET'', ''1????????????????000?????1110011''), (''DU'', ''?????????????????111?????0001011''),
     (''WU'', ''?????????????????111?????0101011''), (''IE'', ''?????????????????111?????1011011''),
     (''MT_REG'', ''?????????????????010?????1111011''), (''FD'', ''?????????????????111?????1111011'')]"

text \<open>
  A pattern has a digit for a bit that counts and a question mark for one that does not.
\<close>

definition pattern_value :: "string \<Rightarrow> u32" where
  "pattern_value p = foldl (\<lambda>v c. 2 * v + (if c = CHR ''1'' then 1 else 0)) 0 p"

definition pattern_care :: "string \<Rightarrow> u32" where
  "pattern_care p = foldl (\<lambda>v c. 2 * v + (if c = CHR ''?'' then 0 else 1)) 0 p"

definition pattern :: "string \<Rightarrow> u32 \<times> u32" where
  "pattern p = (pattern_value p, pattern_care p)"

text \<open>
  The keys that match, as in \<^verbatim>\<open>DecodeLogic.logic\<close>; with none the instruction is illegal.
\<close>

definition decodes_as :: "u32 \<Rightarrow> string list" where
  "decodes_as w = map fst (filter (\<lambda>(n, p). matches (pattern p) w) decode_keys)"

section \<open>Disjointness\<close>

text \<open>
  Two entries overlap when no bit that counts in both differs (\<^verbatim>\<open>Term.intersects\<close>).
\<close>

definition overlap :: "u32 \<times> u32 \<Rightarrow> u32 \<times> u32 \<Rightarrow> bool" where
  "overlap e f \<longleftrightarrow> (fst e XOR fst f) AND snd e AND snd f = 0"

lemma matches_overlap: "matches e w \<Longrightarrow> matches f w \<Longrightarrow> overlap e f"
  unfolding matches_def overlap_def by (drule sym [of _ "fst e"], drule sym [of _ "fst f"]) (rule bit_word_eqI, auto simp: bit_simps)

text \<open>
  Entries with different keys are apart, so only those with the same key are compared.
\<close>

lemma sorted_wrt_buckets:
  assumes "list_all (\<lambda>k. sorted_wrt P (filter (\<lambda>x. key x = k) xs)) ks" "list_all (\<lambda>x. key x \<in> set ks) xs"
    and "\<And>x y. key x \<noteq> key y \<Longrightarrow> P x y"
  shows "sorted_wrt P xs"
  using assms(1,2)
proof (induction xs)
  case (Cons x xs)
  have "P x y" if "y \<in> set xs" for y
  proof (cases "key x = key y")
    case True
    with Cons.prems that show ?thesis by (auto simp: list_all_iff)
  qed (rule assms(3))
  moreover have "list_all (\<lambda>k. sorted_wrt P (filter (\<lambda>x. key x = k) xs)) ks"
    using Cons.prems(1) by (auto simp: list_all_iff split: if_splits)
  ultimately show ?case
    using Cons by simp
qed simp

lemma distinct_of_sorted_wrt: "sorted_wrt (\<noteq>) xs \<Longrightarrow> distinct xs"
  by (induction xs) auto

text \<open>
  The two tables as one: the entries of the header, with the wider patterns of the processor for
  \<^verbatim>\<open>SCALL\<close> and \<^verbatim>\<open>SRET\<close>, and the timing instructions.
\<close>

definition only_processor :: "string list" where
  "only_processor = [''SCALL'', ''SRET'', ''DU'', ''WU'', ''IE'', ''MT_REG'', ''FD'']"

definition wide :: "(string \<times> u32 \<times> u32) list" where
  "wide = filter (\<lambda>(n, e). n \<notin> {''SCALL'', ''SRET''}) encodings @
     map (\<lambda>(n, p). (n, pattern p)) (filter (\<lambda>(n, p). n \<in> set only_processor) decode_keys)"

text \<open>
  For the comparison the entries are integers, after their lowest seven bits, the opcode.
\<close>

definition opcode_ints :: "u32 \<times> u32 \<Rightarrow> int \<times> int \<times> int" where
  "opcode_ints e = (uint (fst e) AND 127, uint (fst e), uint (snd e))"

definition ints_apart :: "int \<times> int \<times> int \<Rightarrow> int \<times> int \<times> int \<Rightarrow> bool" where
  "ints_apart = (\<lambda>(p, a, b) (q, c, d). p = q \<longrightarrow> (a XOR c) AND b AND d \<noteq> 0)"


definition opcodes :: "int list" where
  "opcodes = [83, 47, 51, 59, 115, 19, 3, 99, 27, 35, 15, 75, 79, 7, 67, 39, 71, 55, 111, 23, 103, 11, 43, 91, 123]"

definition wide_ints :: "(int \<times> int \<times> int) list" where
  "wide_ints = map (\<lambda>(n, e). opcode_ints e) wide"

lemma wide_opcodes: "list_all (\<lambda>(p, a, b). p \<in> set opcodes \<and> b AND 127 = 127) wide_ints"
  by code_simp

lemma wide_apart_float: "list_all (\<lambda>k. sorted_wrt ints_apart (filter (\<lambda>x. fst x = k) wide_ints)) (take 1 opcodes)"
  by code_simp

lemma wide_apart_others: "list_all (\<lambda>k. sorted_wrt ints_apart (filter (\<lambda>x. fst x = k) wide_ints)) (drop 1 opcodes)"
  by code_simp

lemma names_distinct: "distinct (map fst encodings)"
proof -
  have "list_all (\<lambda>k. sorted_wrt (\<noteq>) (filter (\<lambda>x. length x = k) (map fst encodings))) [2..<11]"
    by code_simp
  moreover have "list_all (\<lambda>x. length x \<in> set [2..<11]) (map fst encodings)"
    by code_simp
  ultimately have "sorted_wrt (\<noteq>) (map fst encodings)"
    by (rule sorted_wrt_buckets) auto
  then show ?thesis
    by (rule distinct_of_sorted_wrt)
qed

lemma wide_sorted: "sorted_wrt ints_apart wide_ints"
proof (rule sorted_wrt_buckets)
  have "opcodes = take 1 opcodes @ drop 1 opcodes" by simp
  with wide_apart_float wide_apart_others
  show "list_all (\<lambda>k. sorted_wrt ints_apart (filter (\<lambda>x. fst x = k) wide_ints)) opcodes"
    by (metis list_all_append)
  show "list_all (\<lambda>x. fst x \<in> set opcodes) wide_ints"
    using wide_opcodes by (rule list.pred_mono_strong) auto
qed (auto simp: ints_apart_def)

text \<open>Of the two tables together at most one entry matches a word.\<close>

lemma opcode_of_match:
  assumes "matches e w" "uint (snd e) AND 127 = 127"
  shows "uint (fst e) AND 127 = uint w AND 127"
proof -
  have "uint (fst e) = uint w AND uint (snd e)"
    using assms(1) by (metis matches_def unsigned_and_eq)
  then show ?thesis
    using assms(2) by (simp add: and.assoc)
qed

lemma ints_apart_match:
  assumes "ints_apart (opcode_ints e) (opcode_ints f)" "uint (snd e) AND 127 = 127" "uint (snd f) AND 127 = 127"
  shows "\<not> (matches e w \<and> matches f w)"
proof
  assume "matches e w \<and> matches f w"
  then have "overlap e f" "uint (fst e) AND 127 = uint (fst f) AND 127"
    using matches_overlap [of e w f] opcode_of_match [of e w] opcode_of_match [of f w] assms(2,3) by simp_all
  moreover from \<open>overlap e f\<close> have "(uint (fst e) XOR uint (fst f)) AND uint (snd e) AND uint (snd f) = 0"
    unfolding overlap_def by (metis unsigned_0 unsigned_and_eq unsigned_xor_eq)
  ultimately show False
    using assms(1) by (simp add: ints_apart_def opcode_ints_def)
qed

lemma length_wide_ints: "length wide_ints = length wide"
  by (simp add: wide_ints_def)

lemma wide_unique:
  assumes "i < length wide" "j < length wide" "matches (snd (wide ! i)) w" "matches (snd (wide ! j)) w"
  shows "i = j"
proof -
  have nth: "wide_ints ! k = opcode_ints (snd (wide ! k)) \<and> uint (snd (snd (wide ! k))) AND 127 = 127" if "k < length wide" for k
  proof -
    have "wide_ints ! k = opcode_ints (snd (wide ! k))" and len: "length wide_ints = length wide"
      using that by (simp_all add: wide_ints_def split_beta)
    moreover have "(\<lambda>(p, a, b). p \<in> set opcodes \<and> b AND 127 = 127) (wide_ints ! k)"
      using wide_opcodes that len by (simp add: list_all_length)
    ultimately show ?thesis
      by (simp add: opcode_ints_def)
  qed
  have "\<not> (matches (snd (wide ! k)) w \<and> matches (snd (wide ! l)) w)" if "k < l" "l < length wide" for k l
  proof (rule ints_apart_match)
    have "ints_apart (wide_ints ! k) (wide_ints ! l)"
      using sorted_wrt_nth_less [OF wide_sorted that(1)] that(2) by (simp only: length_wide_ints)
    with nth [of k] nth [of l] that
    show "ints_apart (opcode_ints (snd (wide ! k))) (opcode_ints (snd (wide ! l)))" by simp
  qed (use nth [of k] nth [of l] that in simp_all)
  with assms show ?thesis
    by (metis linorder_neqE_nat)
qed

lemma wide_entries:
  assumes "(n, e) \<in> set wide" "(m, f) \<in> set wide" "matches e w" "matches f w"
  shows "n = m \<and> e = f"
  using assms wide_unique by (metis in_set_conv_nth prod.inject snd_conv)

lemma declared_names:
  "map (\<lambda>(n, a, b). a) declared_insns = map fst encodings" "map (\<lambda>(n, a, b). b) declared_insns = map fst encodings"
  by (simp_all add: declared_insns_def declared_insns_1_def declared_insns_2_def encodings_def encodings_1_def
      encodings_2_def encodings_3_def)

lemma map_of_nth_fst: "distinct (map fst xs) \<Longrightarrow> i < length xs \<Longrightarrow> map_of xs (fst (xs ! i)) = Some (snd (xs ! i))"
  by (simp add: map_of_is_SomeI)

lemma map_of_map_fst: "distinct (map fst xs) \<Longrightarrow> map (\<lambda>n. the (map_of xs n)) (map fst xs) = map snd xs"
  by (rule nth_equalityI) (simp_all add: map_of_nth_fst)

lemma insns_encodings: "map snd insns = map snd encodings"
proof -
  have "map (\<lambda>n. the (map_of encodings n)) (map fst encodings) = map snd encodings"
    by (rule map_of_map_fst [OF names_distinct])
  moreover have "map (\<lambda>(n, a, b). the (map_of encodings a)) declared_insns = map (\<lambda>n. the (map_of encodings n)) (map fst encodings)"
    unfolding declared_names(1) [symmetric] by (simp add: split_beta comp_def)
  moreover have "map snd insns = map (\<lambda>(n, a, b). the (map_of encodings a)) declared_insns"
  proof -
    have "a = b" if "(n, a, b) \<in> set declared_insns" for n a b
    proof -
      have "map (\<lambda>(n, a, b). a) declared_insns = map (\<lambda>(n, a, b). b) declared_insns"
        by (simp only: declared_names)
      with that show ?thesis by (auto simp: map_eq_conv)
    qed
    then show ?thesis
      by (force simp: insns_def)
  qed
  ultimately show ?thesis by simp
qed

lemma keys_distinct: "distinct (map fst decode_keys)"
  by code_simp

text \<open>Where the keys of the processor are in the table of the header.\<close>

definition key_positions :: "nat list" where
  "key_positions = [
     55, 132, 95, 147, 118, 18, 49, 75, 5, 20, 10, 12, 14, 123, 151, 154, 152, 149, 57, 111, 22, 87,
     67, 91, 116, 29, 61, 15, 48, 46, 108, 115, 47, 77, 74, 82, 121, 8, 68, 16, 134, 60, 56, 36, 43,
     26, 58, 103, 127]"

lemma keys_at_positions:
  "map (\<lambda>(n, p). (n, pattern p)) (filter (\<lambda>(n, p). n \<notin> set only_processor) decode_keys) = map (\<lambda>i. encodings ! i) key_positions"
  by code_simp

lemma positions_valid: "list_all (\<lambda>i. i < length encodings) key_positions"
  by code_simp

lemma special_patterns:
  "map_of decode_keys ''SCALL'' = Some ''0??????????0?????000?????1110011''"
  "map_of decode_keys ''SRET'' = Some ''1????????????????000?????1110011''"
  by code_simp+

lemma only_processor_fresh: "list_all (\<lambda>n. map_of encodings n = None) (drop 2 only_processor)"
  by code_simp

lemma wide_key:
  assumes "(n, p) \<in> set decode_keys"
  shows "(n, pattern p) \<in> set wide"
proof (cases "n \<in> set only_processor")
  case False
  have "\<forall>i \<in> set key_positions. encodings ! i \<in> set encodings"
    using positions_valid by (simp add: list_all_iff)
  then have "set (map (\<lambda>i. encodings ! i) key_positions) \<subseteq> set encodings"
    by auto
  moreover have "(n, pattern p) \<in> set (map (\<lambda>(n, p). (n, pattern p)) (filter (\<lambda>(n, p). n \<notin> set only_processor) decode_keys))"
    using assms False by force
  ultimately have "(n, pattern p) \<in> set encodings"
    unfolding keys_at_positions by blast
  with False show ?thesis
    by (auto simp: wide_def only_processor_def)
qed (use assms in \<open>force simp: wide_def\<close>)

lemma wide_cases:
  assumes "(n, e) \<in> set wide"
  shows "(n, e) \<in> set encodings \<and> n \<notin> set only_processor \<or>
    (\<exists>p. e = pattern p \<and> (n, p) \<in> set decode_keys \<and> n \<in> set only_processor)"
proof -
  have "m \<notin> fst ` set encodings" if "m \<in> set (drop 2 only_processor)" for m
    using only_processor_fresh that by (simp add: list_all_iff map_of_eq_None_iff)
  then have "n \<notin> set (drop 2 only_processor)" if "(n, e) \<in> set encodings"
    using that by (metis fst_conv image_eqI)
  moreover have "set only_processor = {''SCALL'', ''SRET''} \<union> set (drop 2 only_processor)"
    by (auto simp: only_processor_def)
  moreover have "(n, e) \<in> set encodings \<and> n \<notin> {''SCALL'', ''SRET''} \<or>
      (\<exists>p. e = pattern p \<and> (n, p) \<in> set decode_keys \<and> n \<in> set only_processor)"
    using assms unfolding wide_def by auto
  ultimately show ?thesis
    by blast
qed

lemma wide_functional: "(n, e) \<in> set wide \<Longrightarrow> (n, f) \<in> set wide \<Longrightarrow> e = f"
  using wide_cases [of n e] wide_cases [of n f] eq_key_imp_eq_value [OF names_distinct, of n e f]
    eq_key_imp_eq_value [OF keys_distinct, of n] by metis

lemma wide_header:
  assumes "(n, e) \<in> set encodings" "matches e w"
  shows "\<exists>f. (n, f) \<in> set wide \<and> matches f w"
proof (cases "n = ''SCALL'' \<or> n = ''SRET''")
  case True
  have "map_of encodings ''SCALL'' = Some (0x73, 0xffffffff)" "map_of encodings ''SRET'' = Some (0x80000073, 0xffffffff)"
    by code_simp+
  moreover have "map_of encodings n = Some e"
    using assms(1) names_distinct by simp
  ultimately have "e = (0x73, 0xffffffff) \<and> n = ''SCALL'' \<or> e = (0x80000073, 0xffffffff) \<and> n = ''SRET''"
    using True by auto
  moreover have "w AND 0xffffffff = w"
  proof -
    have "(0xffffffff :: u32) = - 1" by simp
    then show ?thesis by (metis and.right_neutral)
  qed
  ultimately have "w = 0x73 \<and> n = ''SCALL'' \<or> w = 0x80000073 \<and> n = ''SRET''"
    using assms(2) by (auto simp: matches_def)
  moreover have "matches (pattern ''0??????????0?????000?????1110011'') 0x73"
    "matches (pattern ''1????????????????000?????1110011'') 0x80000073"
    by code_simp+
  ultimately show ?thesis
    using special_patterns [THEN map_of_SomeD, THEN wide_key] by blast
next
  case False
  with assms(1) have "(n, e) \<in> set wide"
    by (simp add: wide_def)
  with assms(2) show ?thesis by blast
qed

lemma filter_single:
  "distinct (map fst xs) \<Longrightarrow> (n, p) \<in> set xs \<Longrightarrow> Q (n, p) \<Longrightarrow> (\<And>m q. (m, q) \<in> set xs \<Longrightarrow> Q (m, q) \<Longrightarrow> m = n) \<Longrightarrow>
    map fst (filter Q xs) = [n]"
proof (induction xs)
  case (Cons x xs)
  show ?case
  proof (cases "x = (n, p)")
    case True
    with Cons.prems(1,4) have "\<not> Q (m, q)" if "(m, q) \<in> set xs" for m q
      using that by (metis distinct.simps(2) fst_conv image_eqI list.set_intros(2) list.set_map list.simps(9))
    then have "filter Q xs = []"
      by (auto simp: filter_empty_conv)
    with True Cons.prems(3) show ?thesis by simp
  next
    case False
    with Cons.prems(1,2) have "(n, p) \<in> set xs" "fst x \<noteq> n"
      by (auto simp: rev_image_eqI)
    moreover have "\<not> Q x"
      using \<open>fst x \<noteq> n\<close> Cons.prems(4) [of "fst x" "snd x"] by auto
    moreover have "map fst (filter Q xs) = [n]"
      using \<open>(n, p) \<in> set xs\<close> Cons.prems(1,3,4) by (intro Cons.IH) auto
    ultimately show ?thesis by simp
  qed
qed simp

lemma decodes_as_key:
  assumes "(n, f) \<in> set wide" "matches f w"
  shows "decodes_as w = (if n \<in> fst ` set decode_keys then [n] else [])"
proof -
  have only: "m = n" if "(m, q) \<in> set decode_keys" "matches (pattern q) w" for m q
    using wide_entries [OF wide_key [OF that(1)] assms(1) that(2) assms(2)] by simp
  show ?thesis
  proof (cases "n \<in> fst ` set decode_keys")
    case True
    then obtain p where p: "(n, p) \<in> set decode_keys" by auto
    with assms wide_functional wide_key [OF p] have "matches (pattern p) w" by blast
    then have "decodes_as w = [n]"
      unfolding decodes_as_def using only by (intro filter_single [OF keys_distinct p]) auto
    with True show ?thesis by simp
  next
    case False
    with only have "\<not> matches (pattern q) w" if "(m, q) \<in> set decode_keys" for m q
      using that by (metis fst_conv image_eqI)
    then have "decodes_as w = []"
      by (auto simp: decodes_as_def filter_empty_conv)
    with False show ?thesis by simp
  qed
qed

section \<open>Control registers\<close>

text \<open>The names the operating system uses for the registers, as \<^verbatim>\<open>flexpret_encoding.h\<close> defines them.\<close>

fun csr_name :: "csr \<Rightarrow> string" where
  "csr_name CSR_CLOCK = ''fflags''"
| "csr_name CSR_SLOTS = ''badvaddr''"
| "csr_name CSR_TMODES = ''ptbr''"
| "csr_name (CSR_GPI i) = [''uarch0'', ''uarch1'', ''uarch2'', ''uarch3''] ! i"
| "csr_name (CSR_GPO i) = [''uarch4'', ''uarch5'', ''uarch6'', ''uarch7''] ! i"
| "csr_name (CSR_MUTEX i) = [''uarch8'', ''uarch9'', ''uarch10'', ''uarch11'', ''uarch12'', ''uarch13'',
     ''uarch14'', ''uarch15''] ! i"
| "csr_name CSR_COMPARE = ''compare''"
| "csr_name CSR_HARTID = ''hartid''"
| "csr_name CSR_CAUSE = ''cause''"
| "csr_name CSR_CYCLE = ''cycle''"
| "csr_name CSR_CYCLEH = ''cycleh''"
| "csr_name CSR_INSTRET = ''instret''"
| "csr_name CSR_INSTRETH = ''instreth''"
| "csr_name CSR_TOHOST = ''tohost''"

text \<open>The number the assembler puts in an instruction for a register name.\<close>

definition csr_number :: "string \<Rightarrow> u32" where
  "csr_number r = the (map_of csr_macros (the (map_of declared_csrs r)))"

fun csr_exists :: "csr \<Rightarrow> bool" where
  "csr_exists (CSR_GPI i) = (i < 4)"
| "csr_exists (CSR_GPO i) = (i < 4)"
| "csr_exists (CSR_MUTEX i) = (i < 8)"
| "csr_exists _ = True"

definition all_csrs :: "csr list" where
  "all_csrs = [CSR_CLOCK, CSR_SLOTS, CSR_TMODES, CSR_COMPARE, CSR_HARTID, CSR_CAUSE, CSR_CYCLE, CSR_CYCLEH,
     CSR_INSTRET, CSR_INSTRETH, CSR_TOHOST, CSR_GPI 0, CSR_GPI 1, CSR_GPI 2, CSR_GPI 3,
     CSR_GPO 0, CSR_GPO 1, CSR_GPO 2, CSR_GPO 3, CSR_MUTEX 0, CSR_MUTEX 1, CSR_MUTEX 2, CSR_MUTEX 3,
     CSR_MUTEX 4, CSR_MUTEX 5, CSR_MUTEX 6, CSR_MUTEX 7]"

lemma csr_exists_all: "csr_exists r \<Longrightarrow> r \<in> set all_csrs"
  by (cases r) (auto simp: all_csrs_def less_8_cases numeral_eq_Suc less_Suc_eq)

lemma csr_numbers:
  "map (\<lambda>r. csr_number (csr_name r)) all_csrs = [0x1, 0x503, 0x504, 0x507, 0x50b, 0x509, 0xc00, 0xc80, 0xc02, 0xc82,
     0x51e, 0xcc0, 0xcc1, 0xcc2, 0xcc3, 0xcc4, 0xcc5, 0xcc6, 0xcc7, 0xcc8, 0xcc9, 0xcca, 0xccb, 0xccc, 0xccd, 0xcce, 0xccf]"
  by code_simp

text \<open>
  Different registers of the model have different numbers, so that it is right to keep them as
  different fields of a machine.
\<close>

lemma csr_numbers_distinct:
  assumes "csr_exists r" "csr_exists q" "csr_number (csr_name r) = csr_number (csr_name q)"
  shows "r = q"
proof -
  have "distinct (map (\<lambda>r. csr_number (csr_name r)) all_csrs)"
    unfolding csr_numbers by simp
  then show ?thesis
    using assms csr_exists_all by (auto simp: distinct_map dest: inj_onD)
qed

text \<open>All register names that are declared have a number; no name declared as a cause has one.\<close>

lemma declared_csrs_defined: "map snd declared_csrs = map fst csr_macros"
  by (simp add: declared_csrs_def csr_macros_def)

lemma declared_causes_undefined: "list_all (\<lambda>(n, c). map_of cause_macros c = None) declared_causes"
  by code_simp

section \<open>Instruction words\<close>

text \<open>
  The word the assembler makes of an access to a control register; \<open>x\<close> is the number of the
  source register, or the immediate value.
\<close>

definition csr_word :: "string \<Rightarrow> u32 \<Rightarrow> string \<Rightarrow> u32 \<Rightarrow> u32" where
  "csr_word n rd r x = fst (the (map_of encodings n)) OR push_bit 20 (csr_number r) OR push_bit 15 x OR
     push_bit 7 (take_bit 5 rd)"

lemma csr_word_fields:
  "(m OR push_bit 20 c OR push_bit 15 x OR push_bit 7 (take_bit 5 rd)) AND 0x707f = m AND (0x707f :: u32)"
proof -
  have "(0x707f :: u32) = mask 7 OR push_bit 12 (mask 3)"
    by (simp add: mask_numeral)
  then show ?thesis
    by (simp only: bit_eq_iff) (auto simp: bit_simps)
qed

text \<open>Every access the macros of the header make is decoded as the instruction it is meant to be.\<close>

lemma csr_word_decoded:
  assumes "n \<in> {''CSRRW'', ''CSRRS'', ''CSRRC'', ''CSRRSI'', ''CSRRCI''}"
  shows "decodes_as (csr_word n rd r x) = [n]"
proof -
  have enc: "map_of encodings ''CSRRW'' = Some (0x1073, 0x707f)" "map_of encodings ''CSRRS'' = Some (0x2073, 0x707f)"
    "map_of encodings ''CSRRC'' = Some (0x3073, 0x707f)" "map_of encodings ''CSRRSI'' = Some (0x6073, 0x707f)"
    "map_of encodings ''CSRRCI'' = Some (0x7073, 0x707f)"
    by code_simp+
  have keys: "{''CSRRW'', ''CSRRS'', ''CSRRC'', ''CSRRSI'', ''CSRRCI''} \<subseteq> fst ` set decode_keys"
    by (simp add: decode_keys_def)
  obtain m where m: "map_of encodings n = Some (m, 0x707f)" "m AND 0x707f = m"
    using assms enc by auto
  then have "matches (m, 0x707f) (csr_word n rd r x)"
    by (simp add: matches_def csr_word_def csr_word_fields)
  then obtain f where "(n, f) \<in> set wide" "matches f (csr_word n rd r x)"
    using wide_header [OF map_of_SomeD [OF m(1)]] by blast
  then show ?thesis
    using decodes_as_key keys assms by auto
qed

text \<open>
  The word the test benches look for to raise an external interrupt is \<^verbatim>\<open>csrr a0, frm\<close>, as their
  comment says. The registers of \<^verbatim>\<open>counters_start\<close> and \<^verbatim>\<open>counters_end\<close>, \<^verbatim>\<open>uarch14\<close> and \<^verbatim>\<open>uarch15\<close>, are
  those the benches for bare programs watch; the bench for the operating system watches
  \<^verbatim>\<open>send_ipi\<close> and \<^verbatim>\<open>clear_ipi\<close>.
\<close>

lemma trigger_word: "csr_word ''CSRRS'' 10 ''frm'' 0 = 0x00202573"
  by code_simp

lemma counter_registers:
  "csr_number ''uarch14'' = 0xCCE" "csr_number ''uarch15'' = 0xCCF"
  "csr_number ''send_ipi'' = 0x50E" "csr_number ''clear_ipi'' = 0x50F"
  by code_simp+

section \<open>Properties\<close>

text \<open>
  The instruction table of the header is unambiguous: no word of 32 bits matches two of the
  declared instructions.
\<close>

theorem encodings_unambiguous:
  assumes "i < length insns" "j < length insns" "matches (snd (insns ! i)) w" "matches (snd (insns ! j)) w"
  shows "i = j"
proof -
  have len: "length insns = length encodings"
    using insns_encodings by (metis length_map)
  have nth: "snd (insns ! k) = snd (encodings ! k)" if "k < length encodings" for k
    using insns_encodings that len by (metis nth_map)
  define n e m f where "n = fst (encodings ! i)" and "e = snd (encodings ! i)"
    and "m = fst (encodings ! j)" and "f = snd (encodings ! j)"
  have "(n, e) \<in> set encodings" "(m, f) \<in> set encodings" "matches e w" "matches f w"
    using assms nth len by (simp_all add: n_def e_def m_def f_def)
  then have "n = m"
    using wide_header wide_entries by metis
  then show ?thesis
    using nth_eq_iff_index_eq [OF names_distinct, of i j] assms(1,2) len by (simp add: n_def m_def)
qed

theorem encodings_unambiguous_witness:
  "{i. i < length insns \<and> matches (snd (insns ! i)) 0x00202573} = {68}"
proof -
  have "encodings ! 68 = (''CSRRS'', 0x2073, 0x707f)" "length encodings = 157"
    by code_simp+
  moreover have "length insns = length encodings"
    using insns_encodings by (metis length_map)
  moreover have "map snd insns ! 68 = map snd encodings ! 68"
    by (simp only: insns_encodings)
  ultimately have "68 < length insns" "matches (snd (insns ! 68)) 0x00202573"
    by (simp_all add: matches_def)
  with encodings_unambiguous [of 68 _ "0x00202573"] show ?thesis by blast
qed

text \<open>
  C14: processor and header agree. A word the header gives an instruction is decoded as that
  instruction and no other, or as illegal if the processor does not have the instruction; and what
  the processor decodes as an instruction of the header is that one. Only \<^verbatim>\<open>SCALL\<close> and \<^verbatim>\<open>SRET\<close>, for
  which the processor does not look at all the bits, are taken for more words than the header says.
\<close>

theorem processor_decodes_header:
  assumes "(n, e) \<in> set encodings"
  shows "(matches e w \<longrightarrow> decodes_as w = (if n \<in> fst ` set decode_keys then [n] else [])) \<and>
    (n \<notin> {''SCALL'', ''SRET''} \<and> decodes_as w = [n] \<longrightarrow> matches e w)"
proof (intro conjI impI)
  show "decodes_as w = (if n \<in> fst ` set decode_keys then [n] else [])" if "matches e w"
    using wide_header [OF assms that] decodes_as_key by blast
next
  assume n: "n \<notin> {''SCALL'', ''SRET''} \<and> decodes_as w = [n]"
  then have "n \<in> set (decodes_as w)" by simp
  then obtain p where p: "(n, p) \<in> set decode_keys" "matches (pattern p) w"
    by (auto simp: decodes_as_def)
  moreover have "(n, e) \<in> set wide"
    using assms n by (auto simp: wide_def)
  ultimately show "matches e w"
    using wide_functional [OF wide_key [OF p(1)]] by blast
qed

theorem processor_decodes_header_witness:
  "decodes_as (0x00202573 :: u32) = [''CSRRS'']"
proof -
  have "map_of encodings ''CSRRS'' = Some (0x2073, 0x707f)" "''CSRRS'' \<in> fst ` set decode_keys"
    by (code_simp, simp add: decode_keys_def)
  with processor_decodes_header [of "''CSRRS''" "(0x2073, 0x707f)" "0x00202573"] show ?thesis
    by (simp add: matches_def map_of_SomeD)
qed

end
