(* ===== verification/Pipeline.thy ===== *)
theory Pipeline
  imports Kernel_Properties
begin

text \<open>
  \<^verbatim>\<open>src/src/Core/scheduler.scala\<close>: the hardware that decides in every cycle which thread the next
  instruction is fetched for, from the slot table and the thread modes the operating system
  writes. It is the reader of the registers of \<open>Slots\<close>, and says what a slot is worth: cycles.
  Configuration: eight threads. The registers change only when a thread writes them or falls
  asleep or wakes; the lemmas are about the cycles between two changes. A cycle given to a
  thread whose instruction is then flushed or stalled counts as its cycle. The index
  \<^verbatim>\<open>threadBits\<close> of the slot takes in a fourth bit, which the output of three bits drops.
\<close>

section \<open>Turns\<close>

text \<open>The first \<open>n\<close> elements of a queue whose head goes to the back when it was served.\<close>

primrec turns :: "nat \<Rightarrow> 'a list \<Rightarrow> 'a list" where
  "turns 0 q = []"
| "turns (Suc n) q = (case q of [] \<Rightarrow> [] | x # xs \<Rightarrow> x # turns n (xs @ [x]))"

lemma turns_Nil [simp]: "turns n [] = []"
  by (cases n) simp_all

lemma turns_add: "turns (m + n) q = turns m q @ turns n (rotate m q)"
proof (induction m arbitrary: q)
  case (Suc m)
  then show ?case
    by (cases q) (simp_all add: rotate1_rotate_swap)
qed simp

lemma turns_prefix: "turns (length xs) (xs @ ys) = xs"
  by (induction xs arbitrary: ys) simp_all

lemma turns_once: "turns (length q) q = q"
  using turns_prefix [of q "[]"] by simp

lemma turns_rounds: "turns (k * length q) q = concat (replicate k q)"
  by (induction k) (simp_all add: turns_add turns_once)

lemma length_turns: "q \<noteq> [] \<Longrightarrow> length (turns n q) = n"
  by (induction n arbitrary: q) (simp_all split: list.split)

lemma set_turns: "set (turns n q) \<subseteq> set q"
proof (induction n arbitrary: q)
  case (Suc n)
  show ?case
  proof (cases q)
    case (Cons x xs)
    then show ?thesis using Suc.IH [of "xs @ [x]"] by auto
  qed simp
qed simp

lemma count_rounds: "count_list (concat (replicate k q)) x = k * count_list q x"
  by (induction k) simp_all

lemma filter_rounds: "filter P (concat (replicate k q)) = concat (replicate k (filter P q))"
  by (induction k) simp_all

section \<open>The arbiter\<close>

definition any :: "bool list \<Rightarrow> bool" where
  "any bs = foldl (\<or>) False bs"

definition priorityArbiter :: "bool list \<Rightarrow> bool list" where
  "priorityArbiter request =
     request ! 0 # map (\<lambda>i. request ! i \<and> \<not> any (take i request)) [1..<length request]"

definition RRArbiterMaskMethod :: "bool list \<Rightarrow> bool list \<Rightarrow> bool list" where
  "RRArbiterMaskMethod request lastGrantOH =
    (let mask = False # map (\<lambda>i. any (take i lastGrantOH)) [1..<length lastGrantOH];
         maskedRequest = map2 (\<and>) request mask;
         maskedGrant = priorityArbiter maskedRequest;
         unmaskedGrant = priorityArbiter request;
         useMaskedGrant = any maskedRequest
     in map2 (\<lambda>m u. if useMaskedGrant then m else u) maskedGrant unmaskedGrant)"

text \<open>
  Chisel's selection by a value with one bit set: the input at that bit, and its index. With no bit
  set both are 0.
\<close>

definition Mux1H :: "bool list \<Rightarrow> u8 list \<Rightarrow> u8" where
  "Mux1H sel xs = foldr (OR) (map2 (\<lambda>b x. if b then x else 0) sel xs) 0"

definition OHToUInt :: "bool list \<Rightarrow> nat" where
  "OHToUInt sel = foldr (OR) (map2 (\<lambda>b i. if b then i else 0) sel [0..<length sel]) 0"

text \<open>The value of a register that has at most one bit set.\<close>

definition one_hot :: "nat option \<Rightarrow> bool list" where
  "one_hot g = map (\<lambda>i. Some i = g) [0..<8]"

text \<open>The order in which the arbiter looks at the requests, after the one it granted last.\<close>

definition ring :: "nat option \<Rightarrow> nat list" where
  "ring g = rotate (case g of None \<Rightarrow> 0 | Some l \<Rightarrow> Suc l) [0..<8]"

definition first :: "'a list \<Rightarrow> 'a option" where
  "first q = (case q of [] \<Rightarrow> None | x # _ \<Rightarrow> Some x)"

lemma ring_simps:
  "ring None = [0..<8]"
  "l < 8 \<Longrightarrow> ring (Some l) = [Suc l..<8] @ [0..<Suc l]"
proof -
  show "ring None = [0..<8]" by (simp add: ring_def)
  assume "l < 8"
  then have "[0..<8] = [0..<Suc l] @ [Suc l..<8]"
    using upt_add_eq_append [of 0 "Suc l" "8 - Suc l"] by (simp del: upt_Suc)
  then show "ring (Some l) = [Suc l..<8] @ [0..<Suc l]"
    using rotate_append [of "[0..<Suc l]" "[Suc l..<8]"] by (simp add: ring_def del: upt_Suc rotate_Suc)
qed

lemma any_iff: "any bs \<longleftrightarrow> True \<in> set bs"
proof -
  have "foldl (\<or>) b bs \<longleftrightarrow> b \<or> True \<in> set bs" for b
    by (induction bs arbitrary: b) auto
  then show ?thesis by (simp add: any_def)
qed

lemma any_take: "i \<le> length bs \<Longrightarrow> any (take i bs) \<longleftrightarrow> (\<exists>j < i. bs ! j)"
  by (auto simp: any_iff in_set_conv_nth)

lemma nth_priorityArbiter:
  "request \<noteq> [] \<Longrightarrow> length (priorityArbiter request) = length request \<and>
   (\<forall>i < length request. priorityArbiter request ! i \<longleftrightarrow> request ! i \<and> (\<forall>j < i. \<not> request ! j))"
  by (auto simp: priorityArbiter_def nth_Cons any_take split: nat.split)

lemma first_filter_upt:
  "first (filter P [a..<b]) = Some i \<longleftrightarrow> a \<le> i \<and> i < b \<and> P i \<and> (\<forall>j. a \<le> j \<longrightarrow> j < i \<longrightarrow> \<not> P j)"
  "first (filter P [a..<b]) = None \<longleftrightarrow> (\<forall>j. a \<le> j \<longrightarrow> j < b \<longrightarrow> \<not> P j)"
proof -
  have find: "first (filter P xs) = find P xs" for xs
    by (induction xs) (simp_all add: first_def)
  show "first (filter P [a..<b]) = Some i \<longleftrightarrow> a \<le> i \<and> i < b \<and> P i \<and> (\<forall>j. a \<le> j \<longrightarrow> j < i \<longrightarrow> \<not> P j)"
  proof
    assume "first (filter P [a..<b]) = Some i"
    then obtain k where "k < b - a" "P (a + k)" "i = a + k" "\<forall>j < k. \<not> P (a + j)"
      by (auto simp: find find_Some_iff)
    then show "a \<le> i \<and> i < b \<and> P i \<and> (\<forall>j. a \<le> j \<longrightarrow> j < i \<longrightarrow> \<not> P j)"
      by (metis add_less_cancel_left le_Suc_ex le_add1 less_diff_conv add.commute)
  next
    assume "a \<le> i \<and> i < b \<and> P i \<and> (\<forall>j. a \<le> j \<longrightarrow> j < i \<longrightarrow> \<not> P j)"
    then show "first (filter P [a..<b]) = Some i"
      unfolding find find_Some_iff by (intro exI [of _ "i - a"]) auto
  qed
  show "first (filter P [a..<b]) = None \<longleftrightarrow> (\<forall>j. a \<le> j \<longrightarrow> j < b \<longrightarrow> \<not> P j)"
    by (auto simp: find find_None_iff)
qed

lemma first_append: "first (xs @ ys) = (case first xs of None \<Rightarrow> first ys | Some x \<Rightarrow> Some x)"
  by (simp add: first_def split: list.split)

lemma priority_one_hot:
  assumes "length request = 8"
  shows "priorityArbiter request = one_hot (first (filter ((!) request) [0..<8]))"
proof (rule nth_equalityI)
  have "request \<noteq> []" using assms by auto
  note n = nth_priorityArbiter [OF this]
  then show "length (priorityArbiter request) = length (one_hot (first (filter ((!) request) [0..<8])))"
    using assms by (simp add: one_hot_def)
  show "priorityArbiter request ! i = one_hot (first (filter ((!) request) [0..<8])) ! i"
    if "i < length (priorityArbiter request)" for i
    using that n assms first_filter_upt(1) [of "(!) request" 0 8 i]
    by (auto simp: one_hot_def)
qed

lemma map2_if: "length xs = length ys \<Longrightarrow> map2 (\<lambda>m u. if c then m else u) xs ys = (if c then xs else ys)"
  by (rule nth_equalityI) auto

text \<open>The mask method grants the next request of the ring.\<close>

lemma arbiter_next:
  assumes "length request = 8" "case g of None \<Rightarrow> True | Some l \<Rightarrow> l < 8"
  shows "RRArbiterMaskMethod request (one_hot g) = one_hot (first (filter ((!) request) (ring g)))"
proof -
  let ?after = "\<lambda>i. request ! i \<and> (case g of None \<Rightarrow> False | Some l \<Rightarrow> l < i)"
  define mask where "mask = False # map (\<lambda>i. any (take i (one_hot g))) [1..<length (one_hot g)]"
  have mask: "length mask = 8" "i < 8 \<Longrightarrow> mask ! i \<longleftrightarrow> (case g of None \<Rightarrow> False | Some l \<Rightarrow> l < i)" for i
    by (auto simp: mask_def nth_Cons any_take one_hot_def split: nat.split option.split)
  let ?masked = "map2 (\<and>) request mask"
  have masked: "length ?masked = 8" "i < 8 \<Longrightarrow> ?masked ! i \<longleftrightarrow> ?after i" for i
    using assms(1) mask by auto
  have grant: "priorityArbiter ?masked = one_hot (first (filter ?after [0..<8]))"
    unfolding priority_one_hot [OF masked(1)]
    by (rule arg_cong [where f = "\<lambda>q. one_hot (first q)"], rule filter_cong) (simp_all add: masked(2) del: nth_zip)
  have use: "any ?masked \<longleftrightarrow> (\<exists>i < 8. ?after i)"
    unfolding any_iff in_set_conv_nth masked(1) using masked(2) by blast
  have "RRArbiterMaskMethod request (one_hot g) =
      (if any ?masked then priorityArbiter ?masked else priorityArbiter request)"
    unfolding RRArbiterMaskMethod_def Let_def mask_def [symmetric]
    by (rule map2_if) (simp add: grant priority_one_hot [OF assms(1)] one_hot_def)
  also have "\<dots> = one_hot (first (filter ((!) request) (ring g)))"
  proof (cases g)
    case None
    then show ?thesis
      by (simp add: use priority_one_hot [OF assms(1)] ring_simps)
  next
    case (Some l)
    have split: "[0..<8] = [0..<Suc l] @ [Suc l..<8]"
      using assms(2) Some upt_add_eq_append [of 0 "Suc l" "8 - Suc l"] by (simp del: upt_Suc)
    have low: "filter ?after [0..<Suc l] = []" and high: "filter ?after [Suc l..<8] = filter ((!) request) [Suc l..<8]"
      using Some by (auto simp: filter_empty_conv intro: filter_cong)
    have none: "\<not> (\<exists>i < 8. ?after i) \<longleftrightarrow> filter ((!) request) [Suc l..<8] = []"
      using Some by (auto simp: filter_empty_conv)
    show ?thesis
    proof (cases "\<exists>i < 8. ?after i")
      case True
      moreover have "filter ?after [0..<8] = filter ((!) request) [Suc l..<8]"
        unfolding split filter_append low high by simp
      moreover have "filter ((!) request) [Suc l..<8] \<noteq> []"
        using none True by blast
      ultimately show ?thesis
        unfolding use grant using Some assms(2) by (auto simp: ring_simps first_append first_def simp del: upt_Suc split: list.split)
    next
      case False
      moreover from False none have "filter ((!) request) [Suc l..<8] = []" by blast
      moreover from this have "filter ((!) request) [0..<8] = filter ((!) request) [0..<Suc l]"
        unfolding split filter_append by simp
      ultimately show ?thesis
        unfolding use priority_one_hot [OF assms(1)] using Some assms(2) by (auto simp: ring_simps simp del: upt_Suc)
    qed
  qed
  finally show ?thesis .
qed

text \<open>What its clients rely on: it serves the requests in turn.\<close>

locale fair_arbiter =
  fixes arbiter :: "bool list \<Rightarrow> bool list \<Rightarrow> bool list"
  assumes next_grant: "length request = 8 \<Longrightarrow> case g of None \<Rightarrow> True | Some l \<Rightarrow> l < 8 \<Longrightarrow>
    arbiter request (one_hot g) = one_hot (first (filter ((!) request) (ring g)))"
begin

lemma no_request:
  assumes "length request = 8" "case g of None \<Rightarrow> True | Some l \<Rightarrow> l < 8"
    "filter ((!) request) (ring g) = []"
  shows "arbiter request (one_hot g) = one_hot None"
  by (simp add: next_grant [OF assms(1,2)] assms(3) first_def)

lemma served:
  assumes "length request = 8" "case g of None \<Rightarrow> True | Some l \<Rightarrow> l < 8"
    "filter ((!) request) (ring g) = i # q"
  shows "arbiter request (one_hot g) = one_hot (Some i) \<and> i < 8 \<and>
    filter ((!) request) (ring (Some i)) = q @ [i]"
proof -
  obtain xs ys where r: "ring g = xs @ i # ys" and q: "q = filter ((!) request) ys"
      and xs: "\<forall>x \<in> set xs. \<not> request ! x" and i: "request ! i"
    using filter_eq_ConsD [OF assms(3)] by blast
  define k where "k = (case g of None \<Rightarrow> 0 | Some l \<Rightarrow> Suc l)"
  have rot: "xs @ i # ys = rotate k [0..<8]"
    using r by (simp add: ring_def k_def)
  then have len: "length xs + Suc (length ys) = 8"
    by (metis length_append length_Cons length_rotate length_upt diff_zero)
  have "i = (k + length xs) mod 8"
    using arg_cong [OF rot, of "\<lambda>z. z ! length xs"] len by (simp add: nth_rotate)
  then have i8: "i < 8" and "Suc i mod 8 = Suc (length xs + k) mod 8"
    by (simp_all add: mod_Suc_eq add.commute)
  then have "rotate (Suc i) [0..<8] = rotate (Suc (length xs + k)) [0..<8]"
    using rotate_conv_mod [of "Suc i" "[0..<8]"] rotate_conv_mod [of "Suc (length xs + k)" "[0..<8]"] by simp
  also have "\<dots> = rotate (length (xs @ [i])) (rotate k [0..<8])"
    by (simp add: rotate_rotate del: rotate_Suc)
  also have "\<dots> = ys @ xs @ [i]"
    using rotate_append [of "xs @ [i]" ys] by (simp add: rot [symmetric] del: rotate_Suc)
  finally have "ring (Some i) = ys @ xs @ [i]"
    by (simp add: ring_def del: rotate_Suc)
  then show ?thesis
    using next_grant [OF assms(1,2)] assms(3) i8 q xs i by (simp add: first_def)
qed

end

interpretation mask_arbiter: fair_arbiter RRArbiterMaskMethod
  by unfold_locales (rule arbiter_next)

section \<open>The scheduler\<close>

record scheduler_regs =
  slotOH :: "bool list"
  threadModeOH :: "bool list"

definition threadActive :: "u32 list \<Rightarrow> nat \<Rightarrow> bool" where
  "threadActive thread_modes i \<longleftrightarrow>
     thread_modes ! i = word_of_int TMODE_HA \<or> thread_modes ! i = word_of_int TMODE_SA"

text \<open>One cycle: the outputs \<^verbatim>\<open>thread\<close> and \<^verbatim>\<open>valid\<close> and the next values of the registers.\<close>

definition Scheduler_module :: "u8 list \<Rightarrow> u32 list \<Rightarrow> scheduler_regs \<Rightarrow> (nat \<times> bool) \<times> scheduler_regs" where
  "Scheduler_module slots thread_modes r =
    (let slotRequest = map (\<lambda>i. i \<noteq> SLOT_D) slots;
         slotGrantOH = RRArbiterMaskMethod slotRequest (slotOH r);
         slotGrantValid = any slotGrantOH;
         slotSelected = Mux1H slotGrantOH slots;
         threadModeRequest = map (\<lambda>i. i = word_of_int TMODE_SA) thread_modes;
         threadModeGrantOH = RRArbiterMaskMethod threadModeRequest (threadModeOH r);
         threadModeGrantValid = any threadModeGrantOH;
         threadSelected = OHToUInt threadModeGrantOH;
         slotThread = unat (take_bit 3 slotSelected)
     in if slotGrantValid then
          let r = r\<lparr>slotOH := slotGrantOH\<rparr> in
          if slotSelected \<noteq> SLOT_S \<and> threadActive thread_modes slotThread then ((slotThread, True), r)
          else if threadModeGrantValid then
            ((threadSelected, True), r\<lparr>threadModeOH := threadModeGrantOH\<rparr>)
          else ((slotThread, False), r)
        else ((slotThread, False), r))"

text \<open>The other configuration, \<^verbatim>\<open>roundRobin\<close>, has a counter and does not look at the slots.\<close>

definition Scheduler_round_robin :: "u32 list \<Rightarrow> nat \<Rightarrow> (nat \<times> bool) \<times> nat" where
  "Scheduler_round_robin thread_modes currentThread =
    ((currentThread, threadActive thread_modes currentThread),
     if currentThread < 8 - 1 then currentThread + 1 else 0)"

definition initial_regs :: scheduler_regs where
  "initial_regs = \<lparr>slotOH = replicate 8 False, threadModeOH = replicate 8 False\<rparr>"

text \<open>The cycles while the registers of the operating system keep their values.\<close>

primrec cycles :: "u8 list \<Rightarrow> u32 list \<Rightarrow> nat \<Rightarrow> scheduler_regs \<Rightarrow> (nat \<times> bool) list \<times> scheduler_regs" where
  "cycles slots modes 0 r = ([], r)"
| "cycles slots modes (Suc n) r =
     (let (out, r) = Scheduler_module slots modes r; (outs, r) = cycles slots modes n r in (out # outs, r))"

text \<open>The reference: the slots in turn, those that no active thread owns to the soft threads in turn.\<close>

definition owned :: "u32 list \<Rightarrow> u8 \<Rightarrow> bool" where
  "owned modes x \<longleftrightarrow> x \<noteq> SLOT_S \<and> threadActive modes (unat (take_bit 3 x))"

primrec serve :: "u32 list \<Rightarrow> u8 list \<Rightarrow> nat list \<Rightarrow> nat option list" where
  "serve modes [] q = []"
| "serve modes (x # xs) q =
     (if owned modes x then Some (unat (take_bit 3 x)) # serve modes xs q
      else case q of [] \<Rightarrow> None # serve modes xs [] | t # ts \<Rightarrow> Some t # serve modes xs (ts @ [t]))"

definition fetches :: "nat \<times> bool \<Rightarrow> nat option" where
  "fetches out = (if snd out then Some (fst out) else None)"

lemma fetches_pair: "fetches (t, v) = (if v then Some t else None)"
  by (simp add: fetches_def)

primrec round_robin_cycles :: "u32 list \<Rightarrow> nat \<Rightarrow> nat \<Rightarrow> (nat \<times> bool) list" where
  "round_robin_cycles modes 0 c = []"
| "round_robin_cycles modes (Suc n) c =
     (let (out, c) = Scheduler_round_robin modes c in out # round_robin_cycles modes n c)"

lemma round_robin_turns:
  assumes "c < 8"
  shows "map fetches (round_robin_cycles modes n c) =
    map (\<lambda>t. if threadActive modes t then Some t else None) (turns n (rotate c [0..<8]))"
  using assms
proof (induction n arbitrary: c)
  case (Suc n)
  define q where "q = tl (rotate c [0..<8])"
  have q: "rotate c [0..<8] = c # q" "rotate (if c < 7 then c + 1 else 0) [0..<8] = q @ [c]"
    using Suc.prems unfolding less_8_cases q_def by (elim disjE; simp add: upt_rec numeral_eq_Suc)+
  have "map fetches (round_robin_cycles modes n (if c < 7 then c + 1 else 0)) =
      map (\<lambda>t. if threadActive modes t then Some t else None) (turns n (q @ [c]))"
    using Suc.IH [of "if c < 7 then c + 1 else 0"] unfolding q by simp
  then show ?case
    unfolding q by (simp add: Scheduler_round_robin_def fetches_pair)
qed simp

definition slot_queue :: "u8 list \<Rightarrow> nat option \<Rightarrow> u8 list" where
  "slot_queue slots g = map ((!) slots) (filter ((!) (map (\<lambda>i. i \<noteq> SLOT_D) slots)) (ring g))"

definition soft_queue :: "u32 list \<Rightarrow> nat option \<Rightarrow> nat list" where
  "soft_queue modes g = filter ((!) (map (\<lambda>i. i = word_of_int TMODE_SA) modes)) (ring g)"

definition granted :: "nat option \<Rightarrow> bool" where
  "granted g = (case g of None \<Rightarrow> True | Some l \<Rightarrow> l < 8)"

definition regs :: "nat option \<Rightarrow> nat option \<Rightarrow> scheduler_regs" where
  "regs g h = \<lparr>slotOH = one_hot g, threadModeOH = one_hot h\<rparr>"

definition one_hot_regs :: "scheduler_regs \<Rightarrow> bool" where
  "one_hot_regs r \<longleftrightarrow> (\<exists>g h. granted g \<and> granted h \<and> r = regs g h)"

lemma any_one_hot: "granted g \<Longrightarrow> any (one_hot g) \<longleftrightarrow> g \<noteq> None"
  by (auto simp: any_iff one_hot_def granted_def image_iff split: option.splits)

lemma select_one_hot:
  assumes "l < 8" "length slots = 8"
  shows "Mux1H (one_hot (Some l)) slots = slots ! l" "OHToUInt (one_hot (Some l)) = l"
proof -
  obtain a b c d e f g h where "slots = [a, b, c, d, e, f, g, h]"
    using assms(2) by (auto simp: length_Suc_conv numeral_eq_Suc)
  then show "Mux1H (one_hot (Some l)) slots = slots ! l"
    using assms(1) unfolding less_8_cases by (auto simp: Mux1H_def one_hot_def upt_rec)
  show "OHToUInt (one_hot (Some l)) = l"
    using assms(1) unfolding less_8_cases by (auto simp: OHToUInt_def one_hot_def upt_rec)
qed

lemma initial_one_hot: "one_hot_regs initial_regs"
proof -
  have "initial_regs = regs None None"
    by (simp add: initial_regs_def regs_def one_hot_def map_replicate_const)
  moreover have "granted None" by (simp add: granted_def)
  ultimately show ?thesis unfolding one_hot_regs_def by blast
qed

lemma slot_arbiter:
  assumes "length slots = 8" "granted g"
  shows "slot_queue slots g = [] \<Longrightarrow>
      RRArbiterMaskMethod (map (\<lambda>i. i \<noteq> SLOT_D) slots) (one_hot g) = one_hot None"
    "slot_queue slots g = x # xs \<Longrightarrow> \<exists>l < 8.
      RRArbiterMaskMethod (map (\<lambda>i. i \<noteq> SLOT_D) slots) (one_hot g) = one_hot (Some l) \<and>
      slots ! l = x \<and> slot_queue slots (Some l) = xs @ [x]"
proof -
  let ?q = "filter ((!) (map (\<lambda>i. i \<noteq> SLOT_D) slots)) (ring g)"
  have a: "length (map (\<lambda>i. i \<noteq> SLOT_D) slots) = 8" "case g of None \<Rightarrow> True | Some l \<Rightarrow> l < 8"
    using assms by (simp_all add: granted_def)
  show "RRArbiterMaskMethod (map (\<lambda>i. i \<noteq> SLOT_D) slots) (one_hot g) = one_hot None"
    if "slot_queue slots g = []"
    using mask_arbiter.no_request [OF a] that by (simp add: slot_queue_def)
  assume "slot_queue slots g = x # xs"
  then obtain l q where "?q = l # q" "slots ! l = x" "map ((!) slots) q = xs"
    by (auto simp: slot_queue_def)
  then show "\<exists>l < 8. RRArbiterMaskMethod (map (\<lambda>i. i \<noteq> SLOT_D) slots) (one_hot g) = one_hot (Some l) \<and>
      slots ! l = x \<and> slot_queue slots (Some l) = xs @ [x]"
    using mask_arbiter.served [OF a, of l q] by (auto simp: slot_queue_def)
qed

lemma mode_arbiter:
  assumes "length modes = 8" "granted g"
  shows "soft_queue modes g = [] \<Longrightarrow>
      RRArbiterMaskMethod (map (\<lambda>i. i = word_of_int TMODE_SA) modes) (one_hot g) = one_hot None"
    "soft_queue modes g = t # ts \<Longrightarrow> t < 8 \<and>
      RRArbiterMaskMethod (map (\<lambda>i. i = word_of_int TMODE_SA) modes) (one_hot g) = one_hot (Some t) \<and>
      soft_queue modes (Some t) = ts @ [t]"
  using assms mask_arbiter.no_request [of "map (\<lambda>i. i = word_of_int TMODE_SA) modes" g]
    mask_arbiter.served [of "map (\<lambda>i. i = word_of_int TMODE_SA) modes" g t ts]
  by (simp_all add: soft_queue_def granted_def)

lemma Scheduler_idle:
  assumes "length slots = 8" "granted g" "slot_queue slots g = []"
  shows "\<exists>t. Scheduler_module slots modes (regs g h) = ((t, False), regs g h)"
  using slot_arbiter(1) [OF assms]
  by (simp add: Scheduler_module_def Let_def regs_def any_one_hot granted_def)

lemma Scheduler_step:
  assumes "length slots = 8" "length modes = 8" "granted g" "granted h" "slot_queue slots g = x # xs"
  obtains out g' h' where "Scheduler_module slots modes (regs g h) = (out, regs g' h')"
    "granted g'" "granted h'" "slot_queue slots g' = xs @ [x]"
    "fetches out # serve modes ys (soft_queue modes h') = serve modes (x # ys) (soft_queue modes h)"
proof -
  obtain l where l: "l < 8" "RRArbiterMaskMethod (map (\<lambda>i. i \<noteq> SLOT_D) slots) (one_hot g) = one_hot (Some l)"
      "slots ! l = x" "slot_queue slots (Some l) = xs @ [x]"
    using slot_arbiter(2) [OF assms(1,3,5)] by blast
  let ?step = "Scheduler_module slots modes (regs g h)"
  have step: "?step =
    (if owned modes x then ((unat (take_bit 3 x), True), regs (Some l) h)
     else if soft_queue modes h = [] then ((unat (take_bit 3 x), False), regs (Some l) h)
     else ((hd (soft_queue modes h), True), regs (Some l) (Some (hd (soft_queue modes h)))))"
    using l mode_arbiter [OF assms(2,4)] select_one_hot [OF l(1) assms(1)]
    by (cases "soft_queue modes h")
      (auto simp: Scheduler_module_def regs_def owned_def any_one_hot granted_def select_one_hot [OF _ assms(1)])
  show thesis
  proof (cases "owned modes x \<or> soft_queue modes h = []")
    case True
    then show thesis
      using that [of _ "Some l" h] step l(1,4) assms(4) by (auto simp: granted_def fetches_def split: if_splits)
  next
    case False
    then show thesis
      using that [of _ "Some l" "Some (hd (soft_queue modes h))"] step l(1,4) mode_arbiter(2) [OF assms(2,4)]
      by (cases "soft_queue modes h") (auto simp: granted_def fetches_def)
  qed
qed

lemma cycles_serve:
  assumes "length slots = 8" "length modes = 8" "granted g" "granted h" "slot_queue slots g \<noteq> []"
  shows "map fetches (fst (cycles slots modes n (regs g h))) =
    serve modes (turns n (slot_queue slots g)) (soft_queue modes h)"
  using assms(3-5)
proof (induction n arbitrary: g h)
  case (Suc n)
  then obtain x xs where q: "slot_queue slots g = x # xs" by (auto simp: neq_Nil_conv)
  obtain out g' h' where step: "Scheduler_module slots modes (regs g h) = (out, regs g' h')"
    "granted g'" "granted h'" "slot_queue slots g' = xs @ [x]"
    "fetches out # serve modes (turns n (xs @ [x])) (soft_queue modes h') =
       serve modes (x # turns n (xs @ [x])) (soft_queue modes h)"
    using Scheduler_step [OF assms(1,2) Suc.prems(1,2) q, of "turns n (xs @ [x])"] by metis
  have "map fetches (fst (cycles slots modes n (regs g' h'))) =
      serve modes (turns n (xs @ [x])) (soft_queue modes h')"
    using Suc.IH [OF step(2,3)] step(4) by simp
  then show ?case
    using step(1,5) by (simp add: q split_beta del: serve.simps)
qed simp

lemma cycles_idle:
  assumes "length slots = 8" "granted g" "slot_queue slots g = []"
  shows "map fetches (fst (cycles slots modes n (regs g h))) = replicate n None"
proof (induction n)
  case (Suc n)
  obtain t where "Scheduler_module slots modes (regs g h) = ((t, False), regs g h)"
    using Scheduler_idle [OF assms] by blast
  then show ?case
    using Suc.IH by (simp add: fetches_def split_beta)
qed simp

text \<open>The hot bits stay at most one, whatever the registers of the operating system are.\<close>

lemma Scheduler_one_hot:
  assumes "length slots = 8" "length modes = 8" "one_hot_regs r"
  shows "one_hot_regs (snd (Scheduler_module slots modes r))"
proof -
  obtain g h where r: "granted g" "granted h" "r = regs g h"
    using assms(3) by (auto simp: one_hot_regs_def)
  show ?thesis
  proof (cases "slot_queue slots g")
    case Nil
    then obtain t where "Scheduler_module slots modes r = ((t, False), regs g h)"
      using Scheduler_idle [OF assms(1) r(1)] r(3) by blast
    then show ?thesis using r by (auto simp: one_hot_regs_def)
  next
    case (Cons x xs)
    then show ?thesis
      using Scheduler_step [OF assms(1,2) r(1,2) Cons, of "[]"] r(3) by (metis one_hot_regs_def snd_conv)
  qed
qed

lemma cycles_one_hot:
  "length slots = 8 \<Longrightarrow> length modes = 8 \<Longrightarrow> one_hot_regs r \<Longrightarrow> one_hot_regs (snd (cycles slots modes n r))"
  by (induction n arbitrary: r) (simp_all add: split_beta Scheduler_one_hot)

section \<open>What a thread gets\<close>

lemma count_serve:
  "count_list (serve modes xs q) (Some t) =
     length (filter (\<lambda>x. owned modes x \<and> unat (take_bit 3 x) = t) xs) +
     count_list (turns (length (filter (\<lambda>x. \<not> owned modes x) xs)) q) t"
  by (induction xs arbitrary: q) (auto split: list.split)

lemma filter_rotate: "\<exists>k. filter P (rotate n xs) = rotate k (filter P xs)"
proof -
  let ?a = "filter P (take (n mod length xs) xs)" and ?b = "filter P (drop (n mod length xs) xs)"
  have "filter P (rotate n xs) = ?b @ ?a"
    by (simp add: rotate_drop_take)
  also have "\<dots> = rotate (length ?a) (?a @ ?b)"
    by (rule rotate_append [symmetric])
  also have "?a @ ?b = filter P xs"
    by (metis append_take_drop_id filter_append)
  finally show ?thesis ..
qed

abbreviation enabled :: "u8 list \<Rightarrow> u8 list" where
  "enabled slots \<equiv> filter (\<lambda>x. x \<noteq> SLOT_D) slots"

abbreviation soft_active :: "u32 list \<Rightarrow> nat list" where
  "soft_active modes \<equiv> filter (\<lambda>t. modes ! t = word_of_int TMODE_SA) [0..<8]"

lemma queues_rotated:
  assumes "length slots = 8" "length modes = 8"
  shows "\<exists>k. slot_queue slots g = rotate k (enabled slots)" "\<exists>j. soft_queue modes g = rotate j (soft_active modes)"
proof -
  obtain n where n: "ring g = rotate n [0..<8]" by (simp add: ring_def)
  have nths: "map ((!) slots) [0..<8] = slots"
    using assms(1) map_nth [of slots] by simp
  have lt: "set (rotate n [0..<8]) = {..<8}" by auto
  have "slot_queue slots g = map ((!) slots) (filter (\<lambda>i. slots ! i \<noteq> SLOT_D) (ring g))"
    unfolding slot_queue_def n using assms(1) lt by (intro arg_cong [where f = "map _"] filter_cong) auto
  also have "\<dots> = enabled (map ((!) slots) (ring g))"
    by (simp add: filter_map comp_def)
  also have "\<dots> = enabled (rotate n slots)"
    by (simp add: n rotate_map [symmetric] nths)
  finally show "\<exists>k. slot_queue slots g = rotate k (enabled slots)"
    using filter_rotate by metis
  have "soft_queue modes g = filter (\<lambda>t. modes ! t = word_of_int TMODE_SA) (rotate n [0..<8])"
    unfolding soft_queue_def n using assms(2) lt by (intro filter_cong) auto
  then show "\<exists>j. soft_queue modes g = rotate j (soft_active modes)"
    using filter_rotate by metis
qed

text \<open>What the pipeline fetches while the registers of the machine keep their values.\<close>

definition fetched :: "machine \<Rightarrow> nat \<Rightarrow> scheduler_regs \<Rightarrow> nat option list" where
  "fetched m n r = map fetches (fst (cycles (slots_of m) (tmodes_of m) n r))"

lemma fetched_serve:
  assumes "one_hot_regs r" "enabled (slots_of m) \<noteq> []"
  obtains k j where "\<And>n. fetched m n r = serve (tmodes_of m) (turns n (rotate k (enabled (slots_of m))))
    (rotate j (soft_active (tmodes_of m)))"
proof -
  obtain g h where r: "granted g" "granted h" "r = regs g h"
    using assms(1) by (auto simp: one_hot_regs_def)
  obtain k j where q: "slot_queue (slots_of m) g = rotate k (enabled (slots_of m))"
    "soft_queue (tmodes_of m) h = rotate j (soft_active (tmodes_of m))"
    using queues_rotated [of "slots_of m" "tmodes_of m" g] queues_rotated [of "slots_of m" "tmodes_of m" h] by auto
  moreover have "slot_queue (slots_of m) g \<noteq> []"
    unfolding q using assms(2) by (simp only: rotate_is_Nil_conv not_False_eq_True)
  ultimately show thesis
    using that [of k j] cycles_serve [of "slots_of m" "tmodes_of m" g h] r
    by (simp add: fetched_def)
qed

lemma fetched_idle:
  assumes "one_hot_regs r" "enabled (slots_of m) = []"
  shows "fetched m n r = replicate n None"
proof -
  obtain g h where r: "granted g" "granted h" "r = regs g h"
    using assms(1) by (auto simp: one_hot_regs_def)
  obtain k where "slot_queue (slots_of m) g = rotate k (enabled (slots_of m))"
    using queues_rotated [of "slots_of m" "tmodes_of m" g] by auto
  then have "slot_queue (slots_of m) g = []"
    unfolding assms(2) by simp
  then show ?thesis
    using cycles_idle [OF length_slots_of r(1)] r(3) by (simp add: fetched_def)
qed

lemma rotate_filter_length [simp]: "length (filter P (rotate k xs)) = length (filter P xs)"
  using filter_rotate [of P k xs] by auto

lemma rotate_count [simp]: "count_list (rotate k xs) x = count_list xs x"
  by (simp add: count_list_eq_length_filter)

text \<open>A whole number of rounds of the table.\<close>

lemma fetched_rounds:
  assumes "one_hot_regs r" "enabled (slots_of m) \<noteq> []"
  shows "\<exists>j. \<forall>k. count_list (fetched m (k * length (enabled (slots_of m))) r) (Some t) =
    k * length (filter (\<lambda>x. owned (tmodes_of m) x \<and> unat (take_bit 3 x) = t) (enabled (slots_of m))) +
    count_list (turns (k * length (filter (\<lambda>x. \<not> owned (tmodes_of m) x) (enabled (slots_of m))))
      (rotate j (soft_active (tmodes_of m)))) t"
proof -
  obtain i j where f: "\<And>n. fetched m n r =
      serve (tmodes_of m) (turns n (rotate i (enabled (slots_of m)))) (rotate j (soft_active (tmodes_of m)))"
    using fetched_serve [OF assms] by metis
  have "turns (k * length (enabled (slots_of m))) (rotate i (enabled (slots_of m))) =
      concat (replicate k (rotate i (enabled (slots_of m))))" for k
    using turns_rounds [of k "rotate i (enabled (slots_of m))"] by simp
  then show ?thesis
    by (intro exI [of _ j])
      (simp add: f count_serve filter_rounds length_concat sum_list_replicate del: filter_filter)
qed

section \<open>Properties\<close>

lemma own_slot:
  assumes "t < 8"
  shows "unat (take_bit 3 (of_nat t :: u8)) = t" "(of_nat t :: u8) \<noteq> SLOT_S" "(of_nat t :: u8) \<noteq> SLOT_D"
  using assms unfolding less_8_cases by (elim disjE; simp add: take_bit_eq_mod)+

lemma count_distinct: "distinct xs \<Longrightarrow> count_list xs x = (if x \<in> set xs then 1 else 0)"
  by (induction xs) auto

lemma soft_round:
  assumes "t < 8" "modes ! t = word_of_int TMODE_SA"
  shows "count_list (turns (k * length (soft_active modes)) (rotate j (soft_active modes))) t = k"
proof -
  have "count_list (soft_active modes) t = 1"
    using assms by (simp add: count_distinct)
  then show ?thesis
    using turns_rounds [of k "rotate j (soft_active modes)"] by (simp add: count_rounds)
qed

lemma fetched_prefix: "set (fetched m n r) \<subseteq> set (fetched m (n + k) r)"
proof -
  have "set (fst (cycles s t n r)) \<subseteq> set (fst (cycles s t (n + k) r))" for s t
    by (induction n arbitrary: r) (auto simp: split_beta)
  then show ?thesis by (auto simp: fetched_def)
qed

lemma typed_owner:
  assumes "slots_typed m" "t < 8" "x \<in> set (slots_of m)"
  shows "x \<noteq> SLOT_D \<and> owned modes x \<and> unat (take_bit 3 x) = t \<longleftrightarrow> x = of_nat t \<and> threadActive modes t"
proof -
  note own = own_slot
  have "x < 8 \<or> x = SLOT_S \<or> x = SLOT_D"
    using assms(1,3) by (auto simp: slots_typed_def)
  then show ?thesis
  proof (elim disjE)
    assume "x < 8"
    then have x: "x = of_nat (unat x)" "unat x < 8"
      by (simp_all add: word_less_nat_alt)
    show ?thesis
      using own [OF x(2)] own [OF assms(2)] x(1) unfolding owned_def by metis
  next
    assume "x = SLOT_S" then show ?thesis using own(2) [OF assms(2)] by (auto simp: owned_def)
  next
    assume "x = SLOT_D" then show ?thesis using own(3) [OF assms(2)] by auto
  qed
qed

lemma count_owned:
  assumes "slots_typed m" "t < 8" "threadActive modes t"
  shows "length (filter (\<lambda>x. owned modes x \<and> unat (take_bit 3 x) = t) (enabled (slots_of m))) =
    count_list (slots_of m) (of_nat t)"
  unfolding filter_filter count_list_eq_length_filter
  using typed_owner [OF assms(1,2)] assms(3) by (intro arg_cong [where f = length] filter_cong) auto

lemma length_enabled: "length (enabled s) = length s - count_list s SLOT_D"
  using sum_length_filter_compl [of "(=) SLOT_D" s] by (simp add: count_list_eq_length_filter eq_commute [of SLOT_D])

lemma hard_cycles:
  assumes "one_hot_regs r" "slots_typed m" "t < 8" "tmodes_of m ! t = word_of_int TMODE_HA"
  shows "count_list (fetched m (k * (8 - count_list (slots_of m) SLOT_D)) r) (Some t) =
    k * count_list (slots_of m) (of_nat t)"
proof (cases "enabled (slots_of m) = []")
  case True
  then show ?thesis
    using length_enabled [of "slots_of m"] fetched_idle [OF assms(1)] thread_slot(1) [OF assms(3)]
    by (auto simp: filter_empty_conv count_list_0_iff fetched_def)
next
  case False
  have "t \<notin> set (rotate j (soft_active (tmodes_of m)))" for j
    using assms(4) by simp
  then have "count_list (turns n (rotate j (soft_active (tmodes_of m)))) t = 0" for n j
    using set_turns [of n] by (metis count_list_0_iff subsetD)
  moreover obtain j where "\<forall>k. count_list (fetched m (k * length (enabled (slots_of m))) r) (Some t) =
      k * length (filter (\<lambda>x. owned (tmodes_of m) x \<and> unat (take_bit 3 x) = t) (enabled (slots_of m))) +
      count_list (turns (k * length (filter (\<lambda>x. \<not> owned (tmodes_of m) x) (enabled (slots_of m))))
        (rotate j (soft_active (tmodes_of m)))) t"
    using fetched_rounds [OF assms(1) False] by blast
  ultimately show ?thesis
    using count_owned [OF assms(2,3), of "tmodes_of m"] assms(4) length_enabled [of "slots_of m"]
    by (simp add: threadActive_def del: filter_filter)
qed

text \<open>
  C39: the arbiters of the hardware take turns. While slot table and modes keep their values, the
  pipeline goes through the enabled slots in a circle; a slot of an active thread is a cycle of that
  thread, any other one a cycle of the soft threads, which take turns too. Whatever cycle this
  starts in; and the state of the hardware stays such.
\<close>

theorem scheduler_takes_turns:
  assumes "one_hot_regs r"
  shows "\<exists>k j. fetched m n r =
    (if enabled (slots_of m) = [] then replicate n None
     else serve (tmodes_of m) (turns n (rotate k (enabled (slots_of m)))) (rotate j (soft_active (tmodes_of m)))) \<and>
    one_hot_regs (snd (cycles (slots_of m) (tmodes_of m) n r))"
  using fetched_idle [OF assms, of m n] fetched_serve [OF assms, of m]
    cycles_one_hot [OF length_slots_of length_tmodes_of assms, of m m n]
  by metis

theorem scheduler_takes_turns_witness:
  "\<exists>k j. fetched example_machine 5 initial_regs =
    serve (tmodes_of example_machine) (turns 5 (rotate k [0])) (rotate j [])"
  using scheduler_takes_turns [OF initial_one_hot, of example_machine 5]
  by (simp add: example_slots example_tmodes upt_rec)

text \<open>
  C10: the number of slots \<^verbatim>\<open>osSchedulerSetSlotNum\<close> gives a hard thread is its share of the
  processor, exactly: with \<open>N\<close> enabled slots in the new table it gets \<open>n\<close> of every \<open>N\<close> cycles,
  whatever the other threads do and in whichever cycle one starts to count.
\<close>

theorem slots_are_cycles:
  assumes "slot_ready w" "slots_typed (mach w)" "t < 8" "n < 7" "tmodes_of (mach w) ! t = word_of_int TMODE_HA"
    and "n \<le> count_list (slots_of (mach w)) (of_nat t) \<or>
      n - count_list (slots_of (mach w)) (of_nat t) < count_list (slots_of (mach w)) SLOT_D"
    and "one_hot_regs r"
  shows "\<exists>w'. osSchedulerSetSlotNum (thread_ptr t) (int n) w = Ret osOK w' \<and>
    (\<forall>k. count_list (fetched (mach w') (k * (8 - count_list (slots_of (mach w')) SLOT_D)) r) (Some t) = k * n)"
proof -
  let ?x = "of_nat t :: u8" and ?m = "mach w"
  note x = thread_slot(1,3) [OF assms(3)]
  obtain s where s: "resize ?x n (slots_of ?m) = Some s"
    using assms(6) by (cases "resize ?x n (slots_of ?m)") (auto simp: resize_def Let_def split: if_splits)
  then have s': "slots_of (slot_effect ?x n ?m) = s"
    by (simp add: slots_of_effect [OF x])
  have "osSchedulerSetSlotNum (thread_ptr t) (int n) w = Ret osOK (w\<lparr>mach := slot_effect ?x n ?m\<rparr>)"
    using set_slot_num_locked_run [OF assms(1) x(1), of n] assms(3,4) s
    by (simp add: osSchedulerSetSlotNum_def thread_slot(4) slot_status_def)
  moreover have "slots_typed (slot_effect ?x n ?m)"
    using assms(2,3) by (intro slots_typed_slot_effect) (auto simp: less_8_cases)
  then have "count_list (fetched (slot_effect ?x n ?m) (k * (8 - count_list s SLOT_D)) r) (Some t) = k * n" for k
    using hard_cycles [OF assms(7) _ assms(3), of "slot_effect ?x n ?m" k] assms(5)
      resize_Some(1) [OF s x(1)] s' by simp
  ultimately show ?thesis
    using s' by (intro exI [of _ "w\<lparr>mach := slot_effect ?x n ?m\<rparr>"]) simp
qed

theorem slots_are_cycles_witness:
  "\<exists>w'. osSchedulerSetSlotNum (thread_ptr 0) 3 (example_world 1 []) = Ret osOK w' \<and>
    count_list (fetched (mach w') (100 * (8 - count_list (slots_of (mach w')) SLOT_D)) initial_regs) (Some 0) = 300"
proof -
  have "slots_typed example_machine" by (simp add: slots_typed_def example_slots)
  then show ?thesis
    using slots_are_cycles [of "example_world 1 []" 0 3 initial_regs] example_ready [of 1 "[]"] initial_one_hot
    by (auto simp: example_slots example_tmodes)
qed

text \<open>
  C40: soft threads share what is left, evenly: with \<open>N\<close> enabled slots and \<open>K\<close> active soft threads,
  in \<open>K * N\<close> cycles each of them gets one cycle for every soft slot and every slot of a thread
  that sleeps, and the slots of its own.
\<close>

theorem soft_threads_share:
  assumes "slots_typed m" "t < 8" "tmodes_of m ! t = word_of_int TMODE_SA" "one_hot_regs r"
  shows "(let s = slots_of m; N = 8 - count_list s SLOT_D; K = card {u. u < 8 \<and> tmodes_of m ! u = word_of_int TMODE_SA};
      shared = length (filter (\<lambda>x. x \<noteq> SLOT_D \<and> \<not> owned (tmodes_of m) x) s)
    in count_list (fetched m (k * (K * N)) r) (Some t) = k * (K * count_list s (of_nat t) + shared))"
proof (cases "enabled (slots_of m) = []")
  case True
  then show ?thesis
    using length_enabled [of "slots_of m"] fetched_idle [OF assms(4)] thread_slot(1) [OF assms(2)]
    by (auto simp: filter_empty_conv count_list_0_iff fetched_def Let_def)
next
  case False
  let ?q = "soft_active (tmodes_of m)"
  let ?N = "length (enabled (slots_of m))"
  let ?F = "length (filter (\<lambda>x. \<not> owned (tmodes_of m) x) (enabled (slots_of m)))"
  have K: "card {u. u < 8 \<and> tmodes_of m ! u = word_of_int TMODE_SA} = length ?q"
    by (simp add: distinct_length_filter Int_def conj_commute)
  have shared: "length (filter (\<lambda>x. x \<noteq> SLOT_D \<and> \<not> owned (tmodes_of m) x) (slots_of m)) = ?F"
    by (simp add: conj_commute)
  obtain j where "\<forall>k. count_list (fetched m (k * ?N) r) (Some t) =
      k * length (filter (\<lambda>x. owned (tmodes_of m) x \<and> unat (take_bit 3 x) = t) (enabled (slots_of m))) +
      count_list (turns (k * ?F) (rotate j ?q)) t"
    using fetched_rounds [OF assms(4) False] by blast
  then have "count_list (fetched m (k * length ?q * ?N) r) (Some t) =
      k * length ?q * count_list (slots_of m) (of_nat t) + count_list (turns (k * length ?q * ?F) (rotate j ?q)) t"
    using count_owned [OF assms(1,2), of "tmodes_of m"] assms(3) by (simp add: threadActive_def del: filter_filter)
  also have "k * length ?q * ?F = k * ?F * length ?q"
    by (simp add: ac_simps del: filter_filter)
  also have "count_list (turns \<dots> (rotate j ?q)) t = k * ?F"
    by (rule soft_round [OF assms(2,3)])
  finally show ?thesis
    using length_enabled [of "slots_of m"]
    unfolding Let_def K shared by (simp add: distrib_left ac_simps del: filter_filter)
qed

theorem soft_threads_share_witness:
  "\<exists>m. tmodes_of m = [0, 2, 2, 1, 1, 1, 1, 1] \<and> slots_of m = [0, 14, 3, 15, 15, 15, 15, 15] \<and>
    count_list (fetched m 60 initial_regs) (Some 2) = 20"
proof -
  let ?m = "example_machine\<lparr>csr_slots := 0xfffff3e0, csr_tmodes := 0x5568\<rparr>"
  have s: "slots_of ?m = [0, 14, 3, 15, 15, 15, 15, 15]" and t: "tmodes_of ?m = [0, 2, 2, 1, 1, 1, 1, 1]"
    by (simp_all add: slots_of_def unpack_slots_def tmodes_of_def unpack_tmodes_def)
  have "slots_typed ?m" by (simp add: slots_typed_def s)
  moreover have "{u. u < 8 \<and> [0, 2, 2, 1, 1, 1, 1, 1 :: u32] ! u = 2} = {1, 2}"
    by (auto simp: less_8_cases)
  ultimately have "count_list (fetched ?m 60 initial_regs) (Some 2) = 20"
    using soft_threads_share [of ?m 2 initial_regs 10] initial_one_hot
    by (simp add: s t owned_def threadActive_def take_bit_eq_mod)
  with s t show ?thesis by blast
qed

text \<open>
  C11: what the scheduler of the operating system calls a thread that can run does run: when it
  is active, the pipeline fetches for it within 64 cycles, in whatever state the hardware is.
\<close>

theorem active_threads_run:
  assumes "t < 8" "threadActive (tmodes_of m) t" "can_run m t" "one_hot_regs r"
  shows "Some t \<in> set (fetched m 64 r)"
proof -
  let ?N = "length (enabled (slots_of m))" and ?q = "soft_active (tmodes_of m)"
  let ?F = "length (filter (\<lambda>x. \<not> owned (tmodes_of m) x) (enabled (slots_of m)))"
  have le: "?N \<le> 8" "length ?q \<le> 8"
    using length_filter_le [of _ "slots_of m"] length_filter_le [of _ "[0..<8]"] by fastforce+
  have "enabled (slots_of m) \<noteq> []"
    using assms(3) thread_slot(1) [OF assms(1)] soft_slot(1) unfolding can_run_def filter_empty_conv by metis
  then obtain j where j: "\<forall>k. count_list (fetched m (k * ?N) r) (Some t) =
      k * length (filter (\<lambda>x. owned (tmodes_of m) x \<and> unat (take_bit 3 x) = t) (enabled (slots_of m))) +
      count_list (turns (k * ?F) (rotate j ?q)) t"
    using fetched_rounds [OF assms(4)] by blast
  have early: ?thesis if "n \<le> 64" "0 < count_list (fetched m n r) (Some t)" for n
    using that fetched_prefix [of m n r "64 - n"] count_list_0_iff [of "fetched m n r" "Some t"] by auto
  show ?thesis
  proof (cases "of_nat t \<in> set (slots_of m)")
    case True
    then have "of_nat t \<in> set (filter (\<lambda>x. owned (tmodes_of m) x \<and> unat (take_bit 3 x) = t) (enabled (slots_of m)))"
      using own_slot [OF assms(1)] assms(2) by (simp add: owned_def)
    then have "0 < length (filter (\<lambda>x. owned (tmodes_of m) x \<and> unat (take_bit 3 x) = t) (enabled (slots_of m)))"
      by (rule length_pos_if_in_set)
    then have "0 < count_list (fetched m (1 * ?N) r) (Some t)"
      unfolding spec [OF j, of 1] by simp
    moreover have "1 * ?N \<le> 64" using le(1) by simp
    ultimately show ?thesis by (rule early [rotated])
  next
    case False
    with assms(2,3) have "tmodes_of m ! t = word_of_int TMODE_SA" "SLOT_S \<in> set (slots_of m)"
      by (auto simp: can_run_def is_soft_def threadActive_def)
    moreover from this(2) have "SLOT_S \<in> set (filter (\<lambda>x. \<not> owned (tmodes_of m) x) (enabled (slots_of m)))"
      by (simp add: owned_def)
    then have "0 < ?F"
      by (rule length_pos_if_in_set)
    ultimately have "0 < count_list (fetched m (length ?q * ?N) r) (Some t)"
      using soft_round [OF assms(1), of "tmodes_of m" ?F j]
      unfolding spec [OF j, of "length ?q"] mult.commute [of "length ?q" ?F] by simp
    moreover have "length ?q * ?N \<le> 64" using mult_le_mono [OF le(2,1)] by simp
    ultimately show ?thesis by (rule early [rotated])
  qed
qed

theorem active_threads_run_witness:
  "Some 0 \<in> set (fetched example_machine 64 initial_regs)"
  using active_threads_run [of 0 example_machine initial_regs] initial_one_hot
  by (simp add: threadActive_def can_run_def example_slots example_tmodes)

end
