(* ===== verification/Emulator.thy ===== *)
theory Emulator
  imports Bench
begin

text \<open>
  \<^verbatim>\<open>src/emulator/testbench/Core-tb-os.cpp\<close>: the test bench the operating system and its
  programs are run in. It collects what each thread writes to the output port, counts the
  instructions and reports. The options are an argument here (\<open>Command_Line\<close> has the command
  line); the wave form file is not modelled. \<^verbatim>\<open>THREADS\<close> is 8.
\<close>

abbreviation (input) THREADS :: nat where
  "THREADS \<equiv> 8"

section \<open>One cycle\<close>

text \<open>\<^verbatim>\<open>sprintf\<close> of one character also stores the terminator behind it, in the row of 4096.\<close>

definition io_put :: "nat \<Rightarrow> char \<Rightarrow> (unit, 'c) tb" where
  "io_put t ch =
     seqm (require (t < THREADS) Bad_Index)
     (bnd (gets (\<lambda>s. length (io_buf s t))) (\<lambda>len.
      seqm (require (len + 1 < 4096) Bad_Index)
      (modify (\<lambda>s. s\<lparr>io_buf := (io_buf s)(t := io_buf s t @ [ch])\<rparr>))))"

definition watch_bus :: "pins \<Rightarrow> (unit, 'c) tb" where
  "watch_bus p = whenm (bus_enable p \<and> bus_write p)
     (io_put (unat (drop_bit 7 (bus_addr p))) (char_of (unat (bus_data_in p))))"

text \<open>The counters are reset by a write of register \<open>0x50E\<close> and printed by one of \<open>0x50F\<close>.\<close>

definition count_cycle :: "pins \<Rightarrow> (unit, 'c) tb" where
  "count_cycle = count_cycle_at 0x50E 0x50F"

definition log_cycle :: "options \<Rightarrow> pins \<Rightarrow> (unit, 'c) tb" where
  "log_cycle opt p =
     seqm (whenm (ctl_exe_valid p) (modify (\<lambda>s. s\<lparr>valid_inst := valid_inst s + 1\<rparr>)))
     (seqm (whenm (trace opt)
        (bnd (gets cycle) (\<lambda>cyc. say_err (M_trace cyc (exe_reg_tid p) (ctl_exe_valid p) (exe_reg_pc p) (exe_reg_inst p)))))
     (modify (\<lambda>s. s\<lparr>stat_log := stat_log s @
        [(cycle s, exe_reg_tid p, ctl_exe_valid p, exe_reg_pc p, exe_reg_inst p)]\<rparr>)))"

definition one_cycle :: "'c core_if \<Rightarrow> options \<Rightarrow> string \<Rightarrow> (unit, 'c) tb" where
  "one_cycle C opt msg =
     seqm (modify (\<lambda>s. s\<lparr>core := int_exts_0 C (dec_reg_inst (pins_of C (core s)) = 0x00202573) (core s)\<rparr>))
     (seqm (modify (\<lambda>s. s\<lparr>core := clock_lo C False (core s)\<rparr>))
     (bnd (gets (\<lambda>s. pins_of C (core s))) (\<lambda>p.
      seqm (watch_bus p)
      (seqm (watch_gpio p)
      (seqm (watch_tohost msg p)
      (seqm (count_cycle p)
      (seqm (log_cycle opt p)
      (seqm (modify (\<lambda>s. s\<lparr>core := clock_hi C False (core s)\<rparr>))
      (modify (\<lambda>s. s\<lparr>cycle := cycle s + 1\<rparr>))))))))))"

section \<open>A simulation\<close>

definition sim_loop :: "nat \<Rightarrow> 'c core_if \<Rightarrow> options \<Rightarrow> string \<Rightarrow> (unit, 'c) tb" where
  "sim_loop n C opt msg = loop_cycles n opt (one_cycle C opt msg)"

text \<open>
  A new processor after five cycles of reset, with thread \<open>h\<close> the only active one, in slot 0,
  and \<open>f - 1\<close> of the other slots soft.
\<close>

definition config_core :: "'c core_if \<Rightarrow> nat \<Rightarrow> nat \<Rightarrow> 'c" where
  "config_core C h f =
    (let c = ((\<lambda>c. clock_hi C True (clock_lo C True c)) ^^ 5) (new_core C);
         c = clear_pc C (load C c);
         c = fold (\<lambda>i. reg_tmodes C i (if h \<noteq> i then 1 else 0)) [0, 1, 2, 3, 4, 5, 6, 7] c;
         c = reg_slots C 0 (of_nat h) c in
     fold (\<lambda>i. reg_slots C i (if i < f then 14 else 15)) [1, 2, 3, 4, 5, 6, 7] c)"

text \<open>
  New counters and buffers. \<open>unset\<close> is what the uninitialised fields happen to hold. The cycle
  count and \<^verbatim>\<open>fail\<close> are not reset.
\<close>

definition start_config :: "'c core_if \<Rightarrow> nat \<Rightarrow> nat \<Rightarrow> bool \<times> nat \<times> bool \<times> nat \<Rightarrow> (unit, 'c) tb" where
  "start_config C h f unset = modify (\<lambda>s.
     let (ifv, ift, decv, dect) = unset in
     s\<lparr>core := config_core C h f, finished := False, tohost_prev := 0, gpio_prev := (\<lambda>_. 0),
       if_valid := ifv, dec_valid := decv, if_tid := ift, dec_tid := dect,
       processor_cycles := (\<lambda>_. 0), thread_cycles := (\<lambda>_. 0), commit_cycles := (\<lambda>_. 0),
       io_buf := (\<lambda>_. []), valid_inst := 0, stat_log := []\<rparr>)"

definition report :: "options \<Rightarrow> (unit, 'c) tb" where
  "report opt =
     bnd (gets cycle) (\<lambda>cyc.
     seqm (whenm (max_cycles opt \<le> cyc)
       (seqm (say_err M_timeout) (modify (\<lambda>s. s\<lparr>fail := True\<rparr>))))
     (seqm (for_each [0, 1, 2, 3, 4, 5, 6, 7] (\<lambda>t. bnd (gets (\<lambda>s. io_buf s t)) (\<lambda>out. say_err (M_output t out))))
     (bnd (gets (\<lambda>s. M_total (cycle s) (valid_inst s))) say_err)))"

definition simulate :: "nat \<Rightarrow> 'c core_if \<Rightarrow> options \<Rightarrow> bool \<times> nat \<times> bool \<times> nat \<Rightarrow> nat \<Rightarrow> nat \<Rightarrow> (unit, 'c) tb" where
  "simulate n C opt unset h f =
     seqm (start_config C h f unset)
     (seqm (sim_loop n C opt (if sweep opt then config_name h f else ''''))
     (report opt))"

text \<open>All configurations, one or with \<^verbatim>\<open>sweep\<close> each thread at each frequency; the exit code is always 0.\<close>

definition emulate :: "nat \<Rightarrow> 'c core_if \<Rightarrow> options \<Rightarrow> bool \<times> nat \<times> bool \<times> nat \<Rightarrow> (int, 'c) tb" where
  "emulate n C opt unset =
     seqm (for_each [0..<(if sweep opt then THREADS else 1)] (\<lambda>h.
       for_each [1..<Suc (if sweep opt then 8 else 1)] (\<lambda>f. simulate n C opt unset h f)))
     (ret 0)"

section \<open>What a cycle does\<close>

definition put_by :: "nat \<Rightarrow> pins \<Rightarrow> string" where
  "put_by t p = (if bus_enable p \<and> bus_write p \<and> unat (drop_bit 7 (bus_addr p)) = t
     then [char_of (unat (bus_data_in p))] else [])"

lemma watch_bus_run:
  "watch_bus p s = (if bus_enable p \<and> bus_write p \<and>
      (\<not> unat (drop_bit 7 (bus_addr p)) < 8 \<or> 4095 \<le> length (io_buf s (unat (drop_bit 7 (bus_addr p)))))
    then Fault Bad_Index else Ret () (s\<lparr>io_buf := (\<lambda>t. io_buf s t @ put_by t p)\<rparr>))"
proof -
  have "(io_buf s)(t := io_buf s t @ [c]) = (\<lambda>u. io_buf s u @ (if t = u then [c] else []))" for t c
    by (auto simp: fun_eq_iff)
  then show ?thesis
    by (auto simp: watch_bus_def io_put_def put_by_def require_seqm whenm_def)
qed

lemma log_cycle_run:
  "log_cycle opt p s = Ret () (s\<lparr>valid_inst := valid_inst s + (if ctl_exe_valid p then 1 else 0),
     stderr := stderr s @ (if trace opt
       then [M_trace (cycle s) (exe_reg_tid p) (ctl_exe_valid p) (exe_reg_pc p) (exe_reg_inst p)] else []),
     stat_log := stat_log s @ [(cycle s, exe_reg_tid p, ctl_exe_valid p, exe_reg_pc p, exe_reg_inst p)]\<rparr>)"
  by (cases "trace opt"; cases "ctl_exe_valid p") (simp_all add: log_cycle_def say_err_def)

text \<open>A whole cycle: it makes an undefined access, or its effect is the following.\<close>

definition cycle_ok :: "pins \<Rightarrow> 'c bench \<Rightarrow> bool" where
  "cycle_ok p s \<longleftrightarrow> dec_tid s < 4 \<and> (bus_enable p \<and> bus_write p \<longrightarrow>
     unat (drop_bit 7 (bus_addr p)) < 8 \<and> length (io_buf s (unat (drop_bit 7 (bus_addr p)))) < 4095)"

lemma one_cycle_fault: "\<not> cycle_ok (seen C (core s)) s \<Longrightarrow> one_cycle C opt msg s = Fault Bad_Index"
  by (auto simp: one_cycle_def seqm_def bnd_def modify_def gets_def cycle_ok_def watch_bus_run watch_gpio_run
      watch_tohost_run count_cycle_def count_cycle_run seen_def settled_def)

lemma one_cycle_run:
  assumes "cycle_ok (seen C (core s)) s" "p = seen C (core s)"
  shows "\<exists>s'. one_cycle C opt msg s = Ret () s' \<and>
      core s' = next_core C (core s) \<and> cycle s' = cycle s + 1 \<and> dec_tid s' = if_tid s \<and> if_tid s' = if_reg_tid p \<and>
      io_buf s' = (\<lambda>t. io_buf s t @ put_by t p) \<and>
      valid_inst s' = valid_inst s + (if ctl_exe_valid p then 1 else 0) \<and>
      finished s' = (finished s \<or> host_to_host p \<noteq> tohost_prev s \<and> host_to_host p \<noteq> 0) \<and>
      tohost_prev s' = host_to_host p"
proof -
  have "watch_bus p (s\<lparr>core := settled C (core s)\<rparr>) = Ret () (s\<lparr>core := settled C (core s), io_buf := (\<lambda>t. io_buf s t @ put_by t p)\<rparr>)"
    using assms by (auto simp: watch_bus_run cycle_ok_def)
  moreover have "dec_tid s < 4"
    using assms by (simp add: cycle_ok_def)
  ultimately show ?thesis
    by (simp add: one_cycle_def seqm_def bnd_def modify_def gets_def watch_gpio_run watch_tohost_run count_cycle_def
        count_cycle_run log_cycle_run assms(2) seen_def settled_def next_core_def)
qed

lemma one_cycle_cases:
  assumes "one_cycle C opt msg s = r"
  shows "(\<exists>s'. r = Ret () s' \<and> cycle s' = cycle s + 1) \<or> r = Fault Bad_Index"
  using assms one_cycle_fault [of C s opt msg] one_cycle_run [of C s "seen C (core s)" opt msg]
  by (cases "cycle_ok (seen C (core s)) s") auto

section \<open>Properties\<close>

lemma sim_loop_simps [simp]:
  "sim_loop 0 C opt msg s = (if sim_more opt s then Blocked s else Ret () s)"
  "sim_loop (Suc n) C opt msg s =
     (if sim_more opt s then seqm (one_cycle C opt msg) (sim_loop n C opt msg) s else Ret () s)"
  by (simp_all add: sim_loop_def)

lemma sim_loop_result:
  "sim_loop n C opt msg s = Ret () s' \<Longrightarrow> \<exists>k \<le> n. core s' = (next_core C ^^ k) (core s) \<and>
     cycle s' = cycle s + of_nat k \<and> \<not> sim_more opt s' \<and>
     (\<forall>t. io_buf s' t = io_buf s t @ concat (map (put_by t) (signals C (core s) k))) \<and>
     valid_inst s' = valid_inst s + of_nat (length (filter ctl_exe_valid (signals C (core s) k))) \<and>
     (0 < k \<longrightarrow> dec_tid s < 4) \<and> (1 < k \<longrightarrow> if_tid s < 4) \<and>
     (\<forall>i. i + 2 < k \<longrightarrow> if_reg_tid (signals C (core s) k ! i) < 4)"
proof (induction n arbitrary: s)
  case 0
  then show ?case by (auto simp: signals_def split: if_splits)
next
  case (Suc n)
  show ?case
  proof (cases "sim_more opt s")
    case False
    with Suc.prems show ?thesis by (intro exI [of _ 0]) (simp add: signals_def)
  next
    case True
    show ?thesis
    proof (cases "cycle_ok (seen C (core s)) s")
      case False
      with Suc.prems True one_cycle_fault [OF False] show ?thesis by simp
    next
      case ok: True
      obtain s1 where s1: "one_cycle C opt msg s = Ret () s1" "core s1 = next_core C (core s)"
        "cycle s1 = cycle s + 1" "io_buf s1 = (\<lambda>t. io_buf s t @ put_by t (seen C (core s)))"
        "valid_inst s1 = valid_inst s + (if ctl_exe_valid (seen C (core s)) then 1 else 0)"
        "dec_tid s1 = if_tid s" "if_tid s1 = if_reg_tid (seen C (core s))"
        using one_cycle_run [OF ok refl] by blast
      have "sim_loop n C opt msg s1 = Ret () s'"
        using Suc.prems True s1(1) by simp
      from Suc.IH [OF this] obtain k where k: "k \<le> n" "core s' = (next_core C ^^ k) (core s1)"
        "cycle s' = cycle s1 + of_nat k" "\<not> sim_more opt s'"
        "\<forall>t. io_buf s' t = io_buf s1 t @ concat (map (put_by t) (signals C (core s1) k))"
        "valid_inst s' = valid_inst s1 + of_nat (length (filter ctl_exe_valid (signals C (core s1) k)))"
        "0 < k \<longrightarrow> dec_tid s1 < 4" "1 < k \<longrightarrow> if_tid s1 < 4"
        "\<forall>i. i + 2 < k \<longrightarrow> if_reg_tid (signals C (core s1) k ! i) < 4"
        by blast
      have "if_reg_tid (signals C (core s) (Suc k) ! i) < 4" if "i + 2 < Suc k" for i
        using k(8,9) that unfolding s1 by (cases i) (simp_all add: signals_Suc)
      moreover have "dec_tid s < 4"
        using ok by (simp add: cycle_ok_def)
      ultimately show ?thesis
        using k unfolding s1 by (intro exI [of _ "Suc k"]) (simp add: signals_Suc funpow_swap1)
    qed
  qed
qed

lemma sim_loop_ends:
  "max_cycles opt \<noteq> 0 \<Longrightarrow> unat (max_cycles opt - cycle s) \<le> n \<Longrightarrow> cycle s \<le> max_cycles opt \<Longrightarrow>
    sim_loop n C opt msg s \<noteq> Blocked s'"
  unfolding sim_loop_def by (rule loop_cycles_ends) (auto dest: one_cycle_cases)

lemma report_outputs:
  "for_each is (\<lambda>t. bnd (gets (\<lambda>s. io_buf s t)) (\<lambda>out. say_err (M_output t out))) s =
     Ret () (s\<lparr>stderr := stderr s @ map (\<lambda>t. M_output t (io_buf s t)) is\<rparr>)"
proof (induction "is" arbitrary: s)
  case Nil
  show ?case by simp
next
  case (Cons t "is")
  show ?case
    using Cons [of "s\<lparr>stderr := stderr s @ [M_output t (io_buf s t)]\<rparr>"] by (simp add: say_err_def)
qed

lemma sim_loop_fault: "sim_loop n C opt msg s = Fault e \<Longrightarrow> e = Bad_Index"
  unfolding sim_loop_def by (erule loop_cycles_fault [rotated]) (auto dest: one_cycle_cases)

lemma report_run:
  "report opt s = Ret () (s\<lparr>stderr := stderr s @ (if max_cycles opt \<le> cycle s then [M_timeout] else []) @
       map (\<lambda>t. M_output t (io_buf s t)) [0, 1, 2, 3, 4, 5, 6, 7] @ [M_total (cycle s) (valid_inst s)],
     fail := fail s \<or> max_cycles opt \<le> cycle s\<rparr>)"
proof -
  let ?s1 = "s\<lparr>stderr := stderr s @ (if max_cycles opt \<le> cycle s then [M_timeout] else []),
    fail := fail s \<or> max_cycles opt \<le> cycle s\<rparr>"
  have 1: "whenm (max_cycles opt \<le> cycle s) (seqm (say_err M_timeout) (modify (\<lambda>s. s\<lparr>fail := True\<rparr>))) s = Ret () ?s1"
    by (simp add: whenm_def say_err_def)
  have 2: "for_each [0, 1, 2, 3, 4, 5, 6, 7] (\<lambda>t. bnd (gets (\<lambda>s. io_buf s t)) (\<lambda>out. say_err (M_output t out))) ?s1 =
      Ret () (?s1\<lparr>stderr := stderr ?s1 @ map (\<lambda>t. M_output t (io_buf ?s1 t)) [0, 1, 2, 3, 4, 5, 6, 7]\<rparr>)"
    by (rule report_outputs)
  show ?thesis
    unfolding report_def by (simp only: gets_bnd seqm_def bnd_def 1 2 result.case say_err_def modify_def gets_def) simp
qed

text \<open>
  C36: one configuration ends, with a limit on the cycles, at the limit at the latest or in an
  undefined access. When it ends well the report has for each of the eight threads exactly
  the characters it wrote to the output port, in order, and the number of instructions.
\<close>

theorem simulate_output:
  assumes "max_cycles opt \<noteq> 0" "cycle s \<le> max_cycles opt" "unat (max_cycles opt - cycle s) \<le> n"
  shows "simulate n C opt unset h f s = Fault Bad_Index \<or>
    (\<exists>s' k. simulate n C opt unset h f s = Ret () s' \<and> k \<le> n \<and> cycle s' = cycle s + of_nat k \<and>
       (let ps = signals C (config_core C h f) k in
        (\<forall>t < 8. M_output t (concat (map (put_by t) ps)) \<in> set (stderr s')) \<and>
        M_total (cycle s') (of_nat (length (filter ctl_exe_valid ps))) \<in> set (stderr s')))"
proof -
  obtain s0 where s0: "start_config C h f unset s = Ret () s0" "core s0 = config_core C h f" "cycle s0 = cycle s"
    "io_buf s0 = (\<lambda>_. [])" "valid_inst s0 = 0"
    by (cases unset) (simp add: start_config_def)
  let ?msg = "if sweep opt then config_name h f else ''''"
  have run: "simulate n C opt unset h f s = seqm (sim_loop n C opt ?msg) (report opt) s0"
    using s0(1) by (simp add: simulate_def)
  show ?thesis
  proof (cases "sim_loop n C opt ?msg s0")
    case (Ret u s1)
    from sim_loop_result [of n C opt ?msg s0 s1] Ret obtain k where k: "k \<le> n" "cycle s1 = cycle s + of_nat k"
      "\<forall>t. io_buf s1 t = concat (map (put_by t) (signals C (config_core C h f) k))"
      "valid_inst s1 = of_nat (length (filter ctl_exe_valid (signals C (config_core C h f) k)))"
      unfolding s0 by auto
    obtain s' where s': "report opt s1 = Ret () s'" "cycle s' = cycle s1"
      "\<forall>t < 8. M_output t (io_buf s1 t) \<in> set (stderr s')" "M_total (cycle s1) (valid_inst s1) \<in> set (stderr s')"
      using that [OF report_run] by (auto simp: less_8_cases)
    have "simulate n C opt unset h f s = Ret () s'"
      using run Ret s'(1) by simp
    with k s'(2-4) show ?thesis by (metis (no_types, lifting))
  next
    case (Blocked s1)
    then show ?thesis
      using sim_loop_ends [of opt s0 n C ?msg] assms s0(3) by simp
  next
    case (Fault e)
    with run sim_loop_fault [OF Fault] show ?thesis by simp
  qed
qed

text \<open>
  A processor that counts its cycles, writes two characters of thread 0 in the seventh and
  eighth and then signals success.
\<close>

definition example_core :: "nat core_if" where
  "example_core = \<lparr>new_core = 0, clock_lo = (\<lambda>_ c. c), clock_hi = (\<lambda>_ c. Suc c), load = (\<lambda>c. c),
     clear_pc = (\<lambda>c. c),
     reg_tmodes = (\<lambda>_ _ c. c), reg_slots = (\<lambda>_ _ c. c), int_exts_0 = (\<lambda>_ c. c),
     pins_of = (\<lambda>c. \<lparr>dec_reg_inst = 0, bus_enable = (c = 6 \<or> c = 7), bus_write = True, bus_addr = 0,
       bus_data_in = (if c = 6 then 0x4F else 0x4B), gpio_out = (\<lambda>_. 0), host_to_host = (if c < 8 then 0 else 1),
       if_reg_valid = True, if_reg_tid = 0, csr_rw_write = False, csr_rw_addr = 0, ctl_exe_valid = True,
       exe_reg_tid = 0, exe_reg_pc = 0, exe_reg_inst = 0\<rparr>)\<rparr>"

definition example_options :: "u64 \<Rightarrow> options" where
  "example_options m = \<lparr>sweep = False, trace = False, max_cycles = m\<rparr>"

text \<open>Its run: four cycles after the reset.\<close>

lemma example_cycle:
  assumes "dec_tid s = 0" "if_tid s = 0" "length (io_buf s 0) < 4000" "tohost_prev s = 0" "\<not> finished s"
  shows "\<exists>s'. one_cycle example_core opt msg s = Ret () s' \<and> core s' = Suc (core s) \<and> cycle s' = cycle s + 1 \<and>
    dec_tid s' = 0 \<and> if_tid s' = 0 \<and> length (io_buf s' 0) \<le> Suc (length (io_buf s 0)) \<and>
    (core s < 8 \<longrightarrow> tohost_prev s' = 0 \<and> \<not> finished s') \<and> (8 \<le> core s \<longrightarrow> finished s')"
proof -
  have "cycle_ok (seen example_core (core s)) s"
    using assms by (simp add: cycle_ok_def seen_def settled_def example_core_def)
  from one_cycle_run [OF this refl, of opt msg] obtain s' where "one_cycle example_core opt msg s = Ret () s'"
    "core s' = next_core example_core (core s)" "cycle s' = cycle s + 1" "dec_tid s' = if_tid s"
    "if_tid s' = if_reg_tid (seen example_core (core s))"
    "io_buf s' = (\<lambda>t. io_buf s t @ put_by t (seen example_core (core s)))"
    "finished s' = (finished s \<or> host_to_host (seen example_core (core s)) \<noteq> tohost_prev s \<and>
      host_to_host (seen example_core (core s)) \<noteq> 0)"
    "tohost_prev s' = host_to_host (seen example_core (core s))"
    by blast
  with assms show ?thesis
    by (intro exI [of _ s']) (simp add: next_core_def seen_def settled_def put_by_def example_core_def)
qed

lemma example_loop:
  assumes "dec_tid s = 0" "if_tid s = 0" "length (io_buf s 0) + d < 4000" "tohost_prev s = 0" "\<not> finished s"
    "core s + d = 8" "d < n" "max_cycles opt = 0 \<or> cycle s < max_cycles opt \<and> (\<forall>i \<le> d. cycle s + of_nat i < max_cycles opt)"
  shows "\<exists>s'. sim_loop n example_core opt msg s = Ret () s' \<and> cycle s' = cycle s + of_nat (Suc d) \<and> finished s'"
  using assms
proof (induction d arbitrary: n s)
  case (0 n s)
  then obtain m where n: "n = Suc m" by (cases n) auto
  from 0 obtain s1 where s1: "one_cycle example_core opt msg s = Ret () s1" "cycle s1 = cycle s + 1" "finished s1"
    using example_cycle [of s opt msg] by auto
  from 0 have "sim_more opt s" by (auto simp: sim_more_def)
  moreover have "sim_loop m example_core opt msg s1 = Ret () s1"
    using s1(3) by (cases m) (simp_all add: sim_more_def)
  ultimately show ?case using s1 by (simp add: n)
next
  case (Suc d n s)
  then obtain m where n: "n = Suc m" by (cases n) auto
  from Suc.prems obtain s1 where s1: "one_cycle example_core opt msg s = Ret () s1" "cycle s1 = cycle s + 1"
    "\<not> finished s1" "core s1 = Suc (core s)" "dec_tid s1 = 0" "if_tid s1 = 0" "tohost_prev s1 = 0"
    "length (io_buf s1 0) \<le> Suc (length (io_buf s 0))"
    using example_cycle [of s opt msg] by auto
  have lim: "max_cycles opt = 0 \<or> cycle s1 < max_cycles opt \<and> (\<forall>i \<le> d. cycle s1 + of_nat i < max_cycles opt)"
  proof (cases "max_cycles opt = 0")
    case False
    then have "cycle s + of_nat (Suc i) < max_cycles opt" if "i \<le> d" for i
      using Suc.prems(8) that by (meson Suc_le_mono)
    from this [of 0] this show ?thesis by (simp add: s1 add.assoc)
  qed simp
  have "\<exists>s'. sim_loop m example_core opt msg s1 = Ret () s' \<and> cycle s' = cycle s1 + of_nat (Suc d) \<and> finished s'"
    using Suc.IH [OF s1(5,6) _ s1(7,3) _ _ lim, of m] Suc.prems s1 n by simp
  moreover from Suc.prems have "sim_more opt s" by (auto simp: sim_more_def)
  ultimately show ?case using s1 by (auto simp: n)
qed

lemma example_simulation:
  assumes "m = 0 \<or> m = 10"
  shows "\<exists>s'. simulate 10 example_core (example_options m) (False, 0, False, 0) 0 1 (boot_bench example_core) = Ret () s' \<and>
    cycle s' = 4 \<and> finished s'"
proof -
  obtain s0 where s0: "start_config example_core 0 1 (False, 0, False, 0) (boot_bench example_core) = Ret () s0"
    "core s0 = 5" "cycle s0 = 0" "dec_tid s0 = 0" "if_tid s0 = 0" "io_buf s0 0 = []" "tohost_prev s0 = 0" "\<not> finished s0"
    by (simp add: start_config_def boot_bench_def config_core_def example_core_def numeral_eq_Suc)
  have "m = 0 \<or> cycle s0 < m \<and> (\<forall>i \<le> 3. cycle s0 + of_nat i < m)"
    using assms by (auto simp: s0 le_Suc_eq numeral_3_eq_3)
  then have "\<exists>s'. sim_loop 10 example_core (example_options m) '''' s0 = Ret () s' \<and> cycle s' = cycle s0 + of_nat (Suc 3) \<and> finished s'"
    by (intro example_loop) (simp_all add: s0 example_options_def)
  then show ?thesis
    using s0 by (auto simp: simulate_def report_run example_options_def)
qed

theorem simulate_output_witness:
  "\<exists>s'. simulate 10 example_core (example_options 10) (False, 0, False, 0) 0 1 (boot_bench example_core) = Ret () s' \<and>
    M_output 0 ''OK'' \<in> set (stderr s') \<and> M_total 4 4 \<in> set (stderr s')"
proof -
  let ?b = "boot_bench example_core" and ?o = "example_options 10"
  have core: "config_core example_core 0 1 = 5"
    by (simp add: config_core_def example_core_def numeral_eq_Suc)
  have "max_cycles ?o \<noteq> 0" "cycle ?b \<le> max_cycles ?o" "unat (max_cycles ?o - cycle ?b) \<le> 10"
    by (simp_all add: example_options_def boot_bench_def)
  from simulate_output [OF this, of example_core "(False, 0, False, 0)" 0 1] example_simulation [of 10]
  obtain s' k where s': "simulate 10 example_core ?o (False, 0, False, 0) 0 1 ?b = Ret () s'" "cycle s' = 4"
    and k: "k \<le> 10" "cycle s' = cycle ?b + of_nat k"
    and out: "\<forall>t < 8. M_output t (concat (map (put_by t) (signals example_core 5 k))) \<in> set (stderr s')"
    and total: "M_total (cycle s') (of_nat (length (filter ctl_exe_valid (signals example_core 5 k)))) \<in> set (stderr s')"
    unfolding core Let_def by auto
  have "unat (of_nat k :: u64) = unat (4 :: u64)"
    using s'(2) k(2) by (simp add: boot_bench_def)
  with k(1) have "k = 4"
    by (simp add: unat_of_nat)
  moreover have sig: "signals example_core 5 4 = map (pins_of example_core) [5, 6, 7, 8]"
    by (simp add: numeral_eq_Suc signals_Suc) (simp add: signals_def seen_def settled_def next_core_def example_core_def)
  ultimately have o: "M_output 0 (concat (map (put_by 0) (map (pins_of example_core) [5, 6, 7, 8]))) \<in> set (stderr s')"
    and t: "M_total 4 (of_nat (length (filter ctl_exe_valid (map (pins_of example_core) [5, 6, 7, 8])))) \<in> set (stderr s')"
    using out total s'(2) by auto
  have "concat (map (put_by 0) (map (pins_of example_core) [5, 6, 7, 8])) = ''OK''"
    by (simp add: put_by_def example_core_def char_of_def bit_0)
  moreover have "length (filter ctl_exe_valid (map (pins_of example_core) [5, 6, 7, 8])) = 4"
    by (simp add: example_core_def)
  ultimately show ?thesis
    using o t s'(1) by auto
qed

text \<open>
  Without a limit on the cycles every run that ends is reported as failed by a timeout,
  also one whose program has signalled success.
\<close>

theorem unlimited_run_reported_failed:
  assumes "max_cycles opt = 0" "simulate n C opt unset h f s = Ret () s'"
  shows "M_timeout \<in> set (stderr s') \<and> fail s'"
proof -
  obtain s1 where "report opt s1 = Ret () s'"
    using assms(2) by (auto simp: simulate_def seqm_eq_Ret_iff)
  then show ?thesis
    using assms(1) by (auto simp: report_run)
qed

theorem unlimited_run_reported_failed_witness:
  "\<exists>s'. simulate 10 example_core (example_options 0) (False, 0, False, 0) 0 1 (boot_bench example_core) = Ret () s' \<and>
    finished s' \<and> M_timeout \<in> set (stderr s') \<and> fail s'"
proof -
  obtain s' where s': "simulate 10 example_core (example_options 0) (False, 0, False, 0) 0 1 (boot_bench example_core) = Ret () s'"
    "finished s'"
    using example_simulation [of 0] by blast
  have "max_cycles (example_options 0) = 0"
    by (simp add: example_options_def)
  from unlimited_run_reported_failed [OF this s'(1)] s' show ?thesis by blast
qed

text \<open>
  The cycle counters have room for four threads: when a run ends well, none of the threads
  4 to 7 was fetched up to three cycles before its end. With one of them the test bench writes
  outside the counters.
\<close>

theorem upper_threads_overflow_counters:
  assumes "simulate n C opt unset h f s = Ret () s'"
  shows "\<exists>k \<le> n. cycle s' = cycle s + of_nat k \<and>
    (\<forall>i. i + 2 < k \<longrightarrow> if_reg_tid (signals C (config_core C h f) k ! i) < 4)"
proof -
  obtain s0 where s0: "start_config C h f unset s = Ret () s0" "core s0 = config_core C h f" "cycle s0 = cycle s"
    by (cases unset) (simp add: start_config_def)
  obtain s1 where s1: "sim_loop n C opt (if sweep opt then config_name h f else '''') s0 = Ret () s1"
    "report opt s1 = Ret () s'"
    using assms s0(1) by (auto simp: simulate_def seqm_eq_Ret_iff)
  have "cycle s' = cycle s1"
    using s1(2) by (auto simp: report_run)
  with sim_loop_result [OF s1(1)] show ?thesis
    unfolding s0 by auto
qed

theorem upper_threads_overflow_counters_witness:
  "\<exists>s'. simulate 10 example_core (example_options 0) (False, 0, False, 0) 0 1 (boot_bench example_core) = Ret () s' \<and>
    (\<exists>k \<le> 10. cycle s' = of_nat k \<and>
      (\<forall>i. i + 2 < k \<longrightarrow> if_reg_tid (signals example_core (config_core example_core 0 1) k ! i) < 4))"
proof -
  obtain s' where s': "simulate 10 example_core (example_options 0) (False, 0, False, 0) 0 1 (boot_bench example_core) = Ret () s'"
    using example_simulation [of 0] by blast
  from upper_threads_overflow_counters [OF s'] s' show ?thesis
    by (auto simp: boot_bench_def)
qed

end
