(* ===== verification/Raw_Bench.thy ===== *)
theory Raw_Bench
  imports Bench
begin

text \<open>
  \<^verbatim>\<open>src/emulator/testbench/Core-tb.cpp\<close> and \<^verbatim>\<open>Core-tb-sboth.cpp\<close>: the test benches for programs
  without the operating system. They print every character the processor writes at once, and
  count the cycles between the two registers that \<^verbatim>\<open>counters_start\<close> and \<^verbatim>\<open>counters_end\<close> of
  \<^verbatim>\<open>src/os/include/flexpret_timing.h\<close> write. The field \<open>stderr\<close> has what they print, to whichever
  stream. The command line is in \<open>Command_Line\<close>; dump files are not modelled.
\<close>

section \<open>One cycle\<close>

definition print_char :: "pins \<Rightarrow> (unit, 'c) tb" where
  "print_char p = whenm (bus_enable p \<and> bus_write p) (say_err (M_char (char_of (unat (bus_data_in p)))))"

definition raw_count_cycle :: "pins \<Rightarrow> (unit, 'c) tb" where
  "raw_count_cycle = count_cycle_at 0xCCE 0xCCF"

text \<open>The outputs of the processor, in the order both look at them.\<close>

definition raw_watch :: "string \<Rightarrow> pins \<Rightarrow> (unit, 'c) tb" where
  "raw_watch msg p =
     seqm (print_char p)
     (seqm (watch_gpio p)
     (seqm (watch_tohost msg p)
     (raw_count_cycle p)))"

definition raw_trace :: "options \<Rightarrow> pins \<Rightarrow> (unit, 'c) tb" where
  "raw_trace opt p = whenm (trace opt)
     (bnd (gets cycle) (\<lambda>cyc. say_err (M_trace_pc cyc (exe_reg_tid p) (ctl_exe_valid p) (exe_reg_pc p))))"

definition raw_cycle :: "'c core_if \<Rightarrow> options \<Rightarrow> string \<Rightarrow> (unit, 'c) tb" where
  "raw_cycle C opt msg =
     seqm (modify (\<lambda>s. s\<lparr>core := int_exts_0 C (dec_reg_inst (pins_of C (core s)) = 0x00202573) (core s)\<rparr>))
     (seqm (modify (\<lambda>s. s\<lparr>core := clock_lo C False (core s)\<rparr>))
     (bnd (gets (\<lambda>s. pins_of C (core s))) (\<lambda>p.
      seqm (raw_watch msg p)
      (seqm (raw_trace opt p)
      (seqm (modify (\<lambda>s. s\<lparr>core := clock_hi C False (core s)\<rparr>))
      (modify (\<lambda>s. s\<lparr>cycle := cycle s + 1\<rparr>)))))))"

text \<open>
  \<^verbatim>\<open>Core-tb-sboth.cpp\<close> prints another line, which a script puts in for \<^verbatim>\<open>FORMAT_TO_BE_MODIFIED\<close>: it
  is the parameter \<open>line\<close>.
\<close>

definition sboth_trace :: "('c \<Rightarrow> string) \<Rightarrow> options \<Rightarrow> pins \<Rightarrow> (unit, 'c) tb" where
  "sboth_trace line opt p =
     seqm (bnd (gets (\<lambda>s. M_extra (line (core s)))) say_err)
     (whenm (trace opt)
       (bnd (gets cycle) (\<lambda>cyc. say_err (M_trace cyc (exe_reg_tid p) (ctl_exe_valid p) (exe_reg_pc p) (exe_reg_inst p)))))"

definition sboth_cycle :: "('c \<Rightarrow> string) \<Rightarrow> 'c core_if \<Rightarrow> options \<Rightarrow> string \<Rightarrow> (unit, 'c) tb" where
  "sboth_cycle line C opt msg =
     seqm (modify (\<lambda>s. s\<lparr>core := int_exts_0 C (dec_reg_inst (pins_of C (core s)) = 0x00202573) (core s)\<rparr>))
     (seqm (modify (\<lambda>s. s\<lparr>core := clock_lo C False (core s)\<rparr>))
     (bnd (gets (\<lambda>s. pins_of C (core s))) (\<lambda>p.
      seqm (raw_watch msg p)
      (seqm (sboth_trace line opt p)
      (seqm (modify (\<lambda>s. s\<lparr>core := clock_hi C False (core s)\<rparr>))
      (modify (\<lambda>s. s\<lparr>cycle := cycle s + 1\<rparr>)))))))"

section \<open>A simulation\<close>

text \<open>\<^verbatim>\<open>THREADS\<close> and \<^verbatim>\<open>FLEXPRET\<close> are given to the compiler; \<^verbatim>\<open>Core-tb-sboth.cpp\<close> defines 4 threads.\<close>

record build =
  threads :: nat
  flexpret :: bool

definition raw_config_core :: "build \<Rightarrow> 'c core_if \<Rightarrow> nat \<Rightarrow> nat \<Rightarrow> 'c" where
  "raw_config_core B C h f =
    (let c = ((\<lambda>c. clock_hi C True (clock_lo C True c)) ^^ 5) (new_core C);
         c = load C c;
         c = reg_tmodes C 0 (if h \<noteq> 0 then 1 else 0) c;
         c = (if 1 < threads B then fold (\<lambda>i. reg_tmodes C i (if h \<noteq> i then 1 else 0)) [1, 2, 3] c else c);
         c = (if 4 < threads B then fold (\<lambda>i. reg_tmodes C i (if h \<noteq> i then 1 else 0)) [4, 5, 6, 7] c else c) in
     if flexpret B then
       (let c = reg_slots C 0 (of_nat h) c in
        fold (\<lambda>i. reg_slots C i (if i < f then 14 else 15)) [1, 2, 3, 4, 5, 6, 7] c)
     else c)"

text \<open>\<open>unset\<close> is what the uninitialised fields happen to hold.\<close>

definition raw_start :: "build \<Rightarrow> 'c core_if \<Rightarrow> nat \<Rightarrow> nat \<Rightarrow> bool \<times> nat \<times> bool \<times> nat \<Rightarrow> (unit, 'c) tb" where
  "raw_start B C h f unset = modify (\<lambda>s.
     let (ifv, ift, decv, dect) = unset in
     s\<lparr>core := raw_config_core B C h f, finished := False, tohost_prev := 0, gpio_prev := (\<lambda>_. 0),
       if_valid := ifv, dec_valid := decv, if_tid := ift, dec_tid := dect,
       processor_cycles := (\<lambda>_. 0), thread_cycles := (\<lambda>_. 0), commit_cycles := (\<lambda>_. 0)\<rparr>)"

definition raw_report :: "options \<Rightarrow> (unit, 'c) tb" where
  "raw_report opt = bnd (gets cycle) (\<lambda>cyc. whenm (max_cycles opt \<le> cyc)
     (seqm (say_err M_timeout) (modify (\<lambda>s. s\<lparr>fail := True\<rparr>))))"

text \<open>One configuration, with the body of its cycles.\<close>

definition raw_simulate ::
    "nat \<Rightarrow> (string \<Rightarrow> (unit, 'c) tb) \<Rightarrow> build \<Rightarrow> 'c core_if \<Rightarrow> options \<Rightarrow> bool \<times> nat \<times> bool \<times> nat \<Rightarrow> nat \<Rightarrow> nat \<Rightarrow> (unit, 'c) tb" where
  "raw_simulate n body B C opt unset h f =
     seqm (raw_start B C h f unset)
     (seqm (loop_cycles n opt (body (if sweep opt then config_name h f else '''')))
     (raw_report opt))"

text \<open>The thread numbers and frequencies of a run.\<close>

definition sweep_threads :: "build \<Rightarrow> options \<Rightarrow> nat list" where
  "sweep_threads B opt = [0..<(if sweep opt then threads B else 1)]"

definition sweep_freqs :: "build \<Rightarrow> options \<Rightarrow> nat list" where
  "sweep_freqs B opt = (if flexpret B then [1..<Suc (if sweep opt then 8 else 1)] else [threads B])"

definition core_tb_main :: "nat \<Rightarrow> build \<Rightarrow> 'c core_if \<Rightarrow> options \<Rightarrow> bool \<times> nat \<times> bool \<times> nat \<Rightarrow> (int, 'c) tb" where
  "core_tb_main n B C opt unset =
     seqm (for_each (sweep_threads B opt) (\<lambda>h. for_each (sweep_freqs B opt) (\<lambda>f.
       raw_simulate n (raw_cycle C opt) B C opt unset h f)))
     (ret 0)"

text \<open>\<^verbatim>\<open>Core-tb-sboth.cpp\<close> also clears the program counter of thread 0 after loading.\<close>

definition sboth_load :: "'c core_if \<Rightarrow> 'c core_if" where
  "sboth_load C = C\<lparr>load := (\<lambda>c. clear_pc C (load C c))\<rparr>"

definition core_tb_sboth_main ::
    "('c \<Rightarrow> string) \<Rightarrow> nat \<Rightarrow> bool \<Rightarrow> 'c core_if \<Rightarrow> options \<Rightarrow> bool \<times> nat \<times> bool \<times> nat \<Rightarrow> (int, 'c) tb" where
  "core_tb_sboth_main line n fp C opt unset =
    (let B = \<lparr>threads = 4, flexpret = fp\<rparr>; C = sboth_load C in
     seqm (for_each (sweep_threads B opt) (\<lambda>h. for_each (sweep_freqs B opt) (\<lambda>f.
       raw_simulate n (sboth_cycle line C opt) B C opt unset h f)))
     (ret 0))"

section \<open>What a cycle does\<close>

text \<open>The characters among the messages, and those of a cycle.\<close>

definition chars_of :: "message list \<Rightarrow> string" where
  "chars_of ms = concat (map (\<lambda>m. case m of M_char c \<Rightarrow> [c] | _ \<Rightarrow> []) ms)"

definition put :: "pins \<Rightarrow> string" where
  "put p = (if bus_enable p \<and> bus_write p then [char_of (unat (bus_data_in p))] else [])"

lemma chars_of_simps [simp]:
  "chars_of [] = []" "chars_of (ms @ ms') = chars_of ms @ chars_of ms'" "chars_of (M_char c # ms) = c # chars_of ms"
  "chars_of (M_passed x # ms) = chars_of ms" "chars_of (M_failed x n # ms) = chars_of ms"
  "chars_of (M_trace_pc t h v pc # ms) = chars_of ms" "chars_of (M_timeout # ms) = chars_of ms"
  "chars_of (gpio_changes p s is) = []" "chars_of (counts_shown b s) = []"
  by (induction "is") (simp_all add: chars_of_def gpio_changes_def counts_shown_def)

lemma chars_of_char [simp]: "chars_of (map M_char cs) = cs"
  by (induction cs) simp_all

text \<open>A cycle, as far as the counters, the output and the end are concerned.\<close>

definition watched :: "pins \<Rightarrow> 'c bench \<Rightarrow> 'c bench \<Rightarrow> bool" where
  "watched p s s' \<longleftrightarrow> dec_tid s' = if_tid s \<and> if_tid s' = if_reg_tid p \<and>
     (let start = (csr_rw_write p \<and> csr_rw_addr p = 0xCCE) in
      processor_cycles s' = counted start (dec_tid s)
        (\<lambda>i. if i < 4 then processor_cycles s i + 1 else processor_cycles s i) False \<and>
      thread_cycles s' = counted start (dec_tid s) (thread_cycles s) True \<and>
      commit_cycles s' = counted start (dec_tid s) (commit_cycles s) (ctl_exe_valid p)) \<and>
     (finished s' \<longrightarrow> finished s \<or> host_to_host p \<noteq> 0) \<and>
     (\<exists>ms. stderr s' = stderr s @ ms \<and> chars_of ms = put p \<and>
       set (counts_shown (csr_rw_write p \<and> csr_rw_addr p = 0xCCF) s) \<subseteq> set ms)"

lemma print_char_run: "print_char p s = Ret () (s\<lparr>stderr := stderr s @ map M_char (put p)\<rparr>)"
  by (simp add: print_char_def put_def say_err_def whenm_def)

definition watch_state :: "pins \<Rightarrow> 'c bench \<Rightarrow> 'c bench" where
  "watch_state p s = s
     \<lparr>gpio_prev := (\<lambda>i. if i < 4 then gpio_out p i else gpio_prev s i),
      finished := finished s \<or> host_to_host p \<noteq> tohost_prev s \<and> host_to_host p \<noteq> 0,
      fail := fail s \<or> host_to_host p \<noteq> tohost_prev s \<and> 1 < host_to_host p,
      tohost_prev := host_to_host p,
      dec_valid := if_valid s, dec_tid := if_tid s, if_valid := if_reg_valid p, if_tid := if_reg_tid p,
      processor_cycles := counted (csr_rw_write p \<and> csr_rw_addr p = 0xCCE) (dec_tid s)
         (\<lambda>i. if i < 4 then processor_cycles s i + 1 else processor_cycles s i) False,
      thread_cycles := counted (csr_rw_write p \<and> csr_rw_addr p = 0xCCE) (dec_tid s) (thread_cycles s) True,
      commit_cycles := counted (csr_rw_write p \<and> csr_rw_addr p = 0xCCE) (dec_tid s) (commit_cycles s) (ctl_exe_valid p)\<rparr>"

definition watch_messages :: "string \<Rightarrow> pins \<Rightarrow> 'c bench \<Rightarrow> message list" where
  "watch_messages msg p s = map M_char (put p) @ gpio_changes p s [0, 1, 2, 3] @
     (if host_to_host p = tohost_prev s \<or> host_to_host p = 0 then []
      else [if host_to_host p = 1 then M_passed msg else M_failed msg (host_to_host p)]) @
     counts_shown (csr_rw_write p \<and> csr_rw_addr p = 0xCCF) s"

lemma raw_watch_run:
  "raw_watch msg p s = (if dec_tid s < 4
    then Ret () (watch_state p s\<lparr>stderr := stderr s @ watch_messages msg p s\<rparr>) else Fault Bad_Index)"
proof -
  have "gpio_changes p (s\<lparr>stderr := e\<rparr>) is = gpio_changes p s is" for e "is"
    by (simp add: gpio_changes_def)
  then show ?thesis
    by (simp add: raw_watch_def seqm_def bnd_def print_char_run watch_gpio_run watch_tohost_run
        raw_count_cycle_def count_cycle_run counts_shown_def watch_state_def watch_messages_def cong del: if_weak_cong)
qed

lemma raw_watch_watched:
  assumes "dec_tid s < 4"
  shows "\<exists>s'. raw_watch msg p s = Ret () s' \<and> watched p s s' \<and> core s' = core s \<and> cycle s' = cycle s"
  using assms by (auto simp: raw_watch_run watched_def watch_state_def watch_messages_def Let_def cong del: if_weak_cong)

definition after_cycle :: "'c core_if \<Rightarrow> 'c bench \<Rightarrow> 'c bench \<Rightarrow> bool" where
  "after_cycle C s s' \<longleftrightarrow> watched (seen C (core s)) s s' \<and> core s' = next_core C (core s) \<and> cycle s' = cycle s + 1"

lemma watched_upd [simp]:
  "watched p (s\<lparr>core := c\<rparr>) s' = watched p s s'"
  unfolding watched_def Let_def counts_shown_def by (simp cong del: if_weak_cong)

lemma watched_more:
  "watched p s s' \<Longrightarrow> chars_of ms = [] \<Longrightarrow>
    watched p s (s'\<lparr>stderr := stderr s' @ ms, core := c, cycle := d\<rparr>)"
  by (auto simp: watched_def Let_def)

lemma raw_cycle_run:
  assumes "dec_tid s < 4"
  shows "\<exists>s'. raw_cycle C opt msg s = Ret () s' \<and> after_cycle C s s'"
proof -
  let ?p = "seen C (core s)"
  obtain s1 where s1: "raw_watch msg ?p (s\<lparr>core := settled C (core s)\<rparr>) = Ret () s1" "watched ?p s s1"
    "core s1 = settled C (core s)" "cycle s1 = cycle s"
    using raw_watch_watched [of "s\<lparr>core := settled C (core s)\<rparr>" msg ?p] assms by auto
  let ?ms = "if trace opt then [M_trace_pc (cycle s1) (exe_reg_tid ?p) (ctl_exe_valid ?p) (exe_reg_pc ?p)] else []"
  let ?s' = "s1\<lparr>stderr := stderr s1 @ ?ms, core := next_core C (core s), cycle := cycle s + 1\<rparr>"
  have "raw_cycle C opt msg s = Ret () ?s'"
    using s1 by (simp add: raw_cycle_def seqm_def bnd_def modify_def gets_def settled_def seen_def next_core_def
        raw_trace_def whenm_def say_err_def)
  moreover have "after_cycle C s ?s'"
    using watched_more [OF s1(2), of ?ms] by (simp add: after_cycle_def)
  ultimately show ?thesis by blast
qed

lemma raw_report_run:
  "\<exists>s'. raw_report opt s = Ret () s' \<and> cycle s' = cycle s \<and> finished s' = finished s \<and>
    (\<exists>ms. stderr s' = stderr s @ ms \<and> chars_of ms = [])"
  by (cases "max_cycles opt \<le> cycle s") (simp_all add: raw_report_def say_err_def)

lemma raw_cycle_fault: "\<not> dec_tid s < 4 \<Longrightarrow> raw_cycle C opt msg s = Fault Bad_Index"
  by (simp add: raw_cycle_def seqm_def bnd_def modify_def gets_def raw_watch_run)

section \<open>A run\<close>

text \<open>The states of a run whose processor has four threads.\<close>

definition raw_trace_of :: "'c core_if \<Rightarrow> (nat \<Rightarrow> 'c bench) \<Rightarrow> nat \<Rightarrow> bool" where
  "raw_trace_of C S k \<longleftrightarrow> (\<forall>i < k. after_cycle C (S i) (S (Suc i)) \<and> dec_tid (S i) < 4)"

lemma raw_trace_core:
  "raw_trace_of C S k \<Longrightarrow> i \<le> k \<Longrightarrow> core (S i) = (next_core C ^^ i) (core (S 0)) \<and> cycle (S i) = cycle (S 0) + of_nat i"
  by (induction i) (auto simp: raw_trace_of_def after_cycle_def)

lemma raw_trace_seen:
  assumes "raw_trace_of C S k" "i < k"
  shows "seen C (core (S i)) = signals C (core (S 0)) k ! i"
  using raw_trace_core [OF assms(1), of i] assms(2) by (simp add: signals_def)

lemma raw_trace_step:
  assumes "raw_trace_of C S k" "i < k"
  shows "watched (signals C (core (S 0)) k ! i) (S i) (S (Suc i))"
  using assms raw_trace_seen [OF assms] unfolding raw_trace_of_def after_cycle_def by fastforce

lemma raw_trace_tids:
  assumes "raw_trace_of C S k"
  shows "Suc i < k \<Longrightarrow> dec_tid (S (Suc (Suc i))) = if_reg_tid (signals C (core (S 0)) k ! i)"
  using assms raw_trace_seen [OF assms, of i] by (simp add: raw_trace_of_def after_cycle_def watched_def)

text \<open>Cycle \<open>m\<close> of a run resets the counters of thread \<open>t\<close>.\<close>

definition resets :: "'c core_if \<Rightarrow> (nat \<Rightarrow> 'c bench) \<Rightarrow> nat \<Rightarrow> nat \<Rightarrow> bool" where
  "resets C S t m \<longleftrightarrow> (let p = seen C (core (S m)) in csr_rw_write p \<and> csr_rw_addr p = 0xCCE) \<and> dec_tid (S m) = t"

lemma counters_since:
  assumes run: "raw_trace_of C S k" and i: "resets C S t i" "i < k"
  shows "i < j \<Longrightarrow> j \<le> k \<Longrightarrow> (\<And>m. i < m \<Longrightarrow> m < j \<Longrightarrow> \<not> resets C S t m) \<Longrightarrow>
    processor_cycles (S j) t = of_nat (j - i - 1) \<and>
    thread_cycles (S j) t = of_nat (length (filter (\<lambda>m. dec_tid (S m) = t) [Suc i..<j])) \<and>
    commit_cycles (S j) t = of_nat (length (filter (\<lambda>m. dec_tid (S m) = t \<and> ctl_exe_valid (seen C (core (S m)))) [Suc i..<j]))"
proof (induction j)
  case 0
  then show ?case by simp
next
  case (Suc j)
  have w: "watched (seen C (core (S j))) (S j) (S (Suc j))" "dec_tid (S j) < 4" "dec_tid (S i) < 4"
    using run Suc.prems(2) i(2) by (simp_all add: raw_trace_of_def after_cycle_def)
  show ?case
  proof (cases "j = i")
    case True
    then show ?thesis
      using w i(1) by (simp add: watched_def resets_def counted_def Let_def)
  next
    case False
    then have j: "i < j" "\<not> resets C S t j" "j - i = Suc (j - Suc i)"
      using Suc.prems by auto
    have "processor_cycles (S (Suc j)) t = processor_cycles (S j) t + 1"
      "thread_cycles (S (Suc j)) t = thread_cycles (S j) t + (if dec_tid (S j) = t then 1 else 0)"
      "commit_cycles (S (Suc j)) t = commit_cycles (S j) t +
         (if dec_tid (S j) = t \<and> ctl_exe_valid (seen C (core (S j))) then 1 else 0)"
      using w i(1) j(2) unfolding watched_def resets_def counted_def Let_def by auto
    with Suc.IH Suc.prems j(1,3) show ?thesis
      by simp
  qed
qed

lemma printed_stays:
  "raw_trace_of C S k \<Longrightarrow> i \<le> j \<Longrightarrow> j \<le> k \<Longrightarrow> set (stderr (S i)) \<subseteq> set (stderr (S j))"
proof (induction j)
  case (Suc j)
  then have "set (stderr (S j)) \<subseteq> set (stderr (S (Suc j)))"
    using raw_trace_step [of C S k j] by (auto simp: watched_def)
  with Suc show ?case by (cases "i = Suc j") auto
qed simp

lemma printed_chars:
  "raw_trace_of C S k \<Longrightarrow> i \<le> k \<Longrightarrow>
    chars_of (stderr (S i)) = chars_of (stderr (S 0)) @ concat (map put (take i (signals C (core (S 0)) k)))"
proof (induction i)
  case (Suc i)
  have "i < length (signals C (core (S 0)) k)"
    using Suc.prems by (simp add: signals_def)
  moreover have "chars_of (stderr (S (Suc i))) = chars_of (stderr (S i)) @ put (signals C (core (S 0)) k ! i)"
    using raw_trace_step [of C S k i] Suc.prems by (auto simp: watched_def)
  ultimately show ?case
    using Suc by (simp add: take_Suc_conv_app_nth)
qed simp

lemma signalled:
  "raw_trace_of C S k \<Longrightarrow> i \<le> k \<Longrightarrow> finished (S i) \<Longrightarrow> \<not> finished (S 0) \<Longrightarrow>
    \<exists>m < k. host_to_host (signals C (core (S 0)) k ! m) \<noteq> 0"
proof (induction i)
  case (Suc i)
  then have "finished (S i) \<or> host_to_host (signals C (core (S 0)) k ! i) \<noteq> 0"
    using raw_trace_step [of C S k i] by (simp add: watched_def)
  moreover have "i < k"
    using Suc.prems by simp
  ultimately show ?case
    using Suc Suc_leD by blast
qed simp

lemma counters_shown:
  assumes run: "raw_trace_of C S k" and t: "resets C S t i" "i < j" "j < k" "dec_tid (S j) = t"
    and stop: "csr_rw_write (seen C (core (S j)))" "csr_rw_addr (seen C (core (S j))) = 0xCCF"
    and none: "\<And>m. i < m \<Longrightarrow> m < j \<Longrightarrow> \<not> resets C S t m"
  shows "M_counters (cycle (S 0) + of_nat j) t (of_nat (j - i - 1))
      (of_nat (length (filter (\<lambda>m. dec_tid (S m) = t) [Suc i..<j])))
      (of_nat (length (filter (\<lambda>m. dec_tid (S m) = t \<and> ctl_exe_valid (seen C (core (S m)))) [Suc i..<j]))) \<in> set (stderr (S k))"
proof -
  have "set (counts_shown True (S j)) \<subseteq> set (stderr (S (Suc j)))"
    using run t(3) stop unfolding raw_trace_of_def after_cycle_def watched_def by fastforce
  also have "\<dots> \<subseteq> set (stderr (S k))"
    by (rule printed_stays [OF run]) (use t(3) in simp_all)
  finally show ?thesis
    using counters_since [OF run t(1) _ t(2) _ none] t(2-4) raw_trace_core [OF run, of j] by (simp add: counts_shown_def)
qed

text \<open>The whole simulation of a processor with four threads has such a run.\<close>

lemma raw_simulate_runs:
  assumes "max_cycles opt \<noteq> 0" "cycle s \<le> max_cycles opt" "unat (max_cycles opt - cycle s) \<le> n"
    and "\<And>c. if_reg_tid (pins_of C c) < 4" "unset = (ifv, ift, decv, dect)" "ift < 4" "dect < 4"
  obtains k S s' where "k \<le> n" "raw_trace_of C S k" "raw_simulate n (raw_cycle C opt) B C opt unset h f s = Ret () s'"
    "core (S 0) = raw_config_core B C h f" "cycle (S 0) = cycle s" "stderr (S 0) = stderr s" "\<not> finished (S 0)"
    "\<not> sim_more opt (S k)" "cycle s' \<le> max_cycles opt" "cycle s' = cycle (S k)"
    "\<exists>ms. stderr s' = stderr (S k) @ ms \<and> chars_of ms = []"
proof -
  let ?msg = "if sweep opt then config_name h f else ''''"
  obtain s0 where s0: "raw_start B C h f unset s = Ret () s0" "core s0 = raw_config_core B C h f" "cycle s0 = cycle s"
    "stderr s0 = stderr s" "\<not> finished s0" "dec_tid s0 < 4" "if_tid s0 < 4"
    by (simp add: raw_start_def assms(5-7))
  have "\<exists>s'. raw_cycle C opt ?msg v = Ret () s' \<and> (dec_tid s' < 4 \<and> if_tid s' < 4) \<and> cycle s' = cycle v + 1"
    if "dec_tid v < 4 \<and> if_tid v < 4" for v
    using raw_cycle_run [of v C opt ?msg] that assms(4) by (auto simp: after_cycle_def watched_def seen_def)
  from loop_cycles_trace [where I = "\<lambda>v. dec_tid v < 4 \<and> if_tid v < 4", OF this assms(1), of s0 n] s0 assms(2,3)
  obtain k S where S: "k \<le> n" "S 0 = s0" "loop_cycles n opt (raw_cycle C opt ?msg) s0 = Ret () (S k)"
    "\<not> sim_more opt (S k)" "cycle (S k) \<le> max_cycles opt" "\<forall>i < k. raw_cycle C opt ?msg (S i) = Ret () (S (Suc i)) \<and> dec_tid (S i) < 4"
    by auto
  have "raw_trace_of C S k"
    unfolding raw_trace_of_def
  proof (intro allI impI)
    fix i assume "i < k"
    then have i: "raw_cycle C opt ?msg (S i) = Ret () (S (Suc i))" "dec_tid (S i) < 4"
      using S(6) by blast+
    show "after_cycle C (S i) (S (Suc i)) \<and> dec_tid (S i) < 4"
      using raw_cycle_run [OF i(2), of C opt ?msg] i by auto
  qed
  moreover obtain s' where "raw_report opt (S k) = Ret () s'" "cycle s' = cycle (S k)" "finished s' = finished (S k)"
    "\<exists>ms. stderr s' = stderr (S k) @ ms \<and> chars_of ms = []"
    using raw_report_run by blast
  ultimately show thesis
    using S s0 by (intro that [of k S s']) (simp_all add: raw_simulate_def)
qed

section \<open>Properties\<close>

text \<open>
  With a limit on the cycles a configuration of the bare test bench ends, at the limit or after the
  program has signalled its end, and on a processor with four threads without an undefined access. The
  characters printed are those all threads wrote to the output port, in the order of the cycles.
\<close>

theorem raw_simulate_output:
  assumes "max_cycles opt \<noteq> 0" "cycle s \<le> max_cycles opt" "unat (max_cycles opt - cycle s) \<le> n"
    and "\<And>c. if_reg_tid (pins_of C c) < 4" "ift < 4" "dect < 4"
  shows "\<exists>k \<le> n. \<exists>s'. raw_simulate n (raw_cycle C opt) B C opt (ifv, ift, decv, dect) h f s = Ret () s' \<and>
    cycle s' = cycle s + of_nat k \<and>
    (let P = signals C (raw_config_core B C h f) k in
      chars_of (stderr s') = chars_of (stderr s) @ concat (map put P) \<and>
      (cycle s' = max_cycles opt \<or> (\<exists>i < k. host_to_host (P ! i) \<noteq> 0)))"
proof -
  obtain k S s' where run: "k \<le> n" "raw_trace_of C S k"
    "raw_simulate n (raw_cycle C opt) B C opt (ifv, ift, decv, dect) h f s = Ret () s'"
    "core (S 0) = raw_config_core B C h f" "cycle (S 0) = cycle s" "stderr (S 0) = stderr s" "\<not> finished (S 0)"
    "\<not> sim_more opt (S k)" "cycle s' \<le> max_cycles opt" "cycle s' = cycle (S k)"
    "\<exists>ms. stderr s' = stderr (S k) @ ms \<and> chars_of ms = []"
    by (rule raw_simulate_runs [OF assms(1-4) refl assms(5,6)])
  have cyc: "cycle s' = cycle s + of_nat k"
    using raw_trace_core [OF run(2), of k] run(5,10) by simp
  have chars: "chars_of (stderr s') = chars_of (stderr s) @ concat (map put (signals C (raw_config_core B C h f) k))"
    using printed_chars [OF run(2), of k] run(4,6,11) by (auto simp: signals_def)
  have "finished (S k) \<or> cycle s' = max_cycles opt"
    using run(8,9,10) assms(1) by (auto simp: sim_more_def)
  then have "cycle s' = max_cycles opt \<or> (\<exists>i < k. host_to_host (signals C (raw_config_core B C h f) k ! i) \<noteq> 0)"
    using signalled [OF run(2) order_refl] unfolding run(4) using run(7) by blast
  with run(1,3) cyc chars show ?thesis
    unfolding Let_def by (intro exI [of _ k] conjI exI [of _ s'])
qed

text \<open>
  A processor that counts its cycles, with thread 1 and thread 2 in turn: thread 1 starts its counters
  and stops them four cycles later, after it has written a character.
\<close>

definition example_raw :: "nat core_if" where
  "example_raw = \<lparr>new_core = 0, clock_lo = (\<lambda>_ c. c), clock_hi = (\<lambda>_ c. Suc c), load = (\<lambda>c. c),
     clear_pc = (\<lambda>c. c),
     reg_tmodes = (\<lambda>_ _ c. c), reg_slots = (\<lambda>_ _ c. c), int_exts_0 = (\<lambda>_ c. c),
     pins_of = (\<lambda>c. \<lparr>dec_reg_inst = 0, bus_enable = c = 9, bus_write = True, bus_addr = 0,
       bus_data_in = 0x4F, gpio_out = (\<lambda>_. 0), host_to_host = 0,
       if_reg_valid = True, if_reg_tid = (if even c then 2 else 1), csr_rw_write = (c = 7 \<or> c = 11),
       csr_rw_addr = (if c = 7 then 0xCCE else 0xCCF), ctl_exe_valid = (c \<noteq> 9),
       exe_reg_tid = 0, exe_reg_pc = 0, exe_reg_inst = 0\<rparr>)\<rparr>"

definition example_limit :: "u64 \<Rightarrow> options" where
  "example_limit m = \<lparr>sweep = False, trace = False, max_cycles = m\<rparr>"

lemma example_raw_start: "raw_config_core \<lparr>threads = 4, flexpret = True\<rparr> example_raw 0 1 = 5"
  by (simp add: raw_config_core_def example_raw_def numeral_eq_Suc)

lemma example_raw_signals: "signals example_raw 5 8 = map (pins_of example_raw) [5, 6, 7, 8, 9, 10, 11, 12]"
  by (simp add: numeral_eq_Suc signals_Suc) (simp add: signals_def seen_def settled_def next_core_def example_raw_def)

lemma example_raw_tid: "if_reg_tid (pins_of example_raw c) < 4"
  by (simp add: example_raw_def)

definition example_raw_run :: "(unit, nat bench) result" where
  "example_raw_run = raw_simulate 8 (raw_cycle example_raw (example_limit 8)) \<lparr>threads = 4, flexpret = True\<rparr> example_raw
     (example_limit 8) (False, 0, False, 0) 0 1 (boot_bench example_raw)"

lemma example_raw_limits:
  "max_cycles (example_limit 8) \<noteq> 0" "cycle (boot_bench example_raw) \<le> max_cycles (example_limit 8)"
  "unat (max_cycles (example_limit 8) - cycle (boot_bench example_raw)) \<le> 8"
  by (simp_all add: example_limit_def boot_bench_def)

lemma example_raw_ends:
  assumes "example_raw_run = Ret () s'" "cycle s' = of_nat k" "k \<le> 8"
  shows "k = 8"
proof -
  obtain j S v where run: "raw_trace_of example_raw S j" "example_raw_run = Ret () v" "\<not> finished (S 0)"
    "\<not> sim_more (example_limit 8) (S j)" "cycle v \<le> max_cycles (example_limit 8)" "cycle v = cycle (S j)"
    unfolding example_raw_run_def
    by (rule raw_simulate_runs [OF example_raw_limits example_raw_tid refl zero_less_numeral zero_less_numeral])
  have "host_to_host (signals example_raw c j ! i) = 0" if "i < j" for c i
    using that by (simp add: signals_def seen_def example_raw_def)
  with signalled [OF run(1) order_refl] run(3) have "\<not> finished (S j)"
    by auto
  with run(4-6) have "cycle v = 8"
    by (auto simp: sim_more_def example_limit_def)
  then have "(of_nat k :: u64) = 8"
    using run(2) assms(1,2) by (metis result.inject(1))
  then have "unat (of_nat k :: u64) = 8"
    by simp
  with assms(3) show ?thesis
    by (simp add: unat_of_nat)
qed

theorem raw_simulate_output_witness:
  "\<exists>s'. example_raw_run = Ret () s' \<and> cycle s' = 8 \<and> chars_of (stderr s') = ''O''"
proof -
  let ?b = "boot_bench example_raw"
  from raw_simulate_output [OF example_raw_limits example_raw_tid, of 0 0 "\<lparr>threads = 4, flexpret = True\<rparr>" False False 0 1]
  obtain k s' where s': "example_raw_run = Ret () s'" and k: "k \<le> 8" "cycle s' = cycle ?b + of_nat k"
    and out: "chars_of (stderr s') = chars_of (stderr ?b) @ concat (map put (signals example_raw 5 k))"
    unfolding example_raw_start Let_def example_raw_run_def by auto
  have "k = 8"
    using example_raw_ends [OF s' _ k(1)] k(2) by (simp add: boot_bench_def)
  with out k(2) have "chars_of (stderr s') = ''O''" "cycle s' = 8"
    unfolding \<open>k = 8\<close> example_raw_signals
    by (simp_all add: put_def example_raw_def boot_bench_def char_of_def bit_0)
  with s' show ?thesis by blast
qed

text \<open>
  The counters of the bare test bench measure what they are for. When a thread writes the
  register of \<^verbatim>\<open>counters_start\<close> in cycle \<open>i\<close> and that of \<^verbatim>\<open>counters_end\<close> in cycle \<open>j\<close>, without another
  start in between, the test bench prints for this thread the number of cycles between the two, the
  number of them in which the thread was in the execute stage, and of those in which it completed an
  instruction.
\<close>

theorem raw_counters_measure:
  assumes "max_cycles opt \<noteq> 0" "cycle s \<le> max_cycles opt" "unat (max_cycles opt - cycle s) \<le> n"
    and "\<And>c. if_reg_tid (pins_of C c) < 4" "ift < 4" "dect < 4"
  shows "\<exists>k \<le> n. \<exists>s'. raw_simulate n (raw_cycle C opt) B C opt (ifv, ift, decv, dect) h f s = Ret () s' \<and>
    cycle s' = cycle s + of_nat k \<and>
    (let P = signals C (raw_config_core B C h f) k;
         exe = (\<lambda>m. if_reg_tid (P ! (m - 2)));
         writes = (\<lambda>m r. csr_rw_write (P ! m) \<and> csr_rw_addr (P ! m) = r) in
     \<forall>i j. 2 \<le> i \<longrightarrow> i < j \<longrightarrow> j < k \<longrightarrow> exe i = exe j \<longrightarrow> writes i 0xCCE \<longrightarrow> writes j 0xCCF \<longrightarrow>
       (\<forall>m. i < m \<longrightarrow> m < j \<longrightarrow> exe m = exe j \<longrightarrow> \<not> writes m 0xCCE) \<longrightarrow>
       M_counters (cycle s + of_nat j) (exe j) (of_nat (j - i - 1))
         (of_nat (length (filter (\<lambda>m. exe m = exe j) [Suc i..<j])))
         (of_nat (length (filter (\<lambda>m. exe m = exe j \<and> ctl_exe_valid (P ! m)) [Suc i..<j]))) \<in> set (stderr s'))"
proof -
  obtain k S s' where run: "k \<le> n" "raw_trace_of C S k"
    "raw_simulate n (raw_cycle C opt) B C opt (ifv, ift, decv, dect) h f s = Ret () s'"
    "core (S 0) = raw_config_core B C h f" "cycle (S 0) = cycle s" "cycle s' = cycle (S k)"
    and ms: "\<exists>ms. stderr s' = stderr (S k) @ ms \<and> chars_of ms = []"
    by (rule raw_simulate_runs [OF assms(1-4) refl assms(5,6)])
  let ?P = "signals C (raw_config_core B C h f) k"
  let ?exe = "\<lambda>m. if_reg_tid (?P ! (m - 2))"
  have seen: "seen C (core (S m)) = ?P ! m" if "m < k" for m
    using raw_trace_seen [OF run(2) that] run(4) by simp
  have exe: "dec_tid (S m) = ?exe m" if "2 \<le> m" "m < k" for m
  proof -
    have "Suc (m - 2) < k" "Suc (Suc (m - 2)) = m"
      using that by simp_all
    with raw_trace_tids [OF run(2), of "m - 2"] run(4) show ?thesis by simp
  qed
  have "M_counters (cycle s + of_nat j) (?exe j) (of_nat (j - i - 1))
      (of_nat (length (filter (\<lambda>m. ?exe m = ?exe j) [Suc i..<j])))
      (of_nat (length (filter (\<lambda>m. ?exe m = ?exe j \<and> ctl_exe_valid (?P ! m)) [Suc i..<j]))) \<in> set (stderr (S k))"
    if "2 \<le> i" "i < j" "j < k" "?exe i = ?exe j" "csr_rw_write (?P ! i)" "csr_rw_addr (?P ! i) = 0xCCE"
      "csr_rw_write (?P ! j)" "csr_rw_addr (?P ! j) = 0xCCF"
      "\<And>m. i < m \<Longrightarrow> m < j \<Longrightarrow> ?exe m = ?exe j \<Longrightarrow> \<not> (csr_rw_write (?P ! m) \<and> csr_rw_addr (?P ! m) = 0xCCE)" for i j
  proof -
    have "filter (\<lambda>m. dec_tid (S m) = ?exe j) [Suc i..<j] = filter (\<lambda>m. ?exe m = ?exe j) [Suc i..<j]"
      "filter (\<lambda>m. dec_tid (S m) = ?exe j \<and> ctl_exe_valid (seen C (core (S m)))) [Suc i..<j] =
        filter (\<lambda>m. ?exe m = ?exe j \<and> ctl_exe_valid (?P ! m)) [Suc i..<j]"
      using that(1-3) exe seen by (auto intro!: filter_cong)
    moreover have "resets C S (?exe j) m \<longleftrightarrow>
        csr_rw_write (?P ! m) \<and> csr_rw_addr (?P ! m) = 0xCCE \<and> ?exe m = ?exe j" if "2 \<le> m" "m < k" for m
      using exe seen that by (simp add: resets_def Let_def)
    ultimately show ?thesis
      using counters_shown [OF run(2), of "?exe j" i j] that exe [of j] seen [of j] run(5) by auto
  qed
  moreover have "cycle s' = cycle s + of_nat k"
    using raw_trace_core [OF run(2), of k] run(5,6) by simp
  ultimately show ?thesis
    using run(1,3) ms unfolding Let_def
    by (intro exI [of _ k] conjI exI [of _ s'] allI impI) auto
qed

theorem raw_counters_measure_witness:
  "\<exists>s'. example_raw_run = Ret () s' \<and> M_counters 6 1 3 1 0 \<in> set (stderr s')"
proof -
  let ?b = "boot_bench example_raw"
  from raw_counters_measure [OF example_raw_limits example_raw_tid zero_less_numeral zero_less_numeral,
      where B = "\<lparr>threads = 4, flexpret = True\<rparr>" and ifv = False and decv = False and h = 0 and f = 1]
  obtain k s' where s': "example_raw_run = Ret () s'" and k: "k \<le> 8" "cycle s' = cycle ?b + of_nat k"
    and shown: "let P = signals example_raw 5 k;
         exe = (\<lambda>m. if_reg_tid (P ! (m - 2)));
         writes = (\<lambda>m r. csr_rw_write (P ! m) \<and> csr_rw_addr (P ! m) = r) in
     \<forall>i j. 2 \<le> i \<longrightarrow> i < j \<longrightarrow> j < k \<longrightarrow> exe i = exe j \<longrightarrow> writes i 0xCCE \<longrightarrow> writes j 0xCCF \<longrightarrow>
       (\<forall>m. i < m \<longrightarrow> m < j \<longrightarrow> exe m = exe j \<longrightarrow> \<not> writes m 0xCCE) \<longrightarrow>
       M_counters (cycle ?b + of_nat j) (exe j) (of_nat (j - i - 1))
         (of_nat (length (filter (\<lambda>m. exe m = exe j) [Suc i..<j])))
         (of_nat (length (filter (\<lambda>m. exe m = exe j \<and> ctl_exe_valid (P ! m)) [Suc i..<j]))) \<in> set (stderr s')"
    unfolding example_raw_start example_raw_run_def by blast
  have "k = 8"
    using example_raw_ends [OF s' _ k(1)] k(2) by (simp add: boot_bench_def)
  have "2 < m \<and> m < 6 \<longleftrightarrow> m \<in> {3, 4, 5}" for m :: nat
    by auto
  then have "(\<forall>m. 2 < m \<longrightarrow> m < 6 \<longrightarrow> Q m) \<longleftrightarrow> Q 3 \<and> Q 4 \<and> Q 5" for Q :: "nat \<Rightarrow> bool"
    by (metis insert_iff singletonD)
  then have "M_counters 6 1 3 1 0 \<in> set (stderr s')"
    using shown [unfolded \<open>k = 8\<close> example_raw_signals Let_def, THEN spec [of _ 2], THEN spec [of _ 6]]
    by (simp add: example_raw_def boot_bench_def)
  with s' show ?thesis by blast
qed

section \<open>The two bare test benches\<close>

text \<open>Messages both print: all but the trace and the line put in by the script.\<close>

definition common :: "message list \<Rightarrow> message list" where
  "common = filter (\<lambda>m. case m of M_trace _ _ _ _ _ \<Rightarrow> False | M_trace_pc _ _ _ _ \<Rightarrow> False | M_extra _ \<Rightarrow> False | _ \<Rightarrow> True)"

definition alike :: "'c bench \<Rightarrow> 'c bench \<Rightarrow> bool" where
  "alike s t \<longleftrightarrow> (\<exists>e. t = s\<lparr>stderr := e\<rparr> \<and> common e = common (stderr s))"

fun ends_alike :: "('a, 'c bench) result \<Rightarrow> ('a, 'c bench) result \<Rightarrow> bool" where
  "ends_alike (Ret x s) (Ret y t) \<longleftrightarrow> x = y \<and> alike s t"
| "ends_alike (Blocked s) (Blocked t) \<longleftrightarrow> alike s t"
| "ends_alike (Fault e) (Fault e') \<longleftrightarrow> e = e'"
| "ends_alike _ _ \<longleftrightarrow> False"

definition tb_alike :: "('a, 'c) tb \<Rightarrow> ('a, 'c) tb \<Rightarrow> bool" where
  "tb_alike f g \<longleftrightarrow> (\<forall>s t. alike s t \<longrightarrow> ends_alike (f s) (g t))"

lemma tb_alike_seqm:
  assumes "tb_alike f f'" "tb_alike g g'"
  shows "tb_alike (seqm f g) (seqm f' g')"
  unfolding tb_alike_def
proof (intro allI impI)
  fix s t :: "'a bench"
  assume "alike s t"
  with assms(1) have "ends_alike (f s) (f' t)"
    by (simp add: tb_alike_def)
  with assms(2) show "ends_alike (seqm f g s) (seqm f' g' t)"
    by (cases "f s"; cases "f' t") (simp_all add: seqm_def bnd_def tb_alike_def)
qed

lemma tb_alike_for_each:
  "(\<And>x. tb_alike (f x) (g x)) \<Longrightarrow> tb_alike (for_each xs f) (for_each xs g)"
  by (induction xs) (simp_all add: tb_alike_seqm, simp add: tb_alike_def)

lemma tb_alike_ret: "tb_alike (ret x) (ret x)"
  by (simp add: tb_alike_def)

lemma tb_alike_modify:
  assumes "\<And>s e. f (s\<lparr>stderr := e\<rparr>) = f s\<lparr>stderr := e\<rparr>"
  shows "tb_alike (modify f) (modify f)"
proof -
  have "stderr (f s) = stderr s" for s
    using arg_cong [OF assms [of "stderr s" s], of stderr] by simp
  with assms show ?thesis
    by (auto simp: tb_alike_def alike_def)
qed

lemma tb_alike_loop:
  "tb_alike f g \<Longrightarrow> tb_alike (loop_cycles n opt f) (loop_cycles n opt g)"
proof (induction n)
  case 0
  show ?case by (auto simp: tb_alike_def alike_def sim_more_def)
next
  case (Suc n)
  have "sim_more opt t = sim_more opt s" if "alike s t" for s t :: "'a bench"
    using that by (auto simp: alike_def sim_more_def)
  with tb_alike_seqm [OF Suc.prems Suc.IH [OF Suc.prems]] show ?case
    by (simp add: tb_alike_def)
qed

lemma tb_alike_watch: "tb_alike (raw_watch msg p) (raw_watch msg p)"
proof -
  have "watch_state p (s\<lparr>stderr := e\<rparr>) = watch_state p s\<lparr>stderr := e\<rparr>" for s :: "'a bench" and e
    by (rule bench.equality) (simp_all add: watch_state_def cong del: if_weak_cong)
  moreover have "watch_messages msg p (s\<lparr>stderr := e\<rparr>) = watch_messages msg p s" for s :: "'a bench" and e
    by (simp add: watch_messages_def gpio_changes_def counts_shown_def)
  moreover have "stderr (watch_state p s) = stderr s" for s :: "'a bench"
    by (simp add: watch_state_def)
  ultimately have "alike (watch_state p s\<lparr>stderr := stderr s @ watch_messages msg p s\<rparr>)
      (watch_state p t\<lparr>stderr := stderr t @ watch_messages msg p t\<rparr>) \<and> dec_tid t = dec_tid s" if "alike s t" for s t :: "'a bench"
    using that by (auto simp: alike_def common_def)
  then show ?thesis
    by (simp add: tb_alike_def raw_watch_run)
qed

text \<open>What only one of the two prints makes no difference.\<close>

lemma tb_alike_print:
  assumes "\<And>s e. m (s\<lparr>stderr := e\<rparr>) = m s" "\<And>s e. m' (s\<lparr>stderr := e\<rparr>) = m' s" "\<And>s. common [m s] = []" "\<And>s. common [m' s] = []"
  shows "tb_alike (whenm b (bnd (gets m) say_err)) (whenm b' (bnd (gets m') say_err))"
  using assms by (cases b; cases b') (auto simp: tb_alike_def alike_def common_def say_err_def)

lemma tb_alike_prints:
  assumes "\<And>s e. f s = Ret () (s\<lparr>stderr := stderr s @ m s\<rparr>)" "\<And>s e. g s = Ret () (s\<lparr>stderr := stderr s @ m' s\<rparr>)"
    and "\<And>s. common (m s) = []" "\<And>s. common (m' s) = []"
  shows "tb_alike f g"
  using assms by (auto simp: tb_alike_def alike_def common_def)

lemma tb_alike_gets:
  assumes "\<And>s e. q (s\<lparr>stderr := e\<rparr>) = q s" "\<And>p. tb_alike (f p) (g p)"
  shows "tb_alike (bnd (gets q) f) (bnd (gets q) g)"
proof -
  have "q t = q s" if "alike s t" for s t :: "'a bench"
    using that assms(1) by (auto simp: alike_def)
  with assms(2) show ?thesis by (simp add: tb_alike_def)
qed

lemma tb_alike_whenm: "tb_alike f g \<Longrightarrow> tb_alike (whenm b f) (whenm b g)"
  by (cases b) (simp_all add: tb_alike_def)

lemma tb_alike_say: "tb_alike (say_err m) (say_err m)"
  by (auto simp: tb_alike_def alike_def common_def say_err_def)

lemma tb_alike_cycle: "tb_alike (raw_cycle C opt msg) (sboth_cycle line C opt msg)"
proof -
  have "tb_alike (raw_trace opt p) (sboth_trace line opt p)" for p
    by (rule tb_alike_prints [where
          m = "\<lambda>s. if trace opt then [M_trace_pc (cycle s) (exe_reg_tid p) (ctl_exe_valid p) (exe_reg_pc p)] else []" and
          m' = "\<lambda>s. M_extra (line (core s)) # (if trace opt
            then [M_trace (cycle s) (exe_reg_tid p) (ctl_exe_valid p) (exe_reg_pc p) (exe_reg_inst p)] else [])"])
      (simp_all add: raw_trace_def sboth_trace_def whenm_def say_err_def common_def)
  then show ?thesis
    unfolding raw_cycle_def sboth_cycle_def
    by (intro tb_alike_seqm tb_alike_modify tb_alike_gets tb_alike_watch; simp)
qed

text \<open>
  The two bare test benches do the same. On a processor with four threads and the program counter
  cleared, \<^verbatim>\<open>Core-tb.cpp\<close> and \<^verbatim>\<open>Core-tb-sboth.cpp\<close> end alike, with the same state of the processor and the
  same counters, and print the same characters, reports and results; only their traces differ, and the
  line a script puts into the second.
\<close>

theorem sboth_like_core_tb:
  "tb_alike (core_tb_main n \<lparr>threads = 4, flexpret = fp\<rparr> (sboth_load C) opt unset)
     (core_tb_sboth_main line n fp C opt unset)"
proof -
  have "tb_alike (raw_start B C' h f unset) (raw_start B C' h f unset)" for B h f and C' :: "'a core_if"
    unfolding raw_start_def by (cases unset) (rule tb_alike_modify, simp)
  moreover have "tb_alike (raw_report opt) (raw_report opt :: (unit, 'a) tb)"
    unfolding raw_report_def by (intro tb_alike_gets tb_alike_whenm tb_alike_seqm tb_alike_say tb_alike_modify) simp_all
  ultimately show ?thesis
    unfolding core_tb_main_def core_tb_sboth_main_def Let_def raw_simulate_def
    by (intro tb_alike_seqm tb_alike_for_each tb_alike_loop tb_alike_cycle tb_alike_ret) assumption+
qed

end
