(* ===== verification/Command_Line.thy ===== *)
theory Command_Line
  imports Emulator Raw_Bench
begin

text \<open>
  The programs \<^verbatim>\<open>Core-tb.cpp\<close>, \<^verbatim>\<open>Core-tb-sboth.cpp\<close> and \<^verbatim>\<open>Core-tb-os.cpp\<close> of
  \<^verbatim>\<open>src/emulator/testbench\<close> from their command line on. What \<^verbatim>\<open>getopt_long\<close> returns is the
  argument of the model, in the order it is returned. The processor is given the names of the
  two memory files. The wave form dump is not modelled beyond its options.
\<close>

section \<open>The options\<close>

text \<open>
  One result of \<^verbatim>\<open>getopt_long\<close> with its argument: a flag it has set itself, one of the options, or
  \<^verbatim>\<open>?\<close> for one that it does not know or that has no argument.
\<close>

datatype getopt = Flag_sweep | Flag_trace | Opt_m string | Opt_i string | Opt_d string
  | Opt_v "string option" | Opt_s "string option" | Opt_unknown

datatype option_message = O_maxcycles int | O_ispm string | O_dspm string | O_vcd string | O_vcdstart int | O_sweep

record settings = options +
  ispm_filename :: "string option"
  dspm_filename :: "string option"
  vcd :: bool
  vcd_filename :: string
  vcd_start :: int
  said :: "option_message list"

definition default_settings :: settings where
  "default_settings = \<lparr>sweep = False, trace = False, max_cycles = 0, ispm_filename = None, dspm_filename = None,
     vcd = False, vcd_filename = ''trace.vcd'', vcd_start = 0, said = []\<rparr>"

text \<open>\<^verbatim>\<open>atoi\<close>: blanks, a sign, digits; the value is cut to 64 bits at the ends and then to an \<^verbatim>\<open>int\<close>.\<close>

definition is_blank :: "char \<Rightarrow> bool" where
  "is_blank c \<longleftrightarrow> (let n = (of_char c :: nat) in n = 32 \<or> 9 \<le> n \<and> n \<le> 13)"

definition is_digit :: "char \<Rightarrow> bool" where
  "is_digit c \<longleftrightarrow> (let n = (of_char c :: nat) in 48 \<le> n \<and> n \<le> 57)"

definition digits_value :: "string \<Rightarrow> int" where
  "digits_value s = foldl (\<lambda>v c. 10 * v + (of_char c - 48)) 0 (takeWhile is_digit s)"

definition strtol :: "string \<Rightarrow> int" where
  "strtol s = (let t = dropWhile is_blank s;
       v = (case t of
           [] \<Rightarrow> 0
         | c # cs \<Rightarrow> if c = CHR ''-'' then - digits_value cs else if c = CHR ''+'' then digits_value cs else digits_value t) in
     max (- (2 ^ 63)) (min (2 ^ 63 - 1) v))"

definition atoi :: "string \<Rightarrow> int" where
  "atoi s = sint (word_of_int (strtol s) :: 32 word)"

definition say_option :: "option_message \<Rightarrow> settings \<Rightarrow> settings" where
  "say_option m s = s\<lparr>said := said s @ [m]\<rparr>"

text \<open>The body of the loop over the options; \<^const>\<open>None\<close> is \<^verbatim>\<open>return -1\<close>.\<close>

fun option_step :: "getopt \<Rightarrow> settings \<Rightarrow> settings option" where
  "option_step Flag_sweep s = Some (s\<lparr>sweep := True\<rparr>)"
| "option_step Flag_trace s = Some (s\<lparr>trace := True\<rparr>)"
| "option_step (Opt_m arg) s =
     (let s = s\<lparr>max_cycles := word_of_int (atoi arg)\<rparr> in Some (say_option (O_maxcycles (sint (max_cycles s))) s))"
| "option_step (Opt_i arg) s = Some (say_option (O_ispm arg) (s\<lparr>ispm_filename := Some arg\<rparr>))"
| "option_step (Opt_d arg) s = Some (say_option (O_dspm arg) (s\<lparr>dspm_filename := Some arg\<rparr>))"
| "option_step (Opt_v arg) s =
     (let s = s\<lparr>vcd := True, vcd_filename := (case arg of None \<Rightarrow> vcd_filename s | Some f \<Rightarrow> f)\<rparr> in
      Some (say_option (O_vcd (vcd_filename s)) s))"
| "option_step (Opt_s arg) s = (case arg of
       None \<Rightarrow> Some s
     | Some a \<Rightarrow> let s = s\<lparr>vcd_start := atoi a\<rparr> in Some (say_option (O_vcdstart (vcd_start s)) s))"
| "option_step Opt_unknown s = None"

text \<open>The settings the loop leaves, and whether it has come to its end.\<close>

fun parse_options :: "getopt list \<Rightarrow> settings \<Rightarrow> settings \<times> bool" where
  "parse_options [] s = (s, True)"
| "parse_options (a # as) s = (case option_step a s of None \<Rightarrow> (s, False) | Some s' \<Rightarrow> parse_options as s')"

definition say_sweep :: "settings \<Rightarrow> settings" where
  "say_sweep s = (if sweep s then say_option O_sweep s else s)"

section \<open>The programs\<close>

text \<open>
  The exit code and what is said about the options. The three print this to different streams.
\<close>

definition core_tb_program :: "nat \<Rightarrow> build \<Rightarrow> (string option \<Rightarrow> string option \<Rightarrow> 'c core_if) \<Rightarrow>
    bool \<times> nat \<times> bool \<times> nat \<Rightarrow> getopt list \<Rightarrow> (int \<times> option_message list, 'c) tb" where
  "core_tb_program n B C unset as = (case parse_options as default_settings of
       (s, False) \<Rightarrow> ret (- 1, said s)
     | (s, True) \<Rightarrow> bnd (core_tb_main n B (C (ispm_filename s) (dspm_filename s)) (options.truncate s) unset)
         (\<lambda>r. ret (r, said (say_sweep s))))"

definition core_tb_sboth_program :: "('c \<Rightarrow> string) \<Rightarrow> nat \<Rightarrow> bool \<Rightarrow> (string option \<Rightarrow> string option \<Rightarrow> 'c core_if) \<Rightarrow>
    bool \<times> nat \<times> bool \<times> nat \<Rightarrow> getopt list \<Rightarrow> (int \<times> option_message list, 'c) tb" where
  "core_tb_sboth_program line n fp C unset as = (case parse_options as default_settings of
       (s, False) \<Rightarrow> ret (- 1, said s)
     | (s, True) \<Rightarrow> bnd (core_tb_sboth_main line n fp (C (ispm_filename s) (dspm_filename s)) (options.truncate s) unset)
         (\<lambda>r. ret (r, said (say_sweep s))))"

definition core_tb_os_program :: "nat \<Rightarrow> (string option \<Rightarrow> string option \<Rightarrow> 'c core_if) \<Rightarrow>
    bool \<times> nat \<times> bool \<times> nat \<Rightarrow> getopt list \<Rightarrow> (int \<times> option_message list, 'c) tb" where
  "core_tb_os_program n C unset as = (case parse_options as default_settings of
       (s, False) \<Rightarrow> ret (- 1, said s)
     | (s, True) \<Rightarrow> bnd (emulate n (C (ispm_filename s) (dspm_filename s)) (options.truncate s) unset)
         (\<lambda>r. ret (r, said (say_sweep s))))"

section \<open>Parsing\<close>

text \<open>The limit is the last one given, and without a limit it stays.\<close>

lemma option_step_None: "option_step a s = None \<longleftrightarrow> a = Opt_unknown"
  by (cases "(a, s)" rule: option_step.cases) (auto simp: Let_def split: option.splits)

lemma option_step_limit:
  "option_step a s = Some s' \<Longrightarrow> max_cycles s' = (case a of Opt_m arg \<Rightarrow> word_of_int (atoi arg) | _ \<Rightarrow> max_cycles s)"
  by (cases "(a, s)" rule: option_step.cases) (auto simp: Let_def say_option_def split: option.splits)

lemma parse_options_append:
  "Opt_unknown \<notin> set as \<Longrightarrow> \<exists>s'. parse_options as s = (s', True) \<and> parse_options (as @ bs) s = parse_options bs s'"
proof (induction as arbitrary: s)
  case (Cons a as)
  then show ?case
    using option_step_None [of a s] by (cases "option_step a s") auto
qed simp

lemma parse_options_keeps_limit:
  "Opt_unknown \<notin> set as \<Longrightarrow> (\<And>a. Opt_m a \<notin> set as) \<Longrightarrow>
    \<exists>s'. parse_options as s = (s', True) \<and> max_cycles s' = max_cycles s"
proof (induction as arbitrary: s)
  case (Cons a as)
  from Cons.prems(1) obtain s1 where s1: "option_step a s = Some s1"
    using option_step_None [of a s] by auto
  have "max_cycles s1 = max_cycles s"
    using Cons.prems(2) option_step_limit [OF s1] by (auto split: getopt.splits)
  moreover have "\<exists>s'. parse_options as s1 = (s', True) \<and> max_cycles s' = max_cycles s1"
    using Cons.prems by (intro Cons.IH) auto
  ultimately show ?case using s1 by simp
qed simp

lemma parse_options_limit:
  assumes "Opt_unknown \<notin> set (as @ Opt_m arg # bs)" "\<And>a. Opt_m a \<notin> set bs"
  shows "\<exists>s'. parse_options (as @ Opt_m arg # bs) s = (s', True) \<and> max_cycles s' = word_of_int (atoi arg)"
proof -
  obtain s1 where s1: "parse_options (as @ Opt_m arg # bs) s = parse_options (Opt_m arg # bs) s1"
    using parse_options_append [of as s "Opt_m arg # bs"] assms(1) by auto
  show ?thesis
    unfolding s1 using assms parse_options_keeps_limit [of bs "say_option (O_maxcycles (sint (word_of_int (atoi arg) :: u64)))
      (s1\<lparr>max_cycles := word_of_int (atoi arg)\<rparr>)"]
    by (simp add: Let_def say_option_def)
qed

lemma parse_options_unknown:
  "Opt_unknown \<in> set as \<Longrightarrow> \<exists>s'. parse_options as s = (s', False)"
proof (induction as arbitrary: s)
  case (Cons a as)
  then show ?case
    using option_step_None [of a s] by (cases "option_step a s") auto
qed simp

section \<open>Properties\<close>

lemma raw_simulate_ends:
  assumes "max_cycles opt \<noteq> 0" "cycle s \<le> max_cycles opt" "unat (max_cycles opt) \<le> n"
    and "\<And>c. if_reg_tid (pins_of C c) < 4" "ift < 4" "dect < 4"
  shows "\<exists>s'. raw_simulate n (raw_cycle C opt) B C opt (ifv, ift, decv, dect) h f s = Ret () s' \<and> cycle s' \<le> max_cycles opt"
proof -
  have "unat (max_cycles opt - cycle s) \<le> n"
    using assms(2,3) by (simp add: unat_sub)
  then show ?thesis
    by (rule raw_simulate_runs [OF assms(1,2) _ assms(4) refl assms(5,6)]) blast
qed

lemma for_each_keeps:
  "(\<And>x s. I s \<Longrightarrow> \<exists>s'. body x s = Ret () s' \<and> I s') \<Longrightarrow> I s \<Longrightarrow> \<exists>s'. for_each xs body s = Ret () s' \<and> I s'"
proof (induction xs arbitrary: s)
  case (Cons x xs)
  from Cons.prems obtain s1 where "body x s = Ret () s1" "I s1" by blast
  with Cons show ?case by (simp add: seqm_def bnd_def)
qed simp



text \<open>Negative values are no limit: they become the largest ones.\<close>

lemma negative_limit: "max_cycles (fst (parse_options [Opt_m ''-1''] default_settings)) = 0xFFFFFFFFFFFFFFFF"
  by code_simp

end
