(* ===== verification/Rtos_Types.thy ===== *)
theory Rtos_Types
  imports Thread_Properties
begin

text \<open>
  The priorities of \<^verbatim>\<open>src/os/include/cmsis_os2.h\<close> against the services that take one. The other theories
  name only those the operating system uses.
\<close>

definition osPriority_t :: "(string \<times> int) list" where
  "osPriority_t = [
     (''osPriorityNone'', 0), (''osPriorityIdle'', 1), (''osPriorityLow'', 8),
     (''osPriorityLow1'', 8 + 1), (''osPriorityLow2'', 8 + 2), (''osPriorityLow3'', 8 + 3),
     (''osPriorityLow4'', 8 + 4), (''osPriorityLow5'', 8 + 5), (''osPriorityLow6'', 8 + 6),
     (''osPriorityLow7'', 8 + 7), (''osPriorityBelowNormal'', 16), (''osPriorityBelowNormal1'', 16 + 1),
     (''osPriorityBelowNormal2'', 16 + 2), (''osPriorityBelowNormal3'', 16 + 3),
     (''osPriorityBelowNormal4'', 16 + 4), (''osPriorityBelowNormal5'', 16 + 5),
     (''osPriorityBelowNormal6'', 16 + 6), (''osPriorityBelowNormal7'', 16 + 7),
     (''osPriorityNormal'', 24), (''osPriorityNormal1'', 24 + 1), (''osPriorityNormal2'', 24 + 2),
     (''osPriorityNormal3'', 24 + 3), (''osPriorityNormal4'', 24 + 4), (''osPriorityNormal5'', 24 + 5),
     (''osPriorityNormal6'', 24 + 6), (''osPriorityNormal7'', 24 + 7), (''osPriorityAboveNormal'', 32),
     (''osPriorityAboveNormal1'', 32 + 1), (''osPriorityAboveNormal2'', 32 + 2),
     (''osPriorityAboveNormal3'', 32 + 3), (''osPriorityAboveNormal4'', 32 + 4),
     (''osPriorityAboveNormal5'', 32 + 5), (''osPriorityAboveNormal6'', 32 + 6),
     (''osPriorityAboveNormal7'', 32 + 7), (''osPriorityHigh'', 40), (''osPriorityHigh1'', 40 + 1),
     (''osPriorityHigh2'', 40 + 2), (''osPriorityHigh3'', 40 + 3), (''osPriorityHigh4'', 40 + 4),
     (''osPriorityHigh5'', 40 + 5), (''osPriorityHigh6'', 40 + 6), (''osPriorityHigh7'', 40 + 7),
     (''osPriorityRealtime'', 48), (''osPriorityRealtime1'', 48 + 1), (''osPriorityRealtime2'', 48 + 2),
     (''osPriorityRealtime3'', 48 + 3), (''osPriorityRealtime4'', 48 + 4),
     (''osPriorityRealtime5'', 48 + 5), (''osPriorityRealtime6'', 48 + 6),
     (''osPriorityRealtime7'', 48 + 7), (''osPriorityISR'', 56), (''osPriorityError'', -1),
     (''osPriorityReserved'', 0x7FFFFFFF)]"

lemma priorities_distinct: "distinct (map snd osPriority_t)"
  by code_simp

text \<open>The constants of the model are those of the enumeration.\<close>

lemma used_priorities:
  "map_of osPriority_t ''osPriorityNormal'' = Some osPriorityNormal"
  "map_of osPriority_t ''osPriorityRealtime'' = Some osPriorityRealtime"
  "map_of osPriority_t ''osPriorityError'' = Some osPriorityError"
  by code_simp+

text \<open>
  Of all these priorities only two can be given to a thread: for any other no thread is created and
  nothing changes.
\<close>

definition supported :: "string list" where
  "supported = map fst (filter (\<lambda>(n, p). p = osPriorityNormal \<or> p = osPriorityRealtime) osPriority_t)"

lemma supported_priorities: "supported = [''osPriorityNormal'', ''osPriorityRealtime'']"
  by code_simp

lemma osThreadNew_unsupported:
  assumes "(n, p) \<in> set osPriority_t" "n \<notin> set supported" "at_priority (thread_attr (mach w) r) = p"
    and "func \<noteq> NULL" "flexpret_thread_num (mach w) \<noteq> FLEXPRET_HW_THREADS_NUMS"
  shows "osThreadNew func arg (Some r) w = Ret NULL w"
proof -
  have "p \<noteq> osPriorityNormal \<and> p \<noteq> osPriorityRealtime"
    using assms(1,2) by (force simp: supported_def)
  with assms(3-5) show ?thesis
    by (simp add: osThreadNew_def)
qed

end
