(* ===== verification/Lock_Protocol.thy ===== *)
theory Lock_Protocol
  imports Mutex
begin

text \<open>
  The mutex under concurrency. Mutex.thy runs a call of one thread against arbitrary outside
  events; here all eight hardware threads execute \<^verbatim>\<open>osMutexAcquire(m, osWaitForever)\<close> and
  \<^verbatim>\<open>osMutexRelease(m)\<close> of \<^verbatim>\<open>src/os/src/flexpret_mutex.c\<close> on one mutex at the same time,
  interleaved after every single access to the register or to the control block. The
  abstract lock is refined, which gives mutual exclusion; the single steps of an
  undisturbed call are shown to add up to the functions of Mutex.thy.
\<close>

section \<open>Single steps\<close>

text \<open>The shared variables of one created, not deleted mutex.\<close>

record lock_vars =
  lk_csr :: "4 word"
  lk_owner :: addr
  lk_count :: u32
  lk_recursive :: bool

text \<open>
  Where a thread is in a call: the access it will make next. \<open>Idle\<close>: in no call. The
  argument of a store is the register that holds the loaded count.
\<close>

datatype pc = Idle
  | Acq_swap | Acq_owner | Acq_set_owner | Acq_set_count | Acq_bad
  | Acq_busy | Acq_load_count | Acq_store_count u32 | Acq_loop
  | Rel_owner | Rel_load_count | Rel_store_count u32 | Rel_test | Rel_clear_owner | Rel_free

fun access :: "nat \<Rightarrow> pc \<Rightarrow> lock_vars \<Rightarrow> pc \<times> lock_vars" where
  "access t Idle v = (Idle, v)"
| "access t Acq_swap v =
     (if lk_csr v = 0 then Acq_owner else Acq_busy, v\<lparr>lk_csr := 1\<rparr>)"
| "access t Acq_owner v = (if lk_owner v = NULL then Acq_set_owner else Acq_bad, v)"
| "access t Acq_set_owner v = (Acq_set_count, v\<lparr>lk_owner := thread_ptr t\<rparr>)"
| "access t Acq_set_count v = (Idle, v\<lparr>lk_count := 1\<rparr>)"
| "access t Acq_bad v = (Idle, v\<lparr>lk_csr := 0\<rparr>)"
| "access t Acq_busy v =
     (if lk_owner v = thread_ptr t \<and> lk_recursive v then Acq_load_count else Acq_loop, v)"
| "access t Acq_load_count v = (Acq_store_count (lk_count v), v)"
| "access t (Acq_store_count c) v = (Idle, v\<lparr>lk_count := c + 1\<rparr>)"
| "access t Acq_loop v =
     (if lk_csr v = 0 then Acq_set_owner else Acq_loop, v\<lparr>lk_csr := 1\<rparr>)"
| "access t Rel_owner v =
     (if lk_owner v = NULL \<or> lk_owner v \<noteq> thread_ptr t then Idle else Rel_load_count, v)"
| "access t Rel_load_count v = (Rel_store_count (lk_count v), v)"
| "access t (Rel_store_count c) v = (Rel_test, v\<lparr>lk_count := c - 1\<rparr>)"
| "access t Rel_test v = (if lk_count v = 0 then Rel_clear_owner else Idle, v)"
| "access t Rel_clear_owner v = (Rel_free, v\<lparr>lk_owner := NULL\<rparr>)"
| "access t Rel_free v = (Idle, v\<lparr>lk_csr := 0\<rparr>)"

type_synonym system = "lock_vars \<times> (nat \<Rightarrow> pc)"

text \<open>
  A thread in no call may start one. The nesting depth is a C \<^verbatim>\<open>int\<close>: an owner at its
  maximum is taken not to acquire once more.
\<close>

inductive step :: "nat \<Rightarrow> system \<Rightarrow> system \<Rightarrow> bool" where
  acquire: "t < 8 \<Longrightarrow> pcs t = Idle \<Longrightarrow> (lk_owner v = thread_ptr t \<Longrightarrow> lk_count v < 0x7FFFFFFF) \<Longrightarrow>
    step t (v, pcs) (v, pcs(t := Acq_swap))"
| release: "t < 8 \<Longrightarrow> pcs t = Idle \<Longrightarrow> step t (v, pcs) (v, pcs(t := Rel_owner))"
| access: "t < 8 \<Longrightarrow> pcs t \<noteq> Idle \<Longrightarrow> access t (pcs t) v = (p, v') \<Longrightarrow>
    step t (v, pcs) (v', pcs(t := p))"

inductive_cases stepE: "step t (v, pcs) (v', pcs')"

definition initial :: "bool \<Rightarrow> system" where
  "initial r = (\<lparr>lk_csr = 0, lk_owner = NULL, lk_count = 0, lk_recursive = r\<rparr>, \<lambda>_. Idle)"

inductive reach :: "bool \<Rightarrow> system \<Rightarrow> bool" for r where
  start: "reach r (initial r)"
| move: "reach r s \<Longrightarrow> step t s s' \<Longrightarrow> reach r s'"

section \<open>The abstract lock\<close>

text \<open>
  Free, or held by a thread to some depth; \<open>Held t 0\<close> while the last release is on its way.
\<close>

datatype alock = Free | Held nat nat

inductive astep :: "nat \<Rightarrow> alock \<Rightarrow> alock \<Rightarrow> bool" where
  take: "astep t Free (Held t 1)"
| nest: "0 < n \<Longrightarrow> astep t (Held t n) (Held t (Suc n))"
| unnest: "astep t (Held t (Suc n)) (Held t n)"
| leave: "astep t (Held t 0) Free"
| skip: "astep t a a"

inductive areach :: "alock \<Rightarrow> bool" where
  astart: "areach Free"
| amove: "areach a \<Longrightarrow> astep t a a' \<Longrightarrow> areach a'"

section \<open>The simulation\<close>

text \<open>Where a thread that does not hold the lock can be.\<close>

definition outside :: "pc \<Rightarrow> bool" where
  "outside p \<longleftrightarrow> p \<in> {Idle, Acq_swap, Acq_busy, Acq_loop, Rel_owner}"

text \<open>What the variables are when the holder \<open>t\<close>, at depth \<open>n\<close>, is at \<open>p\<close>.\<close>

fun holder :: "lock_vars \<Rightarrow> nat \<Rightarrow> nat \<Rightarrow> pc \<Rightarrow> bool" where
  "holder v t n Acq_owner \<longleftrightarrow> n = 1 \<and> lk_owner v = NULL"
| "holder v t n Acq_set_owner \<longleftrightarrow> n = 1 \<and> lk_owner v = NULL"
| "holder v t n Acq_set_count \<longleftrightarrow> n = 1 \<and> lk_owner v = thread_ptr t"
| "holder v t n Acq_bad \<longleftrightarrow> False"
| "holder v t n Acq_swap \<longleftrightarrow> 0 < n \<and> n < 0x7FFFFFFF \<and> lk_owner v = thread_ptr t \<and> lk_count v = of_nat n"
| "holder v t n Acq_busy \<longleftrightarrow> 0 < n \<and> n < 0x7FFFFFFF \<and> lk_owner v = thread_ptr t \<and> lk_count v = of_nat n"
| "holder v t n Acq_loop \<longleftrightarrow> 0 < n \<and> n < 0x7FFFFFFF \<and> lk_owner v = thread_ptr t \<and> lk_count v = of_nat n
     \<and> \<not> lk_recursive v"
| "holder v t n Acq_load_count \<longleftrightarrow> 0 < n \<and> n < 0x7FFFFFFF \<and> lk_owner v = thread_ptr t \<and> lk_count v = of_nat n"
| "holder v t n (Acq_store_count c) \<longleftrightarrow> 0 < n \<and> n < 0x7FFFFFFF \<and> lk_owner v = thread_ptr t \<and> c = of_nat n"
| "holder v t n (Rel_store_count c) \<longleftrightarrow> 0 < n \<and> n \<le> 0x7FFFFFFF \<and> lk_owner v = thread_ptr t \<and> c = of_nat n"
| "holder v t n Rel_test \<longleftrightarrow> n < 0x7FFFFFFF \<and> lk_owner v = thread_ptr t \<and> lk_count v = of_nat n"
| "holder v t n Rel_clear_owner \<longleftrightarrow> n = 0 \<and> lk_owner v = thread_ptr t"
| "holder v t n Rel_free \<longleftrightarrow> n = 0 \<and> lk_owner v = NULL"
| "holder v t n p \<longleftrightarrow> 0 < n \<and> n \<le> 0x7FFFFFFF \<and> lk_owner v = thread_ptr t \<and> lk_count v = of_nat n"

fun sim :: "alock \<Rightarrow> system \<Rightarrow> bool" where
  "sim Free (v, pcs) \<longleftrightarrow> lk_csr v = 0 \<and> lk_owner v = NULL \<and> (\<forall>u < 8. outside (pcs u))"
| "sim (Held t n) (v, pcs) \<longleftrightarrow> lk_csr v = 1 \<and> t < 8 \<and> holder v t n (pcs t) \<and>
     (\<forall>u < 8. u \<noteq> t \<longrightarrow> outside (pcs u))"

lemma holder_owner: "holder v t n p \<Longrightarrow> lk_owner v = NULL \<or> lk_owner v = thread_ptr t"
  by (cases p) auto

lemma of_nat_bound_0: "n \<le> 0x7FFFFFFF \<Longrightarrow> (of_nat n :: u32) = 0 \<longleftrightarrow> n = 0"
  by (intro of_nat_u32_eq_0) simp

lemma of_nat_less_bound: "n \<le> 0x7FFFFFFF \<Longrightarrow> (of_nat n :: u32) < 0x7FFFFFFF \<longleftrightarrow> n < 0x7FFFFFFF"
  by (simp add: word_less_nat_alt unat_of_nat take_bit_nat_eq_self)

text \<open>A thread outside, while the lock is held by another: nothing changes.\<close>

lemma access_outside:
  assumes "outside p" "lk_csr v = 1" "lk_owner v \<noteq> thread_ptr t"
  shows "\<exists>p'. access t p v = (p', v) \<and> outside p'"
  using assms by (cases v) (auto simp: outside_def)

text \<open>A thread outside, while the lock is free: it stays outside or takes the lock.\<close>

lemma access_free:
  assumes "outside p" "lk_csr v = 0" "lk_owner v = NULL" "t < 8"
  shows "(\<exists>p'. access t p v = (p', v) \<and> outside p') \<or>
    (\<exists>p'. access t p v = (p', v\<lparr>lk_csr := 1\<rparr>) \<and> holder (v\<lparr>lk_csr := 1\<rparr>) t 1 p')"
  using assms thread_ptr_not_NULL [OF assms(4)] by (auto simp: outside_def)

text \<open>The holder moves: it keeps the lock at the same or a neighbouring depth, or frees it.\<close>

lemma access_holder:
  assumes "holder v t n p" "lk_csr v = 1" "t < 8" "access t p v = (p', v')"
  shows "\<exists>a'. astep t (Held t n) a' \<and>
    (case a' of Free \<Rightarrow> lk_csr v' = 0 \<and> lk_owner v' = NULL \<and> p' = Idle
     | Held t' n' \<Rightarrow> t' = t \<and> lk_csr v' = 1 \<and> holder v' t n' p')"
proof (cases p)
  case (Acq_store_count c)
  have "astep t (Held t n) (Held t (Suc n))"
    using assms Acq_store_count by (intro nest) simp
  with assms Acq_store_count show ?thesis
    by (intro exI [of _ "Held t (Suc n)"]) auto
next
  case (Rel_store_count c)
  then obtain k where k: "n = Suc k" using assms by (cases n) simp_all
  have "astep t (Held t n) (Held t k)"
    unfolding k by (rule unnest)
  with assms Rel_store_count k show ?thesis
    by (intro exI [of _ "Held t k"]) auto
next
  case Rel_free
  with assms have "astep t (Held t n) Free"
    by (auto intro: leave)
  with assms Rel_free show ?thesis
    by (intro exI [of _ Free]) auto
qed (use assms thread_ptr_not_NULL [OF assms(3)] of_nat_bound_0 [of n] in
  \<open>auto intro!: exI [of _ "Held t n"] skip split: if_splits\<close>)

text \<open>Every step of the system is a step of the abstract lock, or changes nothing there.\<close>

lemma simulation_free:
  assumes "sim Free s" "step t s s'"
  shows "\<exists>a'. astep t Free a' \<and> sim a' s'"
proof -
  obtain v pcs v' pcs' where s: "s = (v, pcs)" "s' = (v', pcs')" by (cases s; cases s')
  from assms(2) [unfolded s] show ?thesis
  proof cases
    case (access p)
    with assms(1) s access_free [of "pcs t" v t] show ?thesis
      by (auto intro: take skip exI [of _ Free] exI [of _ "Held t 1"])
  qed (use assms(1) s in \<open>auto simp: outside_def intro!: exI [of _ Free] skip\<close>)
qed

lemma simulation_held:
  assumes "sim (Held h n) s" "step t s s'"
  shows "\<exists>a'. astep t (Held h n) a' \<and> sim a' s'"
proof -
  obtain v pcs v' pcs' where s: "s = (v, pcs)" "s' = (v', pcs')" by (cases s; cases s')
  have h: "lk_csr v = 1" "h < 8" "holder v h n (pcs h)" "\<forall>u < 8. u \<noteq> h \<longrightarrow> outside (pcs u)"
    using assms(1) s by simp_all
  have o: "t < 8 \<Longrightarrow> t \<noteq> h \<Longrightarrow> lk_owner v \<noteq> thread_ptr t"
    using holder_owner [OF h(3)] h(2) thread_ptr_inj thread_ptr_not_NULL by metis
  from assms(2) [unfolded s] show ?thesis
  proof cases
    case acquire
    with h have "t = h \<Longrightarrow> n < 0x7FFFFFFF"
      using of_nat_less_bound [of n] by simp
    with acquire s h show ?thesis
      by (intro exI [of _ "Held h n"]) (auto simp: outside_def intro: skip)
  next
    case release
    with s h show ?thesis
      by (intro exI [of _ "Held h n"]) (auto simp: outside_def intro: skip)
  next
    case (access p)
    show ?thesis
    proof (cases "t = h")
      case True
      from access_holder [OF h(3,1,2), of p v'] access True obtain a' where
        "astep h (Held h n) a'"
        "case a' of Free \<Rightarrow> lk_csr v' = 0 \<and> lk_owner v' = NULL \<and> p = Idle
          | Held t' n' \<Rightarrow> t' = h \<and> lk_csr v' = 1 \<and> holder v' h n' p"
        by auto
      with True s h access show ?thesis
        by (intro exI [of _ a']) (auto simp: outside_def split: alock.splits)
    next
      case False
      with access_outside [of "pcs t" v t] o h access s show ?thesis
        by (intro exI [of _ "Held h n"]) (auto intro: skip)
    qed
  qed
qed

lemma simulation: "sim a s \<Longrightarrow> step t s s' \<Longrightarrow> \<exists>a'. astep t a a' \<and> sim a' s'"
  using simulation_free simulation_held by (cases a) blast+

lemma reach_sim: "reach r s \<Longrightarrow> \<exists>a. areach a \<and> sim a s"
proof (induction rule: reach.induct)
  case start
  show ?case
    by (rule exI [of _ Free]) (auto simp: initial_def outside_def intro: astart)
next
  case (move s t s')
  then show ?case using simulation amove by blast
qed

section \<open>The steps of one undisturbed call\<close>

fun run :: "nat \<Rightarrow> nat \<Rightarrow> pc \<Rightarrow> lock_vars \<Rightarrow> pc \<times> lock_vars" where
  "run 0 t p v = (p, v)"
| "run (Suc k) t p v = (let (p', v') = access t p v in if p' = Idle then (Idle, v') else run k t p' v')"

definition lock_of :: "machine \<Rightarrow> nat \<Rightarrow> lock_vars" where
  "lock_of m i = (let mu = startup_mutex_state m i in
     \<lparr>lk_csr = csr_mutex m i, lk_owner = mu_owner mu, lk_count = mu_count mu,
      lk_recursive = mu_ifRecursive mu\<rparr>)"

lemma lock_of_simps [simp]:
  "lk_csr (lock_of m i) = csr_mutex m i" "lk_owner (lock_of m i) = mu_owner (startup_mutex_state m i)"
  "lk_count (lock_of m i) = mu_count (startup_mutex_state m i)"
  "lk_recursive (lock_of m i) = mu_ifRecursive (startup_mutex_state m i)"
  by (simp_all add: lock_of_def Let_def)

lemma numeral_fuel: "(7 :: nat) = Suc (Suc (Suc (Suc (Suc (Suc (Suc 0))))))"
  by simp

section \<open>Runs of the system\<close>

abbreviation steps :: "system \<Rightarrow> system \<Rightarrow> bool" where
  "steps \<equiv> (\<lambda>s s'. \<exists>t. step t s s')\<^sup>*\<^sup>*"

lemma steps_one: "step t s s' \<Longrightarrow> steps s s'"
  by blast

lemma reach_steps: "reach r s \<Longrightarrow> steps s s' \<Longrightarrow> reach r s'"
  by (rotate_tac, induction rule: rtranclp_induct) (auto intro: move)

lemma run_steps:
  assumes "t < 8"
  shows "pcs t \<noteq> Idle \<Longrightarrow> run k t (pcs t) v = (p', v') \<Longrightarrow> steps (v, pcs) (v', pcs(t := p'))"
proof (induction k arbitrary: v pcs)
  case 0
  then show ?case by (auto simp: fun_upd_idem)
next
  case (Suc k)
  obtain q u where q: "access t (pcs t) v = (q, u)" by (cases "access t (pcs t) v")
  then have 1: "steps (v, pcs) (u, pcs(t := q))"
    using assms Suc.prems(1) by (intro steps_one [of t] step.access)
  show ?case
  proof (cases "q = Idle")
    case True
    with q Suc.prems have "q = p'" "u = v'" by simp_all
    with 1 show ?thesis by (simp only:)
  next
    case False
    with q Suc.prems have "run k t ((pcs(t := q)) t) u = (p', v')" by simp
    with False have "steps (u, pcs(t := q)) (v', (pcs(t := q))(t := p'))"
      by (intro Suc.IH) simp_all
    then have "steps (u, pcs(t := q)) (v', pcs(t := p'))"
      by (simp only: fun_upd_upd)
    with 1 show ?thesis by (rule rtranclp_trans)
  qed
qed

lemma access_recursive: "access t p v = (p', v') \<Longrightarrow> lk_recursive v' = lk_recursive v"
  by (cases p) (auto split: if_splits)

lemma reach_recursive: "reach r s \<Longrightarrow> lk_recursive (fst s) = r"
proof (induction rule: reach.induct)
  case start
  show ?case by (simp add: initial_def)
next
  case (move s t s')
  then show ?case by (cases s; cases s') (auto simp: access_recursive elim!: stepE)
qed

text \<open>The owner of a non-recursive mutex in the waiting loop.\<close>

definition stuck :: "nat \<Rightarrow> system \<Rightarrow> bool" where
  "stuck t s \<longleftrightarrow> (\<exists>n. sim (Held t n) s) \<and> snd s t = Acq_loop"

lemma stuck_step:
  assumes "stuck t s" "step u s s'"
  shows "stuck t s'"
proof -
  obtain v pcs v' pcs' where s: "s = (v, pcs)" "s' = (v', pcs')" by (cases s; cases s')
  obtain n where n: "sim (Held t n) (v, pcs)" "pcs t = Acq_loop"
    using assms(1) s by (auto simp: stuck_def)
  have v: "u < 8 \<Longrightarrow> u \<noteq> t \<Longrightarrow> lk_owner v \<noteq> thread_ptr u"
    using n by (simp add: thread_ptr_inj)
  have w: "v\<lparr>lk_csr := 1\<rparr> = v"
    using n by simp
  from assms(2) [unfolded s] show ?thesis
  proof cases
    case (access p)
    show ?thesis
    proof (cases "u = t")
      case True
      with access n w s show ?thesis by (auto simp: stuck_def fun_upd_idem)
    next
      case False
      with access_outside [of "pcs u" v u] v access n s show ?thesis
        by (fastforce simp: stuck_def)
    qed
  qed (use n s in \<open>auto simp: stuck_def outside_def\<close>)
qed

lemma stuck_steps: "steps s s' \<Longrightarrow> stuck t s \<Longrightarrow> stuck t s'"
  by (induction rule: rtranclp_induct) (auto intro: stuck_step)

text \<open>The holder alone can always go on to the state where the register is free.\<close>

lemma free_idle:
  "h < 8 \<Longrightarrow> pcs h = Idle \<Longrightarrow> holder v h n Idle \<Longrightarrow> lk_csr v = 1 \<Longrightarrow>
    \<exists>s'. steps (v, pcs) s' \<and> lk_csr (fst s') = 0"
proof (induction n arbitrary: v pcs)
  case 0
  then show ?case by simp
next
  case (Suc n)
  have 1: "steps (v, pcs) (v, pcs(h := Rel_owner))"
    using Suc.prems by (intro steps_one [of h] step.release)
  let ?v' = "snd (run 7 h Rel_owner v)"
  have r: "run 7 h Rel_owner v = (Idle, ?v')"
    "if n = 0 then lk_csr ?v' = 0 else lk_csr ?v' = 1 \<and> holder ?v' h n Idle"
    using Suc.prems thread_ptr_not_NULL [of h] of_nat_bound_0 [of n]
    unfolding numeral_fuel by auto
  have 2: "steps (v, pcs) (?v', pcs(h := Idle))"
    using run_steps [of h "pcs(h := Rel_owner)" 7 v] 1 r(1) Suc.prems(1) by (auto intro: rtranclp_trans)
  show ?case
  proof (cases "n = 0")
    case True
    with 2 r show ?thesis by auto
  next
    case False
    with Suc.IH [of "pcs(h := Idle)" ?v'] r Suc.prems 2 show ?thesis
      by (meson fun_upd_same rtranclp_trans)
  qed
qed

lemma run_holder:
  assumes "h < 8" "p \<noteq> Idle" "holder v h n p" "lk_csr v = 1" "lk_recursive v"
  shows "\<exists>v' n'. run 7 h p v = (Idle, v') \<and>
    (lk_csr v' = 0 \<or> lk_csr v' = 1 \<and> holder v' h n' Idle)"
proof -
  let ?k = "Suc (Suc (Suc (Suc (Suc (Suc (Suc 0))))))"
  note 0 = thread_ptr_not_NULL [OF assms(1)] of_nat_bound_0 [of n]
  show ?thesis
  proof (cases p)
    case (Rel_store_count c)
    then obtain k where k: "n = Suc k" using assms by (cases n) simp_all
    with assms Rel_store_count of_nat_bound_0 [of k] show ?thesis
      unfolding numeral_fuel by (intro exI [of _ "snd (run ?k h p v)"] exI [of _ k]) auto
  next
    case Rel_test
    with assms 0 show ?thesis
      unfolding numeral_fuel by (intro exI [of _ "snd (run ?k h p v)"] exI [of _ n]) auto
  next
    case Rel_load_count
    then obtain k where k: "n = Suc k" using assms by (cases n) simp_all
    with assms Rel_load_count of_nat_bound_0 [of k] show ?thesis
      unfolding numeral_fuel by (intro exI [of _ "snd (run ?k h p v)"] exI [of _ k]) auto
  next
    case Rel_owner
    then obtain k where k: "n = Suc k" using assms by (cases n) simp_all
    with assms Rel_owner of_nat_bound_0 [of k] 0 show ?thesis
      unfolding numeral_fuel by (intro exI [of _ "snd (run ?k h p v)"] exI [of _ k]) auto
  next
    case (Acq_store_count c)
    with assms show ?thesis
      unfolding numeral_fuel by (intro exI [of _ "snd (run ?k h p v)"] exI [of _ "Suc n"]) auto
  next
    case Acq_load_count
    with assms show ?thesis
      unfolding numeral_fuel by (intro exI [of _ "snd (run ?k h p v)"] exI [of _ "Suc n"]) auto
  next
    case Acq_busy
    with assms show ?thesis
      unfolding numeral_fuel by (intro exI [of _ "snd (run ?k h p v)"] exI [of _ "Suc n"]) auto
  next
    case Acq_swap
    with assms show ?thesis
      unfolding numeral_fuel by (intro exI [of _ "snd (run ?k h p v)"] exI [of _ "Suc n"]) auto
  qed (use assms 0 in \<open>auto simp: numeral_fuel intro!: exI [of _ "Suc 0"]\<close>)
qed

lemma free_holder:
  assumes "h < 8" "holder v h n (pcs h)" "lk_csr v = 1" "lk_recursive v"
  shows "\<exists>s'. steps (v, pcs) s' \<and> lk_csr (fst s') = 0"
proof (cases "pcs h = Idle")
  case True
  with free_idle assms show ?thesis by metis
next
  case False
  from run_holder [OF assms(1) False assms(2-4)] obtain v' n' where
    r: "run 7 h (pcs h) v = (Idle, v')" "lk_csr v' = 0 \<or> lk_csr v' = 1 \<and> holder v' h n' Idle"
    by blast
  have 1: "steps (v, pcs) (v', pcs(h := Idle))"
    by (rule run_steps [where k = 7]) (use assms(1) False r(1) in simp_all)
  show ?thesis
  proof (cases "lk_csr v' = 0")
    case True
    with 1 show ?thesis by auto
  next
    case False
    with r free_idle [of h "pcs(h := Idle)" v' n'] assms(1) obtain s' where
      "steps (v', pcs(h := Idle)) s'" "lk_csr (fst s') = 0" by auto
    with 1 show ?thesis by (meson rtranclp_trans)
  qed
qed

section \<open>Properties\<close>

text \<open>
  C7: run undisturbed, the single steps of an acquire that need not wait, and of a release,
  add up to what the functions of Mutex.thy do to the mutex.
\<close>

theorem calls_are_runs:
  assumes "i < 8" "own_csr i (mach w)" "mu_active (startup_mutex_state (mach w) i)"
  shows "(\<forall>v. run 7 (hart w) Acq_swap (lock_of (mach w) i) = (Idle, v) \<longrightarrow>
      (\<exists>r w'. osMutexAcquire (Some i) osWaitForever w = Ret r w' \<and> lock_of (mach w') i = v)) \<and>
    (\<exists>r w'. osMutexRelease (Some i) w = Ret r w' \<and>
      run 7 (hart w) Rel_owner (lock_of (mach w) i) = (Idle, lock_of (mach w') i))"
proof (intro conjI allI impI)
  have c: "mu_csr_addr (startup_mutex_state (mach w) i) = i"
    using assms(2) by (simp add: own_csr_def)
  let ?mu = "startup_mutex_state (mach w) i"
  show "\<exists>r w'. osMutexRelease (Some i) w = Ret r w' \<and>
      run 7 (hart w) Rel_owner (lock_of (mach w) i) = (Idle, lock_of (mach w') i)"
    using assms(1,3) c unfolding numeral_fuel
    by (cases "mu_count ?mu = 1") (auto simp: osMutexRelease_def Let_def lock_of_def)
  fix v assume r: "run 7 (hart w) Acq_swap (lock_of (mach w) i) = (Idle, v)"
  show "\<exists>r w'. osMutexAcquire (Some i) osWaitForever w = Ret r w' \<and> lock_of (mach w') i = v"
  proof (cases "csr_mutex (mach w) i = 0")
    case True
    with r assms(1,3) c show ?thesis unfolding numeral_fuel
      by (cases "mu_owner ?mu = NULL") (auto simp: osMutexAcquire_def Let_def lock_of_def)
  next
    case False
    with r have "mu_owner ?mu = thread_ptr (hart w)" "mu_ifRecursive ?mu"
      unfolding numeral_fuel by (auto split: if_splits)
    with False r assms(1,3) c show ?thesis unfolding numeral_fuel
      by (auto simp: osMutexAcquire_def Let_def lock_of_def)
  qed
qed

theorem calls_are_runs_witness:
  "\<exists>w'. osMutexAcquire (Some 0) osWaitForever (example_world 3 []) = Ret osOK w' \<and>
    lock_of (mach w') 0 = \<lparr>lk_csr = 1, lk_owner = thread_ptr 3, lk_count = 1, lk_recursive = True\<rparr>"
proof -
  let ?v = "\<lparr>lk_csr = 1, lk_owner = thread_ptr 3, lk_count = 1, lk_recursive = True\<rparr>"
  have "run 7 3 Acq_swap (lock_of example_machine 0) = (Idle, ?v)"
    unfolding numeral_fuel by (simp add: lock_of_def example_flags Let_def)
  with calls_are_runs [of 0 "example_world 3 []"] obtain r w' where
    "osMutexAcquire (Some 0) osWaitForever (example_world 3 []) = Ret r w'" "lock_of (mach w') 0 = ?v"
    by (auto simp: example_own_csr example_flags)
  moreover from this have "r = osOK"
    using acquire_avail_run [of "example_world 3 []" 0] by (simp add: example_avail)
  ultimately show ?thesis by blast
qed

text \<open>
  C3: the interleaved accesses implement the abstract lock: the initial state is its free
  state, and every step is one of its steps or leaves it unchanged.
\<close>

theorem protocol_refines_lock:
  "sim Free (initial r) \<and>
    (\<forall>a s t s'. sim a s \<and> step t s s' \<longrightarrow> (\<exists>a'. astep t a a' \<and> sim a' s'))"
proof
  show "sim Free (initial r)"
    by (simp add: initial_def outside_def)
qed (use simulation in blast)

theorem protocol_refines_lock_witness:
  "\<exists>a'. astep 2 Free a' \<and> sim a' (fst (initial True), (snd (initial True))(2 := Acq_swap))"
proof -
  have "sim Free (initial True)"
    using protocol_refines_lock [of True] by blast
  moreover have "step 2 (initial True) (fst (initial True), (snd (initial True))(2 := Acq_swap))"
    unfolding initial_def by (auto intro: step.acquire)
  ultimately show ?thesis
    using protocol_refines_lock [of True] by blast
qed

text \<open>
  A thread is inside when its acquire has won the register or it is recorded as the owner,
  up to the moment its release frees the register.
\<close>

definition inside :: "system \<Rightarrow> nat \<Rightarrow> bool" where
  "inside s t \<longleftrightarrow> \<not> outside (snd s t) \<or> lk_owner (fst s) = thread_ptr t"

lemma sim_inside:
  assumes "sim a s" "t < 8" "inside s t"
  shows "\<exists>n. a = Held t n \<and> lk_csr (fst s) = 1"
proof -
  obtain v pcs where s: "s = (v, pcs)" by (cases s)
  show ?thesis
  proof (cases a)
    case Free
    with assms s thread_ptr_not_NULL show ?thesis by (auto simp: inside_def)
  next
    case (Held h n)
    then have h: "holder v h n (pcs h)" "h < 8" using assms s by simp_all
    with holder_owner [OF h(1)] assms s Held thread_ptr_not_NULL [OF assms(2)] show ?thesis
      by (auto simp: inside_def thread_ptr_inj)
  qed
qed

text \<open>
  C1: mutual exclusion. In no interleaving are two threads inside the lock, and while one is,
  the register is taken; so the plain loads and stores of the control block never race.
\<close>

theorem mutual_exclusion:
  assumes "reach r s" "t < 8" "u < 8" "inside s t" "inside s u"
  shows "t = u \<and> lk_csr (fst s) = 1"
  using reach_sim [OF assms(1)] sim_inside assms by (metis alock.inject)

text \<open>A run in which thread 3 takes the lock while thread 5 is polling.\<close>

lemma example_run:
  "reach True (\<lparr>lk_csr = 1, lk_owner = NULL, lk_count = 0, lk_recursive = True\<rparr>,
    (\<lambda>_. Idle)(3 := Acq_swap, 5 := Acq_swap, 3 := Acq_owner, 5 := Acq_busy))"
proof -
  let ?v = "\<lparr>lk_csr = 0, lk_owner = NULL, lk_count = 0, lk_recursive = True\<rparr>"
  let ?u = "?v\<lparr>lk_csr := 1\<rparr>"
  have n: "NULL \<noteq> thread_ptr 3" "NULL \<noteq> thread_ptr 5"
    using thread_ptr_not_NULL [of 3] thread_ptr_not_NULL [of 5] by simp_all
  have "reach True (?v, \<lambda>_. Idle)"
    using reach.start [of True] by (simp add: initial_def)
  then have "reach True (?v, (\<lambda>_. Idle)(3 := Acq_swap))"
    by (rule move) (rule step.acquire, use n in simp_all)
  then have "reach True (?v, (\<lambda>_. Idle)(3 := Acq_swap, 5 := Acq_swap))"
    by (rule move) (rule step.acquire, use n in simp_all)
  then have "reach True (?u, (\<lambda>_. Idle)(3 := Acq_swap, 5 := Acq_swap, 3 := Acq_owner))"
    by (rule move) (rule step.access [where t = 3], simp_all)
  then have "reach True (?u, (\<lambda>_. Idle)(3 := Acq_swap, 5 := Acq_swap, 3 := Acq_owner, 5 := Acq_busy))"
    by (rule move) (rule step.access [where t = 5], simp_all)
  then show ?thesis by simp
qed

theorem mutual_exclusion_witness:
  "\<exists>s. reach True s \<and> inside s 3 \<and> snd s 5 \<noteq> Idle \<and> lk_csr (fst s) = 1"
proof -
  let ?s = "(\<lparr>lk_csr = 1, lk_owner = NULL, lk_count = 0, lk_recursive = True\<rparr>,
    (\<lambda>_. Idle)(3 := Acq_swap, 5 := Acq_swap, 3 := Acq_owner, 5 := Acq_busy))"
  have "inside ?s 3"
    by (simp add: inside_def outside_def)
  with mutual_exclusion [OF example_run, of 3 3] example_run show ?thesis
    by (intro exI [of _ ?s]) simp
qed

text \<open>
  The \<^verbatim>\<open>Bad mutex status\<close> branch of \<^verbatim>\<open>osMutexAcquire\<close> is unreachable as long as threads
  touch the mutex through acquire and release only.
\<close>

theorem bad_status_unreachable:
  assumes "reach r (v, pcs)" "t < 8"
  shows "pcs t \<noteq> Acq_bad"
proof
  assume "pcs t = Acq_bad"
  with assms sim_inside obtain n where "sim (Held t n) (v, pcs)"
    using reach_sim [OF assms(1)] by (fastforce simp: inside_def outside_def)
  with \<open>pcs t = Acq_bad\<close> show False by simp
qed

theorem bad_status_unreachable_witness:
  "\<exists>v pcs. reach True (v, pcs) \<and> pcs (3 :: nat) = Acq_owner \<and> pcs 5 \<noteq> Acq_bad"
  using example_run bad_status_unreachable [OF example_run, of 5] by fastforce

text \<open>
  Taking a non-recursive mutex twice is a deadlock for ever: once its owner is in the
  waiting loop, no interleaving gets it out, and nobody else gets the mutex.
\<close>

theorem self_deadlock:
  assumes "reach False (v, pcs)" "t < 8" "pcs t = Acq_loop" "lk_owner v = thread_ptr t"
    and "steps (v, pcs) s"
  shows "snd s t = Acq_loop \<and> lk_csr (fst s) = 1 \<and> lk_owner (fst s) = thread_ptr t"
proof -
  from reach_sim [OF assms(1)] sim_inside [OF _ assms(2)] assms(4)
  have "stuck t (v, pcs)"
    using assms(3) by (fastforce simp: stuck_def inside_def)
  with assms(5) have "stuck t s"
    by (rule stuck_steps)
  then show ?thesis by (cases s) (auto simp: stuck_def)
qed

theorem self_deadlock_witness:
  "\<exists>s. reach False s \<and> lk_owner (fst s) = thread_ptr 3 \<and>
    (\<forall>s'. steps s s' \<longrightarrow> snd s' 3 = Acq_loop)"
proof -
  let ?v = "\<lparr>lk_csr = 1, lk_owner = thread_ptr 3, lk_count = 1, lk_recursive = False\<rparr>"
  have n: "NULL \<noteq> thread_ptr 3"
    using thread_ptr_not_NULL [of 3] by simp
  have "steps (initial False) (fst (initial False), (\<lambda>_. Idle)(3 := Acq_swap))"
    unfolding initial_def by (rule steps_one [of 3]) (auto intro: step.acquire simp: n)
  moreover have "steps (fst (initial False), (\<lambda>_. Idle)(3 := Acq_swap)) (?v, (\<lambda>_. Idle)(3 := Idle))"
    using run_steps [of 3 "(\<lambda>_. Idle)(3 := Acq_swap)" 7 "fst (initial False)"]
    by (simp add: initial_def numeral_fuel)
  moreover have "steps (?v, (\<lambda>_. Idle)(3 := Idle)) (?v, (\<lambda>_. Idle)(3 := Acq_swap))"
    by (rule steps_one [of 3]) (use step.acquire [of 3 "(\<lambda>_. Idle)(3 := Idle)" ?v] in simp)
  moreover have "steps (?v, (\<lambda>_. Idle)(3 := Acq_swap)) (?v, (\<lambda>_. Idle)(3 := Acq_loop))"
    using run_steps [of 3 "(\<lambda>_. Idle)(3 := Acq_swap)" 2 ?v]
    by (simp add: numeral_2_eq_2)
  ultimately have "steps (initial False) (?v, (\<lambda>_. Idle)(3 := Acq_loop))"
    by (meson rtranclp_trans)
  then have r: "reach False (?v, (\<lambda>_. Idle)(3 := Acq_loop))"
    by (rule reach_steps [OF reach.start])
  then show ?thesis
    using self_deadlock [OF r, of 3] by fastforce
qed



end
