(* ===== verification/Slot_Protocol.thy ===== *)
theory Slot_Protocol
  imports Lock_Protocol Scheduler
begin

text \<open>
  The slot table under concurrency. Scheduler.thy runs a change of the table undisturbed; here
  eight threads change it at the same time with \<^verbatim>\<open>osSchedulerSetSlotNum\<close> and the other
  functions of \<^verbatim>\<open>src/os/src/flexpret_scheduler.c\<close> that hold \<^verbatim>\<open>slot_mutex\<close>. Every change reads
  the whole register (\<^verbatim>\<open>get_slots\<close>), computes, and later writes it back (\<^verbatim>\<open>set_slots\<close>); these
  two accesses are interleaved with the single accesses of Lock_Protocol.thy to the mutex.
  \<^verbatim>\<open>osKernelStart\<close> and \<^verbatim>\<open>osKernelReset\<close> write the register without the mutex and are not part of
  this theory.
\<close>

section \<open>Single steps\<close>

text \<open>
  The mutex and the program counters in it, the register, and for each thread the copy of
  the table in the local array between \<^verbatim>\<open>get_slots\<close> and \<^verbatim>\<open>set_slots\<close>. \<open>changes\<close> records the changes
  in the order of their writes: thread, slot value, count.
\<close>

record table_system =
  locks :: system
  table :: "u8 list"
  copy_of :: "nat \<Rightarrow> u8 list option"
  changes :: "(nat \<times> u8 \<times> nat) list"

text \<open>What is written back for a copy; a count that cannot be had leaves it as it is.\<close>

definition changed :: "u8 \<Rightarrow> nat \<Rightarrow> u8 list \<Rightarrow> u8 list" where
  "changed x n slots = (case resize x n slots of None \<Rightarrow> slots | Some s \<Rightarrow> s)"

text \<open>
  A thread reads the table only when its acquire has returned and before its release: it is in
  no call and the recorded owner. It makes no call while it works on its copy.
\<close>

inductive table_step :: "table_system \<Rightarrow> table_system \<Rightarrow> bool" where
  lock: "step t (locks s) l \<Longrightarrow> copy_of s t = None \<Longrightarrow> table_step s (s\<lparr>locks := l\<rparr>)"
| take_copy: "t < 8 \<Longrightarrow> snd (locks s) t = Idle \<Longrightarrow> lk_owner (fst (locks s)) = thread_ptr t \<Longrightarrow> copy_of s t = None \<Longrightarrow>
    table_step s (s\<lparr>copy_of := (copy_of s)(t := Some (table s))\<rparr>)"
| write_back: "copy_of s t = Some c \<Longrightarrow> x < 8 \<or> x = SLOT_S \<Longrightarrow>
    table_step s (s\<lparr>table := changed x n c, copy_of := (copy_of s)(t := None), changes := changes s @ [(t, x, n)]\<rparr>)"

inductive table_reach :: "bool \<Rightarrow> u8 list \<Rightarrow> table_system \<Rightarrow> bool" for r slots where
  start: "table_reach r slots \<lparr>locks = initial r, table = slots, copy_of = (\<lambda>_. None), changes = []\<rparr>"
| move: "table_reach r slots s \<Longrightarrow> table_step s s' \<Longrightarrow> table_reach r slots s'"

section \<open>The invariant\<close>

text \<open>Nobody else's step touches the mutex of its owner.\<close>

lemma owner_undisturbed:
  assumes "reach r s" "step u s s'" "t < 8" "u \<noteq> t" "lk_owner (fst s) = thread_ptr t"
  shows "fst s' = fst s" "snd s' t = snd s t"
proof -
  obtain a where "sim a s" using reach_sim [OF assms(1)] by blast
  then obtain n where a: "sim (Held t n) s" "lk_csr (fst s) = 1"
    using sim_inside [of a s t] assms(3,5) by (auto simp: inside_def)
  obtain v pcs v' pcs' where s: "s = (v, pcs)" "s' = (v', pcs')" by (cases s; cases s')
  have o: "lk_owner v \<noteq> thread_ptr u" if "u < 8"
    using assms(3-5) that s thread_ptr_inj by auto
  from assms(2) [unfolded s] have "v' = v \<and> pcs' t = pcs t"
  proof cases
    case (access p)
    with access_outside [of "pcs u" v u] a s o assms(4) show ?thesis by auto
  qed (use assms(4) in auto)
  with s show "fst s' = fst s" "snd s' t = snd s t" by simp_all
qed

definition table_ok :: "bool \<Rightarrow> u8 list \<Rightarrow> table_system \<Rightarrow> bool" where
  "table_ok r slots s \<longleftrightarrow> reach r (locks s) \<and>
     (\<forall>t c. copy_of s t = Some c \<longrightarrow> t < 8 \<and> snd (locks s) t = Idle \<and>
        lk_owner (fst (locks s)) = thread_ptr t \<and> c = table s) \<and>
     (\<forall>(t, x, n) \<in> set (changes s). t < 8 \<and> (x < 8 \<or> x = SLOT_S)) \<and>
     table s = fold (\<lambda>(t, x, n). changed x n) (changes s) slots"

lemma table_reach_ok: "table_reach r slots s \<Longrightarrow> table_ok r slots s"
proof (induction rule: table_reach.induct)
  case start
  show ?case by (simp add: table_ok_def reach.start)
next
  case (move s s')
  from move.hyps(2) move.IH show ?case
  proof (induction rule: table_step.cases)
    case (lock t s l)
    have "snd l u = Idle \<and> lk_owner (fst l) = thread_ptr u" if "copy_of s u = Some c" for u c
      using owner_undisturbed [of r "locks s" t l u] lock that by (cases "t = u") (auto simp: table_ok_def)
    with lock show ?case by (auto simp: table_ok_def intro: reach.move)
  next
    case (take_copy t s)
    then show ?case by (auto simp: table_ok_def)
  next
    case (write_back s t c x n)
    have o: "h < 8" "lk_owner (fst (locks s)) = thread_ptr h" "d = table s" if "copy_of s h = Some d" for h d
      using write_back that unfolding table_ok_def by blast+
    have "u = t" if u: "copy_of s u = Some d" for u d
    proof -
      have "thread_ptr u = thread_ptr t"
        using o(2) [OF u] o(2) [OF write_back(3)] by (rule trans [OF sym])
      then show ?thesis
        using thread_ptr_inj [OF o(1) [OF u] o(1) [OF write_back(3)]] by blast
    qed
    then have none: "(copy_of s)(t := None) = (\<lambda>_. None)"
      by (fastforce simp: fun_eq_iff)
    have inv: "reach r (locks s)" "\<forall>(t, x, n) \<in> set (changes s). t < 8 \<and> (x < 8 \<or> x = SLOT_S)"
      "table s = fold (\<lambda>(t, x, n). changed x n) (changes s) slots"
      using write_back unfolding table_ok_def by blast+
    show ?case
      using inv write_back(4) o(1,3) [OF write_back(3)] unfolding write_back(2) table_ok_def none by simp
  qed
qed

section \<open>Properties\<close>

text \<open>The same changes, one call after the other.\<close>

fun run_changes :: "(nat \<times> u8 \<times> nat) list \<Rightarrow> unit os" where
  "run_changes [] = ret ()"
| "run_changes ((t, x, n) # cs) =
     bnd (\<lambda>w. set_slot_num_locked (uint x) (int n) (w\<lparr>hart := t\<rparr>)) (\<lambda>_. run_changes cs)"

lemma run_changes_eq:
  assumes "\<And>t x n. (t, x, n) \<in> set cs \<Longrightarrow> t < 8 \<and> (x < 8 \<or> x = SLOT_S)" "slot_ready w"
  shows "\<exists>w'. run_changes cs w = Ret () w' \<and> slot_ready w' \<and>
    slots_of (mach w') = fold (\<lambda>(t, x, n). changed x n) cs (slots_of (mach w))"
  using assms
proof (induction cs arbitrary: w)
  case Nil
  then show ?case by simp
next
  case (Cons c cs)
  obtain t x n where c: "c = (t, x, n)" by (cases c)
  with Cons.prems(1) have t: "t < 8" "x < 8 \<or> x = SLOT_S" by auto
  have x: "x \<noteq> SLOT_D" "take_bit 4 x = x"
    using t(2) thread_slot(1,3) [of "unat x"] soft_slot by (auto simp: word_less_nat_alt)
  let ?w = "w\<lparr>hart := t\<rparr>"
  have r: "slot_ready ?w"
    using Cons.prems(2) t(1) by (auto simp: slot_ready_def split: option.splits)
  have "slots_of (slot_effect x n (mach ?w)) = changed x n (slots_of (mach w))"
    by (simp add: slots_of_effect [OF x] changed_def)
  with Cons.IH [of "?w\<lparr>mach := slot_effect x n (mach ?w)\<rparr>"] Cons.prems(1)
    slot_ready_effect [OF lock_blind_slot_effect [of x n], of ?w] r
    set_slot_num_locked_run [OF r x(1), of n]
  show ?case by (auto simp: c)
qed

text \<open>
  C4: no change of the slot table is lost. However the accesses of eight threads to the mutex
  and to the table interleave, the table is what the same calls give when each runs alone,
  in the order of their writes.
\<close>

theorem slot_changes_serial:
  assumes "table_reach r (slots_of (mach w)) s" "slot_ready w"
  shows "\<exists>w'. run_changes (changes s) w = Ret () w' \<and> slot_ready w' \<and> slots_of (mach w') = table s"
  using table_reach_ok [OF assms(1)] run_changes_eq [OF _ assms(2), of "changes s"]
  by (fastforce simp: table_ok_def)

text \<open>Thread 3 changes the table while thread 5 is waiting for the mutex.\<close>

lemma table_steps:
  assumes "table_reach r slots s" "copy_of s = (\<lambda>_. None)" "steps (locks s) l"
  shows "table_reach r slots (s\<lparr>locks := l\<rparr>)"
  using assms(3)
proof (induction rule: rtranclp_induct)
  case base
  show ?case using assms(1) by simp
next
  case (step l l')
  then obtain t where "step t l l'" by blast
  with step.IH assms(2) table_step.lock [of t "s\<lparr>locks := l\<rparr>" l'] table_reach.move show ?case
    by fastforce
qed

lemma example_table_run:
  "\<exists>s. table_reach True slots s \<and> table s = changed 3 2 slots \<and> changes s = [(3, 3, 2)] \<and>
    snd (locks s) 5 = Acq_loop"
proof -
  let ?v = "\<lparr>lk_csr = 1, lk_owner = thread_ptr 3, lk_count = 1, lk_recursive = True\<rparr>"
  let ?i = "fst (initial True)"
  let ?p = "(\<lambda>_. Idle)(3 := Idle, 5 := Acq_busy)"
  have n: "NULL \<noteq> thread_ptr 3" "thread_ptr 3 \<noteq> thread_ptr 5"
    using thread_ptr_not_NULL [of 3] thread_ptr_inj [of 3 5] by simp_all
  have 1: "steps (initial True) (?i, (\<lambda>_. Idle)(3 := Acq_swap))"
    unfolding initial_def by (rule steps_one [of 3]) (auto intro: step.acquire simp: n)
  have 2: "steps (?i, (\<lambda>_. Idle)(3 := Acq_swap)) (?v, (\<lambda>_. Idle)(3 := Idle))"
    using run_steps [of 3 "(\<lambda>_. Idle)(3 := Acq_swap)" 7 "fst (initial True)"]
    by (simp add: initial_def numeral_fuel)
  have 3: "steps (?v, (\<lambda>_. Idle)(3 := Idle)) (?v, (\<lambda>_. Idle)(3 := Idle, 5 := Acq_swap))"
    by (rule steps_one [of 5]) (rule step.acquire, use n in simp_all)
  have 4: "steps (?v, (\<lambda>_. Idle)(3 := Idle, 5 := Acq_swap)) (?v, ?p)"
    using run_steps [of 5 "(\<lambda>_. Idle)(3 := Idle, 5 := Acq_swap)" 1 ?v] by simp
  let ?s = "\<lparr>locks = (?v, ?p), table = slots, copy_of = (\<lambda>_. None), changes = []\<rparr>"
  have "steps (initial True) (?v, ?p)"
    using 1 2 3 4 by (meson rtranclp_trans)
  then have "table_reach True slots ?s"
    using table_steps [OF table_reach.start, of True slots "(?v, ?p)"] by simp
  then have "table_reach True slots (?s\<lparr>copy_of := (\<lambda>_. None)(3 := Some slots)\<rparr>)"
    by (rule table_reach.move) (use table_step.take_copy [of 3 ?s] in simp)
  then have "table_reach True slots (?s\<lparr>copy_of := (\<lambda>_. None)(3 := Some slots), locks := (?v, ?p(5 := Acq_loop))\<rparr>)"
    by (rule table_reach.move)
      (use table_step.lock [of 5 "?s\<lparr>copy_of := (\<lambda>_. None)(3 := Some slots)\<rparr>" "(?v, ?p(5 := Acq_loop))"]
         step.access [of 5 ?p ?v Acq_loop ?v] n in simp)
  then have "table_reach True slots (?s\<lparr>copy_of := (\<lambda>_. None)(3 := Some slots, 3 := None),
      locks := (?v, ?p(5 := Acq_loop)), table := changed 3 2 slots, changes := [(3, 3, 2)]\<rparr>)"
    by (rule table_reach.move)
      (use table_step.write_back [of "?s\<lparr>copy_of := (\<lambda>_. None)(3 := Some slots), locks := (?v, ?p(5 := Acq_loop))\<rparr>" 3
         slots 3 2] in simp)
  then show ?thesis by (rule_tac exI) (rule conjI, assumption, simp)
qed

theorem slot_changes_serial_witness:
  "\<exists>s w'. table_reach True (slots_of example_machine) s \<and> changes s = [(3, 3, 2)] \<and>
    run_changes [(3, 3, 2)] (example_world 0 []) = Ret () w' \<and> slots_of (mach w') = table s"
proof -
  obtain s where s: "table_reach True (slots_of example_machine) s" "changes s = [(3, 3, 2)]"
    using example_table_run by blast
  with slot_changes_serial [of True "example_world 0 []" s] example_ready [of 0 "[]"] show ?thesis
    by auto
qed

end
