(* ===== verification/Mode_Protocol.thy ===== *)
theory Mode_Protocol
  imports Scheduler
begin

text \<open>
  The thread modes under concurrency. Unlike the slot table, the mode register is changed without
  a mutex (in \<^verbatim>\<open>src/os/src/flexpret_scheduler.c\<close> the calls for a mode mutex are commented out):
  \<^verbatim>\<open>set_thread_mode\<close> relies on the atomic instructions \<^verbatim>\<open>csrrs\<close> and \<^verbatim>\<open>csrrc\<close>, of which a change to
  one of the four modes takes two. Here any number of threads change modes at the same time,
  interleaved after every such instruction.
\<close>

section \<open>Single accesses\<close>

text \<open>\<^verbatim>\<open>csrrs\<close> and \<^verbatim>\<open>csrrc\<close> on a bit of the mode of one thread: 1 is \<^verbatim>\<open>lbit\<close>, 2 is \<^verbatim>\<open>hbit\<close>.\<close>

datatype mode_access = Set_bit nat u32 | Clear_bit nat u32

fun mode_accesses :: "nat \<Rightarrow> int \<Rightarrow> mode_access list" where
  "mode_accesses t tmode =
     (if tmode = TMODE_HARD then [Clear_bit t 2]
      else if tmode = TMODE_SOFT then [Set_bit t 2]
      else if tmode = TMODE_ACTIVE then [Clear_bit t 1]
      else if tmode = TMODE_ZOMBIE then [Set_bit t 1]
      else if tmode = TMODE_SZ then [Set_bit t 2, Set_bit t 1]
      else if tmode = TMODE_SA then [Set_bit t 2, Clear_bit t 1]
      else if tmode = TMODE_HZ then [Clear_bit t 2, Set_bit t 1]
      else if tmode = TMODE_HA then [Clear_bit t 2, Clear_bit t 1]
      else [])"

declare mode_accesses.simps [simp del]

fun do_access :: "mode_access \<Rightarrow> machine \<Rightarrow> machine" where
  "do_access (Set_bit t x) m = or_mode t x m"
| "do_access (Clear_bit t x) m = clear_mode t x m"

text \<open>The accesses of an undisturbed call are what \<^verbatim>\<open>set_thread_mode\<close> does.\<close>

lemma accesses_of_call:
  "t < 8 \<Longrightarrow> set_thread_mode (of_nat t) k w = Ret osOK (w\<lparr>mach := fold do_access (mode_accesses t k) (mach w)\<rparr>)"
  by (simp add: set_thread_mode_app mode_effect_def mode_accesses.simps)

text \<open>
  The register, for each thread the call it is in (target, mode, accesses still to do), and the
  completed calls in the order of their last accesses: caller, target, mode.
\<close>

record mode_system =
  regs :: machine
  pending :: "nat \<Rightarrow> (nat \<times> int \<times> mode_access list) option"
  completed :: "(nat \<times> nat \<times> int) list"

text \<open>
  With \<open>alone\<close> a change to one of the four modes is the only call for its target while it lasts.
\<close>

inductive mode_step :: "bool \<Rightarrow> mode_system \<Rightarrow> mode_system \<Rightarrow> bool" for alone where
  call: "t < 8 \<Longrightarrow> 0 \<le> k \<Longrightarrow> k < 8 \<Longrightarrow> pending s u = None \<Longrightarrow>
    (\<And>v k' xs. alone \<Longrightarrow> pending s v = Some (t, k', xs) \<Longrightarrow> 4 \<le> k \<and> 4 \<le> k') \<Longrightarrow>
    mode_step alone s (s\<lparr>pending := (pending s)(u := Some (t, k, mode_accesses t k))\<rparr>)"
| first: "pending s u = Some (t, k, [x, y]) \<Longrightarrow>
    mode_step alone s (s\<lparr>regs := do_access x (regs s), pending := (pending s)(u := Some (t, k, [y]))\<rparr>)"
| last: "pending s u = Some (t, k, [x]) \<Longrightarrow>
    mode_step alone s (s\<lparr>regs := do_access x (regs s), pending := (pending s)(u := None),
      completed := completed s @ [(u, t, k)]\<rparr>)"

inductive mode_reach :: "bool \<Rightarrow> machine \<Rightarrow> mode_system \<Rightarrow> bool" for alone m where
  start: "mode_reach alone m \<lparr>regs = m, pending = (\<lambda>_. None), completed = []\<rparr>"
| move: "mode_reach alone m s \<Longrightarrow> mode_step alone s s' \<Longrightarrow> mode_reach alone m s'"

section \<open>What the accesses do to the mode of a thread\<close>

fun access_val :: "mode_access \<Rightarrow> u32 \<Rightarrow> u32" where
  "access_val (Set_bit t x) v = v OR x"
| "access_val (Clear_bit t x) v = v AND NOT x"

lemma tmodes_of_access:
  "t < 8 \<Longrightarrow> x \<in> set (mode_accesses t k) \<Longrightarrow>
    tmodes_of (do_access x m) = (tmodes_of m)[t := access_val x (tmodes_of m ! t)]"
  by (auto simp: mode_accesses.simps tmodes_of_or_mode tmodes_of_clear_mode mode_bits split: if_splits)

lemma one_access:
  "4 \<le> k \<Longrightarrow> k < 8 \<Longrightarrow> \<exists>x. mode_accesses t k = [x] \<and> (\<forall>v. access_val x v = new_mode k v)"
proof -
  assume "4 \<le> k" "k < 8"
  then have "k = 4 \<or> k = 5 \<or> k = 6 \<or> k = 7" by linarith
  then show ?thesis by (elim disjE) (simp_all add: mode_accesses.simps new_mode_def)
qed

lemma two_accesses:
  "0 \<le> k \<Longrightarrow> k < 4 \<Longrightarrow> \<exists>x y. mode_accesses t k = [x, y] \<and>
    (\<forall>v \<in> {0, 1, 2, 3}. access_val y (access_val x v) = word_of_int k)"
proof -
  assume "0 \<le> k" "k < 4"
  then have "k = 0 \<or> k = 1 \<or> k = 2 \<or> k = 3" by linarith
  then show ?thesis by (elim disjE) (simp_all add: mode_accesses.simps)
qed

lemma new_mode_abs: "0 \<le> k \<Longrightarrow> k < 4 \<Longrightarrow> new_mode k v = word_of_int k"
  by (simp add: new_mode_def)

text \<open>The modes after the completed calls, each run alone.\<close>

definition modes_after :: "machine \<Rightarrow> (nat \<times> nat \<times> int) list \<Rightarrow> u32 list" where
  "modes_after m cs = tmodes_of (fold (\<lambda>(u, t, k). mode_effect t k) cs m)"

lemma modes_after_snoc:
  "t < 8 \<Longrightarrow> modes_after m (cs @ [(u, t, k)]) = (modes_after m cs)[t := new_mode k (modes_after m cs ! t)]"
  by (simp add: modes_after_def tmodes_of_mode_effect)

lemma modes_after_nth: "t < 8 \<Longrightarrow> modes_after m cs ! t \<in> {0, 1, 2, 3}"
  unfolding modes_after_def by (rule tmodes_nth_cases)

lemma length_modes_after [simp]: "length (modes_after m cs) = 8"
  by (simp add: modes_after_def)

text \<open>
  A call in progress has done none of its accesses, or the first of two; then the second will
  make its mode.
\<close>

definition calls_ok :: "mode_system \<Rightarrow> bool" where
  "calls_ok s \<longleftrightarrow> (\<forall>u t k xs. pending s u = Some (t, k, xs) \<longrightarrow> t < 8 \<and> 0 \<le> k \<and> k < 8 \<and>
     (xs = mode_accesses t k \<or> k < 4 \<and> (\<exists>x y. mode_accesses t k = [x, y] \<and> xs = [y])))"

definition apart :: "mode_system \<Rightarrow> bool" where
  "apart s \<longleftrightarrow> (\<forall>u v t k k' xs ys. pending s u = Some (t, k, xs) \<longrightarrow> pending s v = Some (t, k', ys) \<longrightarrow>
     u \<noteq> v \<longrightarrow> 4 \<le> k \<and> 4 \<le> k')"

definition half_done :: "(nat \<Rightarrow> (nat \<times> int \<times> mode_access list) option) \<Rightarrow> nat \<Rightarrow> bool" where
  "half_done p t \<longleftrightarrow> (\<exists>u k x. p u = Some (t, k, [x]) \<and> k < 4)"

definition modes_ok :: "machine \<Rightarrow> mode_system \<Rightarrow> bool" where
  "modes_ok m s \<longleftrightarrow> calls_ok s \<and> apart s \<and>
     (\<forall>t < 8. \<not> half_done (pending s) t \<longrightarrow> tmodes_of (regs s) ! t = modes_after m (completed s) ! t) \<and>
     (\<forall>u t k x. pending s u = Some (t, k, [x]) \<longrightarrow> k < 4 \<longrightarrow>
        access_val x (tmodes_of (regs s) ! t) = word_of_int k)"

lemma calls_okD:
  assumes "calls_ok s" "pending s u = Some (t, k, xs)"
  shows "t < 8" "0 \<le> k" "k < 8" "4 \<le> k \<Longrightarrow> \<exists>x. xs = [x] \<and> mode_accesses t k = [x] \<and> (\<forall>v. access_val x v = new_mode k v)"
    "set xs \<subseteq> set (mode_accesses t k)" "xs = [x, y] \<Longrightarrow> k < 4 \<and> mode_accesses t k = [x, y]"
  using assms one_access [of k t] by (force simp: calls_ok_def)+

lemma apart_half:
  assumes "apart s" "pending s u = Some (t, k, xs)" "4 \<le> k \<or> length xs = 2"
  shows "\<not> half_done (pending s) t"
proof
  assume "half_done (pending s) t"
  then obtain v k' x where v: "pending s v = Some (t, k', [x])" "k' < 4"
    by (auto simp: half_done_def)
  then show False
    using assms by (cases "v = u") (fastforce simp: apart_def)+
qed

lemma half_done_upd:
  assumes "\<And>k x. p u = Some (t, k, [x]) \<Longrightarrow> 4 \<le> k"
  shows "half_done (p(u := q)) t \<longleftrightarrow> half_done p t \<or> (\<exists>k x. q = Some (t, k, [x]) \<and> k < 4)"
proof -
  have "v \<noteq> u" if "p v = Some (t, k, [x])" "k < 4" for v k x
    using assms [of k x] that by auto
  then show ?thesis
    unfolding half_done_def by (metis fun_upd_other fun_upd_same)
qed

lemma modes_ok_call:
  assumes ok: "modes_ok m s" and t: "t < 8" "0 \<le> k" "k < 8" and idle: "pending s u = None"
    and only: "\<And>v k' xs. pending s v = Some (t, k', xs) \<Longrightarrow> 4 \<le> k \<and> 4 \<le> k'"
  shows "modes_ok m (s\<lparr>pending := (pending s)(u := Some (t, k, mode_accesses t k))\<rparr>)" (is "modes_ok m ?s")
proof -
  have not_half: "k' < 4 \<Longrightarrow> mode_accesses t k' \<noteq> [x]" if "0 \<le> k'" for k' x
    using two_accesses [of k' t] that by auto
  have "half_done (pending ?s) t' = half_done (pending s) t'" for t'
    using half_done_upd [of "pending s" u t' "Some (t, k, mode_accesses t k)"] not_half [OF t(2)] idle by auto
  moreover have "access_val x (tmodes_of (regs s) ! t') = word_of_int k'"
    if "pending ?s u' = Some (t', k', [x])" "k' < 4" for u' t' k' x
    using ok that not_half [OF t(2), of x] by (cases "u' = u") (auto simp: modes_ok_def)
  moreover have "calls_ok ?s"
    using ok t by (simp add: modes_ok_def calls_ok_def)
  moreover have "apart ?s"
    using ok only by (fastforce simp: modes_ok_def apart_def)
  ultimately show ?thesis
    using ok by (simp add: modes_ok_def)
qed

lemma modes_ok_first:
  assumes ok: "modes_ok m s" and p: "pending s u = Some (t, k, [x, y])"
  shows "modes_ok m (s\<lparr>regs := do_access x (regs s), pending := (pending s)(u := Some (t, k, [y]))\<rparr>)" (is "modes_ok m ?s")
proof -
  have inv: "calls_ok s" "apart s"
    "\<And>t. t < 8 \<Longrightarrow> \<not> half_done (pending s) t \<Longrightarrow> tmodes_of (regs s) ! t = modes_after m (completed s) ! t"
    "\<And>u t k x. pending s u = Some (t, k, [x]) \<Longrightarrow> k < 4 \<Longrightarrow> access_val x (tmodes_of (regs s) ! t) = word_of_int k"
    using ok by (auto simp: modes_ok_def)
  note d = calls_okD [OF inv(1) p]
  have k: "k < 4" "mode_accesses t k = [x, y]" and x: "x \<in> set (mode_accesses t k)"
    using d(5,6) by auto
  have other: "v = u" if "pending s v = Some (t, k', xs)" for v k' xs
    using inv(2) p that k(1) by (fastforce simp: apart_def)
  have v: "tmodes_of (do_access x (regs s)) = (tmodes_of (regs s))[t := access_val x (tmodes_of (regs s) ! t)]"
    by (rule tmodes_of_access [OF d(1) x])
  have "tmodes_of (regs s) ! t \<in> {0, 1, 2, 3}"
    by (rule tmodes_nth_cases [OF d(1)])
  then have y: "access_val y (access_val x (tmodes_of (regs s) ! t)) = word_of_int k"
    using two_accesses [OF d(2) k(1), of t] k(2) by auto
  have "half_done (pending ?s) t' \<longleftrightarrow> half_done (pending s) t' \<or> t' = t" for t'
    using half_done_upd [of "pending s" u t' "Some (t, k, [y])"] p k(1) by auto
  then have q: "tmodes_of (regs ?s) ! t' = modes_after m (completed ?s) ! t'"
    if "t' < 8" "\<not> half_done (pending ?s) t'" for t'
    using that inv(3) [of t'] v by auto
  have h: "access_val x' (tmodes_of (regs ?s) ! t') = word_of_int k'"
    if "pending ?s u' = Some (t', k', [x'])" "k' < 4" for u' t' k' x'
  proof (cases "u' = u")
    case True
    with that y v d(1) show ?thesis by simp
  next
    case False
    with that(1) other have "t' \<noteq> t" by auto
    with False that inv(4) [of u' t' k' x'] v show ?thesis by simp
  qed
  have "calls_ok ?s"
    using inv(1) d(1-3) k by (simp add: calls_ok_def)
  moreover have "apart ?s"
    using inv(2) other by (fastforce simp: apart_def)
  ultimately show ?thesis
    using q h unfolding modes_ok_def by blast
qed

lemma modes_okD:
  assumes "modes_ok m s"
  shows "calls_ok s" "apart s"
    and "t < 8 \<Longrightarrow> \<not> half_done (pending s) t \<Longrightarrow> tmodes_of (regs s) ! t = modes_after m (completed s) ! t"
    and "pending s u = Some (t, k, [x]) \<Longrightarrow> k < 4 \<Longrightarrow> access_val x (tmodes_of (regs s) ! t) = word_of_int k"
  using assms by (auto simp: modes_ok_def)

text \<open>The last access of a call makes the mode the call makes when it runs alone.\<close>

lemma last_access_mode:
  assumes ok: "modes_ok m s" and p: "pending s u = Some (t, k, [x])"
  shows "access_val x (tmodes_of (regs s) ! t) = new_mode k (modes_after m (completed s) ! t)"
proof -
  note d = calls_okD [OF modes_okD(1) [OF ok] p]
  show ?thesis
  proof (cases "k < 4")
    case True
    with modes_okD(4) [OF ok p] d(2) show ?thesis by (simp add: new_mode_abs)
  next
    case False
    with apart_half [OF modes_okD(2) [OF ok] p] d(4) modes_okD(3) [OF ok d(1)] show ?thesis by auto
  qed
qed

lemma modes_ok_last:
  assumes ok: "modes_ok m s" and p: "pending s u = Some (t, k, [x])"
  shows "modes_ok m (s\<lparr>regs := do_access x (regs s), pending := (pending s)(u := None),
    completed := completed s @ [(u, t, k)]\<rparr>)" (is "modes_ok m ?s")
proof -
  note inv = modes_okD [OF ok]
  note d = calls_okD [OF inv(1) p]
  have v: "tmodes_of (do_access x (regs s)) = (tmodes_of (regs s))[t := access_val x (tmodes_of (regs s) ! t)]"
    by (rule tmodes_of_access [OF d(1)]) (use d(5) in simp)
  have other: "4 \<le> k' \<and> 4 \<le> k" if "pending s v = Some (t, k', xs)" "v \<noteq> u" for v k' xs
    using inv(2) p that by (fastforce simp: apart_def)
  have q: "tmodes_of (regs ?s) ! t' = modes_after m (completed ?s) ! t'"
    if t': "t' < 8" "\<not> half_done (pending ?s) t'" for t'
  proof (cases "t' = t")
    case True
    with v last_access_mode [OF ok p] d(1) show ?thesis by (simp add: modes_after_snoc)
  next
    case False
    then have "\<not> half_done (pending s) t'"
      using t'(2) half_done_upd [of "pending s" u t' None] p by auto
    with False t'(1) inv(3) [of t'] v d(1) show ?thesis by (simp add: modes_after_snoc)
  qed
  have h: "access_val x' (tmodes_of (regs ?s) ! t') = word_of_int k'"
    if "pending ?s u' = Some (t', k', [x'])" "k' < 4" for u' t' k' x'
  proof -
    have "u' \<noteq> u" "pending s u' = Some (t', k', [x'])"
      using that(1) by (auto split: if_splits)
    moreover from this other [of u' k' "[x']"] that(2) have "t' \<noteq> t" by auto
    ultimately show ?thesis
      using inv(4) [of u' t' k' x'] that(2) v by simp
  qed
  have "calls_ok ?s" "apart ?s"
    using inv(1,2) by (auto simp: calls_ok_def apart_def)
  with q h show ?thesis
    unfolding modes_ok_def by blast
qed

lemma mode_reach_ok: "mode_reach True m s \<Longrightarrow> modes_ok m s"
proof (induction rule: mode_reach.induct)
  case start
  show ?case by (simp add: modes_ok_def calls_ok_def apart_def modes_after_def)
next
  case (move s s')
  from move.hyps(2) move.IH show ?case
    by (cases rule: mode_step.cases) (auto intro: modes_ok_call modes_ok_first modes_ok_last)
qed

section \<open>Properties\<close>

text \<open>The same calls, one after the other.\<close>

fun run_mode_calls :: "(nat \<times> nat \<times> int) list \<Rightarrow> unit os" where
  "run_mode_calls [] = ret ()"
| "run_mode_calls ((u, t, k) # cs) =
     bnd (\<lambda>w. set_thread_mode (of_nat t) k (w\<lparr>hart := u\<rparr>)) (\<lambda>_. run_mode_calls cs)"

lemma run_mode_calls_eq:
  "(\<And>u t k. (u, t, k) \<in> set cs \<Longrightarrow> t < 8) \<Longrightarrow>
    \<exists>w'. run_mode_calls cs w = Ret () w' \<and> mach w' = fold (\<lambda>(u, t, k). mode_effect t k) cs (mach w)"
proof (induction cs arbitrary: w)
  case Nil
  then show ?case by simp
next
  case (Cons c cs)
  obtain u t k where c: "c = (u, t, k)" by (cases c)
  with Cons.prems have "t < 8" by auto
  moreover have "\<exists>w'. run_mode_calls cs (w\<lparr>hart := u, mach := mode_effect t k (mach w)\<rparr>) = Ret () w' \<and>
      mach w' = fold (\<lambda>(u, t, k). mode_effect t k) cs (mode_effect t k (mach w))"
    using Cons.IH [of "w\<lparr>hart := u, mach := mode_effect t k (mach w)\<rparr>"] Cons.prems by auto
  ultimately show ?case
    by (simp add: c set_thread_mode_app)
qed

lemma completed_targets: "mode_reach g m s \<Longrightarrow> (\<forall>(u, t, k) \<in> set (completed s). t < 8) \<and>
    (\<forall>u t k xs. pending s u = Some (t, k, xs) \<longrightarrow> t < 8)"
proof (induction rule: mode_reach.induct)
  case (move s s')
  from move.hyps(2) move.IH show ?case
    by (cases rule: mode_step.cases) (auto, blast+)
qed simp

text \<open>
  C5: changes of thread modes need no mutex. When several threads change modes at the same time,
  interleaved after every atomic instruction, and none of the calls for one target that set both
  bits overlaps another for that target, then after the last access the modes are those
  the same calls of \<^verbatim>\<open>set_thread_mode\<close> give one after the other.
\<close>

theorem mode_changes_serial:
  assumes "mode_reach True (mach w) s" "\<And>u. pending s u = None"
  shows "\<exists>w'. run_mode_calls (completed s) w = Ret () w' \<and> tmodes_of (mach w') = tmodes_of (regs s)"
proof -
  have "tmodes_of (regs s) ! t = modes_after (mach w) (completed s) ! t" if "t < 8" for t
    using mode_reach_ok [OF assms(1)] assms(2) that by (simp add: modes_ok_def half_done_def)
  then have "tmodes_of (regs s) = modes_after (mach w) (completed s)"
    by (intro nth_equalityI) simp_all
  moreover have "\<exists>w'. run_mode_calls (completed s) w = Ret () w' \<and>
      mach w' = fold (\<lambda>(u, t, k). mode_effect t k) (completed s) (mach w)"
    using completed_targets [OF assms(1)] by (intro run_mode_calls_eq) auto
  ultimately show ?thesis
    by (auto simp: modes_after_def)
qed

text \<open>Thread 1 suspends thread 3 while thread 2 makes it hard.\<close>

lemma example_mode_run:
  "\<exists>s. mode_reach True m s \<and> (\<forall>u. pending s u = None) \<and> completed s = [(2, 3, TMODE_HARD), (1, 3, TMODE_ZOMBIE)]"
proof -
  let ?x = "Set_bit 3 1" and ?y = "Clear_bit 3 2"
  have acc: "mode_accesses 3 TMODE_ZOMBIE = [?x]" "mode_accesses 3 TMODE_HARD = [?y]"
    by (simp_all add: mode_accesses.simps)
  note ex = mode_reach.move
  let ?p = "\<lambda>r q d. \<lparr>regs = r, pending = q, completed = d\<rparr>"
  let ?q1 = "(\<lambda>_. None)(1 := Some (3, TMODE_ZOMBIE, [?x])) :: nat \<Rightarrow> (nat \<times> int \<times> mode_access list) option"
  let ?q2 = "?q1(2 := Some (3, TMODE_HARD, [?y]))"
  have 0: "mode_reach True m (?p m (\<lambda>_. None) [])"
    by (rule mode_reach.start)
  have 1: "mode_reach True m (?p m ?q1 [])"
    by (rule ex [OF 0]) (use mode_step.call [of 3 TMODE_ZOMBIE "?p m (\<lambda>_. None) []" 1 True] acc in simp)
  have 2: "mode_reach True m (?p m ?q2 [])"
  proof (rule ex [OF 1])
    have "mode_step True (?p m ?q1 []) ((?p m ?q1 [])\<lparr>pending :=
        (pending (?p m ?q1 []))(2 := Some (3, TMODE_HARD, mode_accesses 3 TMODE_HARD))\<rparr>)"
      by (rule mode_step.call) (auto split: if_splits)
    then show "mode_step True (?p m ?q1 []) (?p m ?q2 [])"
      by (simp add: acc)
  qed
  have 3: "mode_reach True m (?p (do_access ?y m) (?q2(2 := None)) [(2, 3, TMODE_HARD)])"
    by (rule ex [OF 2]) (use mode_step.last [of "?p m ?q2 []" 2 3 TMODE_HARD ?y True] in simp)
  have 4: "mode_reach True m (?p (do_access ?x (do_access ?y m)) (?q2(2 := None, 1 := None))
      [(2, 3, TMODE_HARD), (1, 3, TMODE_ZOMBIE)])"
    by (rule ex [OF 3])
      (use mode_step.last [of "?p (do_access ?y m) (?q2(2 := None)) [(2, 3, TMODE_HARD)]" 1 3 TMODE_ZOMBIE ?x True] in simp)
  then show ?thesis
    by (intro exI [of _ "?p (do_access ?x (do_access ?y m)) (?q2(2 := None, 1 := None))
      [(2, 3, TMODE_HARD), (1, 3, TMODE_ZOMBIE)]"]) simp
qed

theorem mode_changes_serial_witness:
  "\<exists>s w w'. mode_reach True (mach w) s \<and> run_mode_calls [(2, 3, TMODE_HARD), (1, 3, TMODE_ZOMBIE)] w = Ret () w' \<and>
    tmodes_of (mach w') = tmodes_of (regs s)"
proof -
  fix w :: world
  obtain s where "mode_reach True (mach w) s" "\<And>u. pending s u = None"
    "completed s = [(2, 3, TMODE_HARD), (1, 3, TMODE_ZOMBIE)]"
    using example_mode_run by blast
  with mode_changes_serial [of w s] show ?thesis by auto
qed

text \<open>
  Without the proviso it fails. Of two threads that make the mode of the same thread soft and
  asleep and hard and active at the same time, one can change one bit last and one the other, and
  the thread is left hard and asleep, which neither asked for.
\<close>

theorem mode_changes_race:
  assumes "t < 8"
  shows "\<exists>s. mode_reach False m s \<and> (\<forall>u. pending s u = None) \<and>
    set (completed s) = {(1, t, TMODE_SZ), (2, t, TMODE_HA)} \<and> tmodes_of (regs s) ! t = word_of_int TMODE_HZ"
proof -
  let ?x = "Set_bit t 2" and ?y = "Set_bit t 1" and ?a = "Clear_bit t 2" and ?b = "Clear_bit t 1"
  have acc: "mode_accesses t TMODE_SZ = [?x, ?y]" "mode_accesses t TMODE_HA = [?a, ?b]"
    by (simp_all add: mode_accesses.simps)
  note ex = mode_reach.move
  let ?p = "\<lambda>r q d. \<lparr>regs = r, pending = q, completed = d\<rparr>"
  let ?q1 = "(\<lambda>_. None)(1 := Some (t, TMODE_SZ, [?x, ?y])) :: nat \<Rightarrow> (nat \<times> int \<times> mode_access list) option"
  let ?q2 = "?q1(2 := Some (t, TMODE_HA, [?a, ?b]))"
  let ?q3 = "?q2(1 := Some (t, TMODE_SZ, [?y]))"
  let ?q4 = "?q3(2 := Some (t, TMODE_HA, [?b]))"
  let ?m1 = "do_access ?x m" let ?m2 = "do_access ?a ?m1" let ?m3 = "do_access ?b ?m2" let ?m4 = "do_access ?y ?m3"
  have 0: "mode_reach False m (?p m (\<lambda>_. None) [])"
    by (rule mode_reach.start)
  have 1: "mode_reach False m (?p m ?q1 [])"
    by (rule ex [OF 0]) (use mode_step.call [of t TMODE_SZ "?p m (\<lambda>_. None) []" 1 False] assms acc in simp)
  have 2: "mode_reach False m (?p m ?q2 [])"
    by (rule ex [OF 1]) (use mode_step.call [of t TMODE_HA "?p m ?q1 []" 2 False] assms acc in simp)
  have 3: "mode_reach False m (?p ?m1 ?q3 [])"
    by (rule ex [OF 2]) (use mode_step.first [of "?p m ?q2 []" 1 t TMODE_SZ ?x ?y False] in simp)
  have 4: "mode_reach False m (?p ?m2 ?q4 [])"
    by (rule ex [OF 3]) (use mode_step.first [of "?p ?m1 ?q3 []" 2 t TMODE_HA ?a ?b False] in simp)
  have 5: "mode_reach False m (?p ?m3 (?q4(2 := None)) [(2, t, TMODE_HA)])"
    by (rule ex [OF 4]) (use mode_step.last [of "?p ?m2 ?q4 []" 2 t TMODE_HA ?b False] in simp)
  have 6: "mode_reach False m (?p ?m4 (?q4(2 := None, 1 := None)) [(2, t, TMODE_HA), (1, t, TMODE_SZ)])"
    by (rule ex [OF 5]) (use mode_step.last [of "?p ?m3 (?q4(2 := None)) [(2, t, TMODE_HA)]" 1 t TMODE_SZ ?y False] in simp)
  have "tmodes_of m ! t \<in> {0, 1, 2, 3}"
    by (rule tmodes_nth_cases [OF assms])
  then have "tmodes_of ?m4 ! t = 1"
    using assms by (auto simp: tmodes_of_or_mode tmodes_of_clear_mode mode_bits)
  with 6 show ?thesis
    by (intro exI [of _ "?p ?m4 (?q4(2 := None, 1 := None)) [(2, t, TMODE_HA), (1, t, TMODE_SZ)]"]) auto
qed

theorem mode_changes_race_witness:
  "\<exists>s. mode_reach False example_machine s \<and> (\<forall>u. pending s u = None) \<and> tmodes_of (regs s) ! 3 = word_of_int TMODE_HZ"
  using mode_changes_race [of 3 example_machine] by auto

end
