(* ===== verification/Create_Protocol.thy ===== *)
theory Create_Protocol
  imports Thread_Properties
begin

text \<open>
  Creating threads under concurrency. \<^verbatim>\<open>osThreadNew\<close> (\<^verbatim>\<open>src/os/src/flexpret_threads.c\<close>) tests
  and increments the thread number without a mutex and without an atomic instruction, and a
  comment says that it should. Here any number of threads create threads at the same
  time, each access of the source to the number and to the control blocks being a step of its own.
  The variable is not volatile, so a compiler may also combine the first two. The change of the
  slot table that follows when the kernel runs is that of \<open>Slot_Protocol\<close>; it changes neither.
\<close>

section \<open>Single accesses\<close>

definition attr_set :: "nat \<Rightarrow> (osThreadAttr_t \<Rightarrow> osThreadAttr_t) \<Rightarrow> machine \<Rightarrow> machine" where
  "attr_set t f m = (case thread_attr_entry m t of
       None \<Rightarrow> m
     | Some r \<Rightarrow> m\<lparr>thread_attr := (thread_attr m)(r := f (thread_attr m r))\<rparr>)"

definition st_set :: "nat \<Rightarrow> (hwthread_state \<Rightarrow> hwthread_state) \<Rightarrow> machine \<Rightarrow> machine" where
  "st_set t f m = m\<lparr>startup_state := (startup_state m)(t := f (startup_state m t))\<rparr>"

text \<open>The assignments of the two branches for the attributes, in their order.\<close>

fun attr_writes :: "nat \<Rightarrow> attr_ref option \<Rightarrow> (machine \<Rightarrow> machine) list" where
  "attr_writes t None =
     [attr_set t (\<lambda>_. flexpret_thread_init_attr),
      attr_set t (\<lambda>at. at\<lparr>at_stack_mem := stack_of t\<rparr>),
      attr_set t (\<lambda>at. at\<lparr>at_stack_size := stack_of t - stack_of (t - 1)\<rparr>),
      attr_set t (\<lambda>at. at\<lparr>at_cb_mem := thread_ptr t\<rparr>)]"
| "attr_writes t (Some r) =
     [\<lambda>m. m\<lparr>thread_attr_entry := (thread_attr_entry m)(t := Some r)\<rparr>,
      \<lambda>m. st_set t (\<lambda>st. st\<lparr>th_stack_address :=
        if at_stack_mem (thread_attr m r) = NULL then stack_of t else at_stack_mem (thread_attr m r)\<rparr>) m,
      attr_set t (\<lambda>at. at\<lparr>at_stack_mem := if at_stack_mem at = NULL then stack_of t else at_stack_mem at\<rparr>),
      attr_set t (\<lambda>at. at\<lparr>at_stack_size :=
        if at_stack_size at = 0 then stack_of t - stack_of (t - 1) else at_stack_size at\<rparr>)]"

declare attr_writes.simps [simp del]

text \<open>
  Where a call is: before its test of the number, before its two accesses of the increment,
  or with the number it took at the assignments for the new thread.
\<close>

datatype create_pc = Test | Load | Store nat | Attrs nat "(machine \<Rightarrow> machine) list"
  | Set_func nat | Set_state nat | Set_arg nat | Return nat

type_synonym create_call = "addr \<times> addr \<times> attr_ref option \<times> create_pc"

text \<open>The calls in progress, and the completed ones: caller, thread, function, argument.\<close>

record create_system =
  memory :: machine
  creating :: "nat \<Rightarrow> create_call option"
  made :: "(nat \<times> nat \<times> addr \<times> addr) list"

definition bad_priority :: "attr_ref option \<Rightarrow> machine \<Rightarrow> bool" where
  "bad_priority attr m \<longleftrightarrow> (case attr of None \<Rightarrow> False
     | Some r \<Rightarrow> at_priority (thread_attr m r) \<noteq> osPriorityRealtime \<and> at_priority (thread_attr m r) \<noteq> osPriorityNormal)"

text \<open>The next access of the call of \<open>u\<close>. An access to a control block 8 or more is undefined.\<close>

definition advance :: "nat \<Rightarrow> create_system \<Rightarrow> create_system option" where
  "advance u s = (case creating s u of None \<Rightarrow> None | Some (func, arg, attr, pc) \<Rightarrow>
     (let m = memory s;
          go = (\<lambda>m' pc'. Some (s\<lparr>memory := m', creating := (creating s)(u := Some (func, arg, attr, pc'))\<rparr>)) in
      case pc of
        Test \<Rightarrow>
          if flexpret_thread_num m = FLEXPRET_HW_THREADS_NUMS then
            Some (s\<lparr>memory := say (''Max thread num exceed'' @ [CHR 0x0A]) m, creating := (creating s)(u := None)\<rparr>)
          else if bad_priority attr m then Some (s\<lparr>creating := (creating s)(u := None)\<rparr>)
          else go m Load
      | Load \<Rightarrow> go m (Store (flexpret_thread_num m))
      | Store t \<Rightarrow> go (m\<lparr>flexpret_thread_num := Suc t\<rparr>) (Attrs t (attr_writes t attr))
      | Attrs t fs \<Rightarrow>
          if 8 \<le> t then None
          else (case fs of [] \<Rightarrow> go m (Set_func t) | f # fs \<Rightarrow> go (f m) (Attrs t fs))
      | Set_func t \<Rightarrow> go (st_set t (\<lambda>st. st\<lparr>th_func := func\<rparr>) m) (Set_state t)
      | Set_state t \<Rightarrow> go (st_set t (\<lambda>st. st\<lparr>th_state := FLEXPRET_ACTIVE\<rparr>) m) (Set_arg t)
      | Set_arg t \<Rightarrow> go (st_set t (\<lambda>st. st\<lparr>th_arg := arg\<rparr>) m) (Return t)
      | Return t \<Rightarrow> Some (s\<lparr>creating := (creating s)(u := None), made := made s @ [(u, t, func, arg)]\<rparr>)))"

text \<open>Still at the number.\<close>

fun numbering :: "create_pc \<Rightarrow> bool" where
  "numbering Test = True"
| "numbering Load = True"
| "numbering (Store t) = True"
| "numbering _ = False"

text \<open>With \<open>alone\<close> a call starts only when no other is at the number.\<close>

inductive create_reach :: "bool \<Rightarrow> machine \<Rightarrow> create_system \<Rightarrow> bool" for alone m where
  start: "create_reach alone m \<lparr>memory = m, creating = (\<lambda>_. None), made = []\<rparr>"
| call: "create_reach alone m s \<Longrightarrow> creating s u = None \<Longrightarrow> func \<noteq> NULL \<Longrightarrow>
    (\<And>v f a at pc. alone \<Longrightarrow> creating s v = Some (f, a, at, pc) \<Longrightarrow> \<not> numbering pc) \<Longrightarrow>
    create_reach alone m (s\<lparr>creating := (creating s)(u := Some (func, arg, attr, Test))\<rparr>)"
| access: "create_reach alone m s \<Longrightarrow> advance u s = Some s' \<Longrightarrow> create_reach alone m s'"

section \<open>Undisturbed calls\<close>

text \<open>The accesses of one call, run without others, prepare the thread as \<^verbatim>\<open>osThreadNew\<close> does.\<close>

lemma attr_set_simps [simp]:
  "startup_state (attr_set t f m) = startup_state m" "flexpret_thread_num (attr_set t f m) = flexpret_thread_num m"
  "thread_attr_entry (attr_set t f m) = thread_attr_entry m"
  by (simp_all add: attr_set_def split: option.splits)

lemma st_set_simps [simp]:
  "startup_state (st_set t f m) = (startup_state m)(t := f (startup_state m t))"
  "flexpret_thread_num (st_set t f m) = flexpret_thread_num m"
  by (simp_all add: st_set_def)

definition all_writes :: "nat \<Rightarrow> addr \<Rightarrow> addr \<Rightarrow> attr_ref option \<Rightarrow> (machine \<Rightarrow> machine) list" where
  "all_writes t func arg attr = (\<lambda>m. m\<lparr>flexpret_thread_num := Suc t\<rparr>) # attr_writes t attr @
     [st_set t (\<lambda>st. st\<lparr>th_func := func\<rparr>), st_set t (\<lambda>st. st\<lparr>th_state := FLEXPRET_ACTIVE\<rparr>),
      st_set t (\<lambda>st. st\<lparr>th_arg := arg\<rparr>)]"

lemma all_writes_created:
  assumes "t = flexpret_thread_num m" "thread_attr_entry m t \<noteq> None"
  shows "foldl (\<lambda>m f. f m) m (all_writes t func arg attr) = created t func arg attr (new_ref m attr) m"
proof (cases attr)
  case None
  then obtain r where "thread_attr_entry m t = Some r" "new_ref m attr = r"
    using assms by (auto simp: new_ref_def)
  with None show ?thesis
    by (simp add: all_writes_def attr_writes.simps attr_set_def st_set_def created_def new_attr_def fun_upd_idem)
next
  case (Some r)
  then show ?thesis
    by (simp add: all_writes_def attr_writes.simps attr_set_def st_set_def created_def new_ref_def new_attr_def)
qed

section \<open>The invariant\<close>

text \<open>The number a call has taken.\<close>

fun number_of :: "create_pc \<Rightarrow> nat option" where
  "number_of (Attrs t fs) = Some t"
| "number_of (Set_func t) = Some t"
| "number_of (Set_state t) = Some t"
| "number_of (Set_arg t) = Some t"
| "number_of (Return t) = Some t"
| "number_of _ = None"

definition holds :: "create_system \<Rightarrow> nat \<Rightarrow> nat \<Rightarrow> bool" where
  "holds s u t \<longleftrightarrow> (\<exists>f a at pc. creating s u = Some (f, a, at, pc) \<and> number_of pc = Some t)"

definition at_number :: "create_system \<Rightarrow> nat \<Rightarrow> bool" where
  "at_number s u \<longleftrightarrow> (\<exists>f a at pc. creating s u = Some (f, a, at, pc) \<and> numbering pc)"

text \<open>What holds of a call at its place.\<close>

fun call_ok :: "machine \<Rightarrow> create_call \<Rightarrow> bool" where
  "call_ok m (f, a, at, Test) = True"
| "call_ok m (f, a, at, Load) = (flexpret_thread_num m < 8)"
| "call_ok m (f, a, at, Store t) = (t = flexpret_thread_num m \<and> t < 8)"
| "call_ok m (f, a, at, Attrs t fs) = (set fs \<subseteq> set (attr_writes t at))"
| "call_ok m (f, a, at, Set_func t) = True"
| "call_ok m (f, a, at, Set_state t) = (th_func (startup_state m t) = f)"
| "call_ok m (f, a, at, Set_arg t) = (th_func (startup_state m t) = f \<and> th_state (startup_state m t) = FLEXPRET_ACTIVE)"
| "call_ok m (f, a, at, Return t) = (th_func (startup_state m t) = f \<and>
     th_state (startup_state m t) = FLEXPRET_ACTIVE \<and> th_arg (startup_state m t) = a)"

lemma call_ok_cong:
  "call_ok m (f, a, at, pc) \<Longrightarrow> flexpret_thread_num m' = flexpret_thread_num m \<or> \<not> numbering pc \<Longrightarrow>
    (\<And>t. number_of pc = Some t \<Longrightarrow> startup_state m' t = startup_state m t) \<Longrightarrow> call_ok m' (f, a, at, pc)"
  by (cases pc) auto

definition thread_made :: "machine \<Rightarrow> nat \<times> nat \<times> addr \<times> addr \<Rightarrow> bool" where
  "thread_made m = (\<lambda>(u, t, f, a). th_func (startup_state m t) = f \<and>
     th_state (startup_state m t) = FLEXPRET_ACTIVE \<and> th_arg (startup_state m t) = a)"

definition made_numbers :: "create_system \<Rightarrow> nat list" where
  "made_numbers s = map (\<lambda>(u, t, f, a). t) (made s)"

definition creates_ok :: "nat \<Rightarrow> create_system \<Rightarrow> bool" where
  "creates_ok n s \<longleftrightarrow> flexpret_thread_num (memory s) \<le> 8 \<and>
     (\<forall>u c. creating s u = Some c \<longrightarrow> call_ok (memory s) c) \<and>
     (\<forall>c \<in> set (made s). thread_made (memory s) c) \<and>
     (\<forall>u v. at_number s u \<longrightarrow> at_number s v \<longrightarrow> u = v) \<and>
     (\<forall>u v t. holds s u t \<longrightarrow> holds s v t \<longrightarrow> u = v) \<and>
     (\<forall>u t. holds s u t \<longrightarrow> t \<notin> set (made_numbers s)) \<and> distinct (made_numbers s) \<and> n \<le> flexpret_thread_num (memory s) \<and>
     (\<forall>t. (t \<in> set (made_numbers s) \<or> (\<exists>u. holds s u t)) \<longleftrightarrow> n \<le> t \<and> t < flexpret_thread_num (memory s))"

lemma creates_okD:
  assumes "creates_ok n s"
  shows "flexpret_thread_num (memory s) \<le> 8" "n \<le> flexpret_thread_num (memory s)" "distinct (made_numbers s)"
    and "creating s u = Some c \<Longrightarrow> call_ok (memory s) c"
    and "d \<in> set (made s) \<Longrightarrow> thread_made (memory s) d"
    and "at_number s u \<Longrightarrow> at_number s v \<Longrightarrow> u = v"
    and "holds s u t \<Longrightarrow> holds s v t \<Longrightarrow> u = v"
    and "holds s u t \<Longrightarrow> t \<notin> set (made_numbers s)"
    and "(t \<in> set (made_numbers s) \<or> (\<exists>u. holds s u t)) \<longleftrightarrow> n \<le> t \<and> t < flexpret_thread_num (memory s)"
  using assms unfolding creates_ok_def by blast+

text \<open>The state after a step of \<open>u\<close> that changes the memory and the call of \<open>u\<close>.\<close>

abbreviation (input) stepped :: "create_system \<Rightarrow> nat \<Rightarrow> machine \<Rightarrow> create_call option \<Rightarrow> create_system" where
  "stepped s u m c \<equiv> s\<lparr>memory := m, creating := (creating s)(u := c)\<rparr>"

lemma holds_stepped:
  "holds (s\<lparr>memory := m, creating := (creating s)(u := c)\<rparr>) v t \<longleftrightarrow>
    (if v = u then \<exists>f a at pc. c = Some (f, a, at, pc) \<and> number_of pc = Some t else holds s v t)"
  by (simp add: holds_def)

lemma at_number_stepped:
  "at_number (s\<lparr>memory := m, creating := (creating s)(u := c)\<rparr>) v \<longleftrightarrow>
    (if v = u then \<exists>f a at pc. c = Some (f, a, at, pc) \<and> numbering pc else at_number s v)"
  by (simp add: at_number_def)

lemma made_numbers_stepped [simp]:
  "made_numbers (s\<lparr>memory := m, creating := q\<rparr>) = made_numbers s"
  by (simp add: made_numbers_def)

text \<open>A step that does not change who holds which number.\<close>

lemma creates_ok_write:
  assumes ok: "creates_ok n s" and num: "flexpret_thread_num m = flexpret_thread_num (memory s)"
    and holds: "\<And>t. holds (stepped s u m c) u t \<longleftrightarrow> holds s u t"
    and alone: "at_number (stepped s u m c) u \<Longrightarrow> (\<And>v. at_number s v \<Longrightarrow> v = u)"
    and st: "\<And>t. \<not> holds s u t \<Longrightarrow> startup_state m t = startup_state (memory s) t"
    and call: "\<And>c'. c = Some c' \<Longrightarrow> call_ok m c'"
  shows "creates_ok n (stepped s u m c)"
proof -
  note inv = creates_okD [OF ok]
  have h: "holds (stepped s u m c) v t \<longleftrightarrow> holds s v t" for v t
    using holds [of t] by (cases "v = u") (auto simp: holds_stepped)
  have a: "at_number (stepped s u m c) v \<Longrightarrow> v = u \<or> at_number s v" for v
    by (auto simp: at_number_stepped split: if_splits)
  have calls: "call_ok m (f, b, at, pc)" if p: "creating s v = Some (f, b, at, pc)" "v \<noteq> u" for v f b at pc
  proof (rule call_ok_cong [OF inv(4) [OF p(1)]])
    fix t assume "number_of pc = Some t"
    with p(1) have "holds s v t" by (auto simp: holds_def)
    with p(2) inv(7) [of v t u] show "startup_state m t = startup_state (memory s) t"
      by (intro st) auto
  qed (simp add: num)
  have made: "thread_made m c'" if "c' \<in> set (made s)" for c'
  proof -
    obtain v t f b where c': "c' = (v, t, f, b)" by (cases c')
    with that have "t \<in> set (made_numbers s)" by (force simp: made_numbers_def)
    with inv(8) [of u t] st [of t] have "startup_state m t = startup_state (memory s) t" by auto
    with inv(5) [OF that] show ?thesis by (simp add: c' thread_made_def)
  qed
  have "\<forall>v w. at_number (stepped s u m c) v \<longrightarrow> at_number (stepped s u m c) w \<longrightarrow> v = w"
    using a alone inv(6) by blast
  moreover have "\<forall>v c'. creating (stepped s u m c) v = Some c' \<longrightarrow> call_ok (memory (stepped s u m c)) c'"
    using calls call by auto
  moreover have "\<forall>c' \<in> set (made (stepped s u m c)). thread_made (memory (stepped s u m c)) c'"
    using made by simp
  ultimately show ?thesis
    using inv(1-3,7-9) unfolding creates_ok_def h made_numbers_stepped by (simp add: num)
qed

text \<open>The end of the increment gives the caller its number.\<close>

lemma creates_ok_store:
  assumes ok: "creates_ok n s" and u: "creating s u = Some (func, arg, attr, Store t)"
  shows "creates_ok n (stepped s u (memory s\<lparr>flexpret_thread_num := Suc t\<rparr>) (Some (func, arg, attr, Attrs t (attr_writes t attr))))"
    (is "creates_ok n ?s")
proof -
  note inv = creates_okD [OF ok]
  have t: "t = flexpret_thread_num (memory s)" "t < 8"
    using inv(4) [OF u] by auto
  have "\<not> holds s u t'" for t'
    using u by (simp add: holds_def)
  moreover have new: "\<not> holds s v t" "t \<notin> set (made_numbers s)" for v
    using inv(9) [of t] t(1) by auto
  ultimately have h: "holds ?s v t' \<longleftrightarrow> holds s v t' \<or> v = u \<and> t' = t" for v t'
    by (auto simp: holds_stepped)
  have other: "\<not> at_number s v" if "v \<noteq> u" for v
    using inv(6) [of v u] u that by (auto simp: at_number_def)
  then have a: "\<not> at_number ?s v" for v
    by (auto simp: at_number_stepped)
  have calls: "call_ok (memory ?s) (f, b, at, pc)" if p: "creating s v = Some (f, b, at, pc)" "v \<noteq> u" for v f b at pc
    by (rule call_ok_cong [OF inv(4) [OF p(1)]]) (use other [OF p(2)] p(1) in \<open>auto simp: at_number_def\<close>)
  have "\<forall>v c. creating ?s v = Some c \<longrightarrow> call_ok (memory ?s) c"
    using calls by auto
  moreover have "\<forall>c \<in> set (made ?s). thread_made (memory ?s) c"
    using inv(5) by (auto simp: thread_made_def)
  moreover have "\<forall>v w t'. holds ?s v t' \<longrightarrow> holds ?s w t' \<longrightarrow> v = w" "\<forall>v t'. holds ?s v t' \<longrightarrow> t' \<notin> set (made_numbers s)"
    unfolding h using new inv(7,8) by blast+
  moreover have "(t' \<in> set (made_numbers s) \<or> (\<exists>v. holds ?s v t')) \<longleftrightarrow> n \<le> t' \<and> t' < Suc t" for t'
    using inv(9) [of t'] inv(2) h t(1) by (auto simp: less_Suc_eq)
  ultimately show ?thesis
    using a inv(2,3) t by (simp add: creates_ok_def)
qed

lemma creates_ok_return:
  assumes ok: "creates_ok n s" and u: "creating s u = Some (func, arg, attr, Return t)"
  shows "creates_ok n (s\<lparr>creating := (creating s)(u := None), made := made s @ [(u, t, func, arg)]\<rparr>)" (is "creates_ok n ?s")
proof -
  note inv = creates_okD [OF ok]
  have hu: "holds s u t' \<longleftrightarrow> t' = t" for t'
    using u by (auto simp: holds_def)
  have h: "holds ?s v t' \<longleftrightarrow> holds s v t' \<and> v \<noteq> u" for v t'
    by (simp add: holds_def)
  have a: "at_number ?s v \<Longrightarrow> at_number s v" for v
    by (simp add: at_number_def split: if_splits)
  have m: "made_numbers ?s = made_numbers s @ [t]"
    by (simp add: made_numbers_def)
  have "t \<notin> set (made_numbers s)"
    using inv(8) [of u t] hu by simp
  moreover have "\<forall>v t'. holds ?s v t' \<longrightarrow> t' \<notin> set (made_numbers ?s)"
    using h hu inv(7,8) m by fastforce
  moreover have "(t' \<in> set (made_numbers ?s) \<or> (\<exists>v. holds ?s v t')) \<longleftrightarrow>
      n \<le> t' \<and> t' < flexpret_thread_num (memory s)" for t'
    using inv(9) [of t'] h hu m by auto
  moreover have "thread_made (memory s) (u, t, func, arg)"
    using inv(4) [OF u] by (simp add: thread_made_def)
  moreover have "\<forall>v c. creating ?s v = Some c \<longrightarrow> call_ok (memory s) c"
    using inv(4) by auto
  moreover have "\<forall>v w. at_number ?s v \<longrightarrow> at_number ?s w \<longrightarrow> v = w"
    by (intro allI impI) (rule inv(6) [OF a a])
  moreover have "\<forall>v w t'. holds ?s v t' \<longrightarrow> holds ?s w t' \<longrightarrow> v = w"
    unfolding h using inv(7) by blast
  moreover have "\<forall>c \<in> set (made ?s). thread_made (memory s) c"
    using inv(5) calculation(4) by auto
  ultimately show ?thesis
    using inv(1-3) m unfolding creates_ok_def by simp
qed

lemma creates_ok_call:
  assumes "creates_ok n s" "creating s u = None" "\<And>v f a at pc. creating s v = Some (f, a, at, pc) \<Longrightarrow> \<not> numbering pc"
  shows "creates_ok n (s\<lparr>creating := (creating s)(u := Some (func, arg, attr, Test))\<rparr>)"
proof -
  have "creates_ok n (stepped s u (memory s) (Some (func, arg, attr, Test)))"
    using assms(2,3)
    by (intro creates_ok_write [OF assms(1)]) (auto simp: holds_stepped holds_def at_number_def)
  then show ?thesis by simp
qed

lemma attr_write_others:
  "f \<in> set (attr_writes t attr) \<Longrightarrow> t' \<noteq> t \<Longrightarrow> startup_state (f m) t' = startup_state m t'"
  "f \<in> set (attr_writes t attr) \<Longrightarrow> flexpret_thread_num (f m) = flexpret_thread_num m"
  by (cases attr; auto simp: attr_writes.simps)+

lemma creates_ok_advance:
  assumes ok: "creates_ok n s" and step: "advance u s = Some s'"
  shows "creates_ok n s'"
proof -
  note inv = creates_okD [OF ok]
  obtain func arg attr pc where u: "creating s u = Some (func, arg, attr, pc)"
    using step by (auto simp: advance_def split: option.splits)
  have alone: "numbering pc \<Longrightarrow> at_number s v \<Longrightarrow> v = u" for v
    using inv(6) [of v u] u by (auto simp: at_number_def)
  have written: "creates_ok n (stepped s u m c)"
    if "flexpret_thread_num m = flexpret_thread_num (memory s)"
      "\<And>t. (\<exists>f a at pc. c = Some (f, a, at, pc) \<and> number_of pc = Some t) \<longleftrightarrow> number_of pc = Some t"
      "\<And>f a at pc'. c = Some (f, a, at, pc') \<Longrightarrow> numbering pc' \<Longrightarrow> numbering pc"
      "\<And>t. number_of pc \<noteq> Some t \<Longrightarrow> startup_state m t = startup_state (memory s) t"
      "\<And>c'. c = Some c' \<Longrightarrow> call_ok m c'" for m c
    using that u alone by (intro creates_ok_write [OF ok]) (auto simp: holds_stepped holds_def at_number_stepped)
  note calls = inv(4) [OF u]
  show ?thesis
  proof (cases pc)
    case Test
    with step u inv(1) written [of "memory s" None] written [of "say msg (memory s)" None for msg]
      written [of "memory s" "Some (func, arg, attr, Load)"] show ?thesis
      by (auto simp: advance_def Let_def split: if_splits)
  next
    case Load
    with step u calls written [of "memory s" "Some (func, arg, attr, Store (flexpret_thread_num (memory s)))"]
    show ?thesis
      by (auto simp: advance_def)
  next
    case (Store t)
    then show ?thesis
      using step u creates_ok_store [OF ok, of u func arg attr t] by (auto simp: advance_def)
  next
    case (Attrs t fs)
    with step u calls written [of "memory s" "Some (func, arg, attr, Set_func t)"] show ?thesis
      by (cases fs) (auto simp: advance_def Let_def attr_write_others split: if_splits intro!: written)
  next
    case (Return t)
    then show ?thesis
      using step u creates_ok_return [OF ok, of u func arg attr t] by (auto simp: advance_def)
  qed (use step u calls in \<open>auto simp: advance_def intro!: written\<close>)
qed

lemma create_reach_ok:
  "create_reach True m s \<Longrightarrow> flexpret_thread_num m \<le> 8 \<Longrightarrow> creates_ok (flexpret_thread_num m) s"
proof (induction rule: create_reach.induct)
  case start
  then show ?case
    by (simp add: creates_ok_def holds_def at_number_def made_numbers_def)
qed (auto intro: creates_ok_call creates_ok_advance)

section \<open>Runs\<close>

fun run_accesses :: "nat list \<Rightarrow> create_system \<Rightarrow> create_system option" where
  "run_accesses [] s = Some s"
| "run_accesses (u # us) s = (case advance u s of None \<Rightarrow> None | Some s' \<Rightarrow> run_accesses us s')"

lemma run_accesses_append:
  "run_accesses (us @ vs) s = (case run_accesses us s of None \<Rightarrow> None | Some s' \<Rightarrow> run_accesses vs s')"
  by (induction us arbitrary: s) (simp_all split: option.split)

lemma create_reach_run:
  "create_reach alone m s \<Longrightarrow> run_accesses us s = Some s' \<Longrightarrow> create_reach alone m s'"
  by (induction us arbitrary: s) (auto split: option.splits intro: create_reach.access)

text \<open>From the end of the increment on, without others in between.\<close>

lemma run_from_store:
  assumes "creating s u = Some (func, arg, attr, Store t)" "t < 8"
  shows "run_accesses (replicate 10 u) s = Some (s\<lparr>memory := foldl (\<lambda>m f. f m) (memory s) (all_writes t func arg attr),
    creating := (creating s)(u := None), made := made s @ [(u, t, func, arg)]\<rparr>)"
proof (cases attr)
  case None
  with assms show ?thesis
    by (simp add: numeral_eq_Suc advance_def attr_writes.simps all_writes_def)
next
  case (Some r)
  with assms show ?thesis
    by (simp add: numeral_eq_Suc advance_def attr_writes.simps all_writes_def)
qed

text \<open>An undisturbed call of the protocol prepares the thread as \<^verbatim>\<open>osThreadNew\<close> does.\<close>

lemma undisturbed_call:
  assumes "creating s u = Some (func, arg, attr, Test)" "t = flexpret_thread_num (memory s)" "t < 8"
    and "\<not> bad_priority attr (memory s)" "thread_attr_entry (memory s) t \<noteq> None"
  shows "run_accesses (replicate 12 u) s = Some (s\<lparr>memory := created t func arg attr (new_ref (memory s) attr) (memory s),
    creating := (creating s)(u := None), made := made s @ [(u, t, func, arg)]\<rparr>)"
proof -
  let ?s = "s\<lparr>creating := (creating s)(u := Some (func, arg, attr, Store t))\<rparr>"
  have "run_accesses (u # u # us) s = run_accesses us ?s" for us
    using assms(1-4) by (simp add: advance_def)
  moreover have "replicate 12 u = u # u # replicate 10 u"
    by (simp add: numeral_eq_Suc)
  ultimately show ?thesis
    using run_from_store [of ?s u func arg attr t] assms(3) all_writes_created [OF assms(2,5)] by simp
qed

section \<open>Properties\<close>

text \<open>
  C6: creating threads needs no mutex around the whole call. Any number of threads may create
  threads at the same time, interleaved after every access, as long as no call starts while
  another is still at the thread number: every number is given to one call only and none beyond
  7, and each control block holds the function and the argument of the call that returned it.
  None gets lost: when no call is in progress the numbers given are all those below the next.
\<close>

theorem creates_serial:
  assumes "create_reach True m s" "flexpret_thread_num m \<le> 8"
  shows "distinct (made_numbers s) \<and> flexpret_thread_num (memory s) \<le> 8 \<and>
    (\<forall>(u, t, func, arg) \<in> set (made s). t < 8 \<and> th_func (startup_state (memory s) t) = func \<and>
      th_arg (startup_state (memory s) t) = arg \<and> th_state (startup_state (memory s) t) = FLEXPRET_ACTIVE) \<and>
    ((\<forall>u. creating s u = None) \<longrightarrow>
      set (made_numbers s) = {flexpret_thread_num m ..< flexpret_thread_num (memory s)})"
proof -
  note inv = creates_okD [OF create_reach_ok [OF assms]]
  have "t \<in> set (made_numbers s)" if "(u, t, f, a) \<in> set (made s)" for u t f a
    using that by (force simp: made_numbers_def)
  then have "t < 8" if "(u, t, f, a) \<in> set (made s)" for u t f a
    using inv(1) inv(9) [of t] that by auto
  moreover have "set (made_numbers s) = {flexpret_thread_num m ..< flexpret_thread_num (memory s)}" if "\<forall>u. creating s u = None"
    using inv(9) that by (auto simp: holds_def)
  ultimately show ?thesis
    using inv(1,3,5) by (fastforce simp: thread_made_def)
qed

text \<open>Thread 2 takes its number while the call of thread 1 is still at the attributes.\<close>

lemma example_creates:
  assumes "flexpret_thread_num m = 1"
  shows "\<exists>s. create_reach True m s \<and> (\<forall>u. creating s u = None) \<and> made s = [(2, 2, 0x200, 0), (1, 1, 0x100, 0)]"
proof -
  let ?s = "\<lparr>memory = m, creating = (\<lambda>_. None)(1 := Some (0x100, 0, None, Test)), made = []\<rparr>"
  have "create_reach True m ?s"
    using create_reach.call [OF create_reach.start [of True m], of 1 "0x100" 0 None] by simp
  moreover let ?s' = "\<lparr>memory = m\<lparr>flexpret_thread_num := 2\<rparr>,
    creating = (\<lambda>_. None)(1 := Some (0x100, 0, None, Attrs 1 (attr_writes 1 None))), made = []\<rparr>"
  have "run_accesses [1, 1, 1] ?s = Some ?s'"
    using assms by (simp add: advance_def bad_priority_def)
  ultimately have r: "create_reach True m ?s'"
    by (rule create_reach_run)
  let ?t = "?s'\<lparr>creating := (creating ?s')(2 := Some (0x200, 0, None, Test))\<rparr>"
  have "create_reach True m ?t"
    by (rule create_reach.call [OF r]) (auto split: if_splits)
  moreover have "\<exists>s'. run_accesses (replicate 12 2 @ replicate 9 1) ?t = Some s' \<and> (\<forall>u. creating s' u = None) \<and>
      made s' = [(2, 2, 0x200, 0), (1, 1, 0x100, 0)]"
    by (simp add: numeral_eq_Suc advance_def bad_priority_def attr_writes.simps)
  ultimately show ?thesis
    using create_reach_run by blast
qed

theorem creates_serial_witness:
  "\<exists>s. create_reach True (example_machine\<lparr>flexpret_thread_num := 1\<rparr>) s \<and> made s = [(2, 2, 0x200, 0), (1, 1, 0x100, 0)] \<and>
    th_func (startup_state (memory s) 1) = 0x100 \<and> th_func (startup_state (memory s) 2) = 0x200"
proof -
  let ?m = "example_machine\<lparr>flexpret_thread_num := 1\<rparr>"
  obtain s where s: "create_reach True ?m s" "made s = [(2, 2, 0x200, 0), (1, 1, 0x100, 0)]"
    using example_creates [of ?m] by auto
  with creates_serial [OF s(1)] show ?thesis by auto
qed

lemma two_calls:
  assumes "f \<noteq> NULL" "g \<noteq> NULL"
  shows "create_reach False m \<lparr>memory = m,
    creating = (\<lambda>_. None)(1 := Some (f, a, None, Test), 2 := Some (g, b, None, Test)), made = []\<rparr>"
  using create_reach.call [OF create_reach.call [OF create_reach.start [of False m]], of 1 f a None 2 g b None] assms
  by simp

lemma all_writes_effect:
  "flexpret_thread_num (foldl (\<lambda>m f. f m) m (all_writes t func arg attr)) = Suc t"
  "th_func (startup_state (foldl (\<lambda>m f. f m) m (all_writes t func arg attr)) t) = func"
  by (cases attr; simp add: all_writes_def attr_writes.simps)+

text \<open>
  Without the proviso a thread gets lost. When two calls load the number before either stores
  it both return the same thread, which runs the function of the one that wrote last.
\<close>

theorem creates_race:
  assumes "t = flexpret_thread_num m" "t < 8" "f \<noteq> NULL" "g \<noteq> NULL"
  shows "\<exists>s. create_reach False m s \<and> (\<forall>u. creating s u = None) \<and> made s = [(1, t, f, a), (2, t, g, b)] \<and>
    flexpret_thread_num (memory s) = Suc t \<and> th_func (startup_state (memory s) t) = g"
proof -
  let ?p = "\<lambda>c d. (\<lambda>_. None)(1 := c, 2 := d) :: nat \<Rightarrow> create_call option"
  let ?f = "Some (f, a, None, Store t)" and ?g = "Some (g, b, None, Store t)"
  let ?m = "foldl (\<lambda>m f. f m) m (all_writes t f a None)"
  let ?s = "\<lparr>memory = m, creating = ?p ?f ?g, made = []\<rparr>" and ?s' = "\<lparr>memory = ?m, creating = ?p None ?g, made = [(1, t, f, a)]\<rparr>"
    and ?s'' = "\<lparr>memory = foldl (\<lambda>m f. f m) ?m (all_writes t g b None), creating = ?p None None,
      made = [(1, t, f, a), (2, t, g, b)]\<rparr>"
  have "run_accesses [1, 2, 1, 2] \<lparr>memory = m, creating = ?p (Some (f, a, None, Test)) (Some (g, b, None, Test)), made = []\<rparr> = Some ?s"
    using assms by (simp add: advance_def bad_priority_def fun_upd_twist)
  then have "create_reach False m ?s"
    by (rule create_reach_run [OF two_calls [OF assms(3,4)]])
  moreover have "run_accesses (replicate 10 1) ?s = Some ?s'"
    using run_from_store [of ?s 1 f a None t] assms(2) by (simp add: fun_upd_twist)
  moreover have "run_accesses (replicate 10 2) ?s' = Some ?s''"
    using run_from_store [of ?s' 2 g b None t] assms(2) by simp
  ultimately have "create_reach False m ?s''"
    by (blast intro: create_reach_run)
  then show ?thesis
    by (intro exI [of _ ?s'']) (simp add: all_writes_effect)
qed

text \<open>
  C27: without the proviso a call can leave the table of control blocks. When two calls test the
  number while it is 7, and one stores before the other loads, the second takes the number 8, for
  which there is no control block. The number is then 9, and as the test is one for equality
  it lets every later call pass.
\<close>

theorem number_runs_past:
  assumes "flexpret_thread_num m = 7" "f \<noteq> NULL" "g \<noteq> NULL"
  shows "\<exists>s fs. create_reach False m s \<and> creating s 2 = Some (g, b, None, Attrs 8 fs) \<and> advance 2 s = None \<and>
    flexpret_thread_num (memory s) = 9"
proof -
  let ?s = "\<lparr>memory = m, creating = (\<lambda>_. None)(1 := Some (f, a, None, Test), 2 := Some (g, b, None, Test)), made = []\<rparr>"
  from assms obtain s where s: "run_accesses [1, 2, 1, 1, 2, 2] ?s = Some s"
    "creating s 2 = Some (g, b, None, Attrs 8 (attr_writes 8 None))" "flexpret_thread_num (memory s) = 9"
    by (simp add: advance_def bad_priority_def)
  moreover have "advance 2 s = None"
    using s(2) by (simp add: advance_def)
  ultimately show ?thesis
    using create_reach_run [OF two_calls [OF assms(2,3)] s(1)] by blast
qed

theorem number_runs_past_witness:
  "\<exists>s fs. create_reach False (example_machine\<lparr>flexpret_thread_num := 7\<rparr>) s \<and>
    creating s 2 = Some (0x200, 0, None, Attrs 8 fs) \<and> advance 2 s = None"
  using number_runs_past [of "example_machine\<lparr>flexpret_thread_num := 7\<rparr>" "0x100" "0x200" 0] by auto

end
