(* ===== verification/Statistics.thy ===== *)
theory Statistics
  imports Io
begin

text \<open>
  The performance counters of \<^verbatim>\<open>include/flexpret_io.h\<close>: \<^verbatim>\<open>stats_get\<close> reads two 64 bit counters of
  the calling thread through 32 bit registers while they run on, \<^verbatim>\<open>stats_print\<close> prints the
  difference of two readings.
\<close>

section \<open>Operations\<close>

record stats =
  st_cycle :: u32
  st_cycleh :: u32
  st_instret :: u32
  st_instreth :: u32

text \<open>Before each instruction that reads a register the counters run: one outside event.\<close>

definition get_counter :: "csr \<Rightarrow> u32 os" where
  "get_counter r = seqm env_step (os_read_csr r)"

definition get_cycle :: "u32 os" where
  "get_cycle = get_counter CSR_CYCLE"

definition get_cycleh :: "u32 os" where
  "get_cycleh = get_counter CSR_CYCLEH"

definition get_instret :: "u32 os" where
  "get_instret = get_counter CSR_INSTRET"

definition get_instreth :: "u32 os" where
  "get_instreth = get_counter CSR_INSTRETH"

text \<open>
  The \<^verbatim>\<open>do ... while\<close> loop; the second comparison is only reached when the first finds the
  high word of the cycle counter unchanged.
\<close>

fun stats_loop :: "nat \<Rightarrow> stats os" where
  "stats_loop 0 = (\<lambda>w. Blocked w)"
| "stats_loop (Suc n) =
     bnd get_cycleh (\<lambda>ch.
     bnd get_instreth (\<lambda>ih.
     bnd get_cycle (\<lambda>c.
     bnd get_instret (\<lambda>i.
     bnd get_cycleh (\<lambda>ch'.
     if ch' \<noteq> ch then stats_loop n
     else bnd get_instreth (\<lambda>ih'.
       if ih' \<noteq> ih then stats_loop n
       else ret \<lparr>st_cycle = c, st_cycleh = ch, st_instret = i, st_instreth = ih\<rparr>))))))"

definition stats_get :: "stats os" where
  "stats_get w = stats_loop (Suc (length (sched w))) w"

definition debug_string :: "string \<Rightarrow> unit os" where
  "debug_string s = emulator_outputstr (Some s)"

definition stats_print :: "stats \<Rightarrow> stats \<Rightarrow> unit os" where
  "stats_print s e =
     seqm (bnd (itoa_hex (st_cycleh e - st_cycleh s)) debug_string)
     (seqm (bnd (itoa_hex (st_cycle e - st_cycle s)) debug_string)
     (seqm (debug_string [CHR 0x0A])
     (seqm (bnd (itoa_hex (st_instreth e - st_instreth s)) debug_string)
     (seqm (bnd (itoa_hex (st_instret e - st_instret s)) debug_string)
     (debug_string [CHR 0x0A])))))"

section \<open>Reading a running counter\<close>

text \<open>The two words of a reading as one number.\<close>

definition joined :: "u32 \<Rightarrow> u32 \<Rightarrow> u64" where
  "joined hi lo = push_bit 32 (ucast hi) OR ucast lo"

lemma unat_ucast_u64: "unat (ucast (x :: u32) :: u64) = unat x"
proof -
  have "unat x < 2 ^ 64"
    using unsigned_less [of x, where 'a = nat] by simp
  then show ?thesis
    by (simp add: unsigned_ucast_eq take_bit_nat_eq_self)
qed

lemma unat_joined: "unat (joined hi lo) = unat hi * 2 ^ 32 + unat lo"
proof -
  have "joined hi lo = push_bit 32 (ucast hi) + ucast lo"
    unfolding joined_def
    by (rule disjunctive_add [symmetric]) (auto simp: bit_simps dest: bit_imp_le_length)
  moreover have "unat (push_bit 32 (ucast hi :: u64)) = unat hi * 2 ^ 32"
    using unsigned_less [of hi, where 'a = nat] by (simp add: push_bit_eq_mult unat_word_ariths unat_ucast_u64)
  ultimately show ?thesis
    using unsigned_less [of hi, where 'a = nat] unsigned_less [of lo, where 'a = nat] by (simp add: unat_word_ariths unat_ucast_u64)
qed

lemma words_of_counter: "joined (ucast (drop_bit 32 x)) (ucast x) = (x :: u64)"
  by (rule bit_word_eqI) (auto simp: joined_def bit_simps dest: bit_imp_le_length)

text \<open>Three readings of a counter that only grows, with the same high word before and after.\<close>

lemma high_word_between:
  fixes a b c :: u64
  assumes "a \<le> b" "b \<le> c" "drop_bit 32 a = drop_bit 32 c"
  shows "drop_bit 32 b = drop_bit 32 a"
proof -
  have "unat (drop_bit 32 x) = unat x div 2 ^ 32" for x :: u64
    by (simp add: drop_bit_eq_div unat_div_distrib)
  moreover have "unat a div 2 ^ 32 \<le> unat b div 2 ^ 32" "unat b div 2 ^ 32 \<le> unat c div 2 ^ 32"
    using assms(1,2) by (simp_all add: div_le_mono word_le_nat_alt)
  ultimately show ?thesis
    using assms(3) by (metis le_antisym word_unat_eq_iff)
qed

lemma joined_between:
  fixes a b c :: u64
  assumes "a \<le> b" "b \<le> c" "(ucast (drop_bit 32 c) :: u32) = ucast (drop_bit 32 a)"
  shows "joined (ucast (drop_bit 32 a)) (ucast b) = b"
proof -
  have "drop_bit 32 a = drop_bit 32 c"
  proof (rule bit_word_eqI)
    fix n
    have "bit (ucast (drop_bit 32 c) :: u32) n = bit (ucast (drop_bit 32 a) :: u32) n"
      by (simp only: assms(3))
    then show "bit (drop_bit 32 a) n = bit (drop_bit 32 c) n"
      by (cases "n < 32") (auto simp: bit_simps dest: bit_imp_le_length)
  qed
  then have "drop_bit 32 b = drop_bit 32 a"
    by (rule high_word_between [OF assms(1,2)])
  with words_of_counter [of b] show ?thesis by simp
qed

text \<open>What the outside events do to the counters of thread \<open>h\<close>: they only grow.\<close>

definition counters_grow :: "nat \<Rightarrow> (machine \<Rightarrow> machine) list \<Rightarrow> bool" where
  "counters_grow h es \<longleftrightarrow> (\<forall>e \<in> set es. \<forall>m. csr_cycle m h \<le> csr_cycle (e m) h \<and>
     csr_instret m h \<le> csr_instret (e m) h)"

definition ran_on :: "world \<Rightarrow> world \<Rightarrow> bool" where
  "ran_on w w' \<longleftrightarrow> hart w' = hart w \<and> counters_grow (hart w) (sched w') \<and>
     csr_cycle (mach w) (hart w) \<le> csr_cycle (mach w') (hart w) \<and>
     csr_instret (mach w) (hart w) \<le> csr_instret (mach w') (hart w)"

lemma ran_on_trans: "ran_on w v \<Longrightarrow> ran_on v u \<Longrightarrow> ran_on w u"
  by (auto simp: ran_on_def)

lemma get_counter_Ret:
  assumes "get_counter r w = Ret x v" "counters_grow (hart w) (sched w)"
  shows "ran_on w v \<and> x = read_csr r (hart w) (mach v)"
  using assms by (cases "sched w") (auto simp: get_counter_def ran_on_def counters_grow_def)

text \<open>A reading taken between two states of the counters.\<close>

definition read_between :: "world \<Rightarrow> stats \<Rightarrow> world \<Rightarrow> bool" where
  "read_between w s w' \<longleftrightarrow> csr_cycle (mach w) (hart w) \<le> joined (st_cycleh s) (st_cycle s) \<and>
     joined (st_cycleh s) (st_cycle s) \<le> csr_cycle (mach w') (hart w) \<and>
     csr_instret (mach w) (hart w) \<le> joined (st_instreth s) (st_instret s) \<and>
     joined (st_instreth s) (st_instret s) \<le> csr_instret (mach w') (hart w)"

lemma read_between_ran_on: "ran_on w v \<Longrightarrow> read_between v s w' \<Longrightarrow> read_between w s w'"
  by (auto simp: ran_on_def read_between_def)

lemma read_counters:
  assumes "counters_grow (hart w) (sched w)"
  shows "get_cycle w = Ret x v \<Longrightarrow> ran_on w v \<and> x = read_csr CSR_CYCLE (hart w) (mach v)"
    and "get_cycleh w = Ret x v \<Longrightarrow> ran_on w v \<and> x = read_csr CSR_CYCLEH (hart w) (mach v)"
    and "get_instret w = Ret x v \<Longrightarrow> ran_on w v \<and> x = read_csr CSR_INSTRET (hart w) (mach v)"
    and "get_instreth w = Ret x v \<Longrightarrow> ran_on w v \<and> x = read_csr CSR_INSTRETH (hart w) (mach v)"
  unfolding get_cycle_def get_cycleh_def get_instret_def get_instreth_def
  using get_counter_Ret assms by blast+

text \<open>The first and the last read of a high word agree, so the low word belongs to it.\<close>

lemma six_reads:
  assumes "ran_on w w1" "ran_on w1 w2" "ran_on w2 w3" "ran_on w3 w4" "ran_on w4 w5" "ran_on w5 w6"
    and "read_csr CSR_CYCLEH (hart w) (mach w1) = read_csr CSR_CYCLEH (hart w) (mach w5)"
    and "read_csr CSR_INSTRETH (hart w) (mach w2) = read_csr CSR_INSTRETH (hart w) (mach w6)"
  shows "read_between w \<lparr>st_cycle = read_csr CSR_CYCLE (hart w) (mach w3),
    st_cycleh = read_csr CSR_CYCLEH (hart w) (mach w1), st_instret = read_csr CSR_INSTRET (hart w) (mach w4),
    st_instreth = read_csr CSR_INSTRETH (hart w) (mach w2)\<rparr> w6"
proof -
  let ?h = "hart w"
  have h: "hart w1 = ?h" "hart w2 = ?h" "hart w3 = ?h" "hart w4 = ?h" "hart w5 = ?h"
    using assms(1-5) by (simp_all add: ran_on_def)
  have "ran_on w1 w3" "ran_on w3 w5" "ran_on w2 w4" "ran_on w4 w6"
    using assms(2-6) by (meson ran_on_trans)+
  then have le: "csr_cycle (mach w1) ?h \<le> csr_cycle (mach w3) ?h" "csr_cycle (mach w3) ?h \<le> csr_cycle (mach w5) ?h"
    "csr_instret (mach w2) ?h \<le> csr_instret (mach w4) ?h" "csr_instret (mach w4) ?h \<le> csr_instret (mach w6) ?h"
    by (simp_all add: ran_on_def h)
  have "joined (read_csr CSR_CYCLEH ?h (mach w1)) (read_csr CSR_CYCLE ?h (mach w3)) = csr_cycle (mach w3) ?h"
    "joined (read_csr CSR_INSTRETH ?h (mach w2)) (read_csr CSR_INSTRET ?h (mach w4)) = csr_instret (mach w4) ?h"
    using joined_between [OF le(1,2)] joined_between [OF le(3,4)] assms(7,8) by simp_all
  moreover have "ran_on w w3" "ran_on w3 w6" "ran_on w w4" "ran_on w4 w6"
    using assms(1-6) by (meson ran_on_trans)+
  ultimately show ?thesis
    by (simp add: read_between_def ran_on_def h)
qed

lemma stats_pass:
  assumes "stats_loop (Suc n) w = Ret s w'" "counters_grow (hart w) (sched w)"
  shows "read_between w s w' \<or> (\<exists>v. ran_on w v \<and> stats_loop n v = Ret s w')"
proof -
  from assms(1) obtain ch w1 ih w2 c w3 i w4 ch' w5 where
    r: "get_cycleh w = Ret ch w1" "get_instreth w1 = Ret ih w2" "get_cycle w2 = Ret c w3"
      "get_instret w3 = Ret i w4" "get_cycleh w4 = Ret ch' w5"
    and tail: "ch' \<noteq> ch \<and> stats_loop n w5 = Ret s w' \<or> ch' = ch \<and> (\<exists>ih' w6. get_instreth w5 = Ret ih' w6 \<and>
       (ih' \<noteq> ih \<and> stats_loop n w6 = Ret s w' \<or>
        ih' = ih \<and> s = \<lparr>st_cycle = c, st_cycleh = ch, st_instret = i, st_instreth = ih\<rparr> \<and> w' = w6))"
    by (auto simp: bnd_eq_Ret_iff split: if_splits)
  note 1 = read_counters(2) [OF assms(2) r(1)]
  have 2: "ran_on w1 w2 \<and> ih = read_csr CSR_INSTRETH (hart w) (mach w2)"
    using read_counters(4) [OF _ r(2)] 1 by (simp add: ran_on_def)
  have 3: "ran_on w2 w3 \<and> c = read_csr CSR_CYCLE (hart w) (mach w3)"
    using read_counters(1) [OF _ r(3)] 1 2 by (simp add: ran_on_def)
  have 4: "ran_on w3 w4 \<and> i = read_csr CSR_INSTRET (hart w) (mach w4)"
    using read_counters(3) [OF _ r(4)] 1 2 3 by (simp add: ran_on_def)
  have 5: "ran_on w4 w5 \<and> ch' = read_csr CSR_CYCLEH (hart w) (mach w5)"
    using read_counters(2) [OF _ r(5)] 1 2 3 4 by (simp add: ran_on_def)
  have w5: "ran_on w w5"
    using 1 2 3 4 5 by (meson ran_on_trans)
  have 6: "ran_on w5 w6 \<and> ih' = read_csr CSR_INSTRETH (hart w) (mach w6)" if "get_instreth w5 = Ret ih' w6" for ih' w6
    using read_counters(4) [OF _ that] w5 by (simp add: ran_on_def)
  from tail show ?thesis
    using w5 6 ran_on_trans [OF w5] six_reads [of w w1 w2 w3 w4 w5] 1 2 3 4 5 by metis
qed

lemma stats_loop_Ret:
  "stats_loop n w = Ret s w' \<Longrightarrow> counters_grow (hart w) (sched w) \<Longrightarrow> read_between w s w'"
proof (induction n arbitrary: w)
  case 0
  then show ?case by simp
next
  case (Suc n)
  from stats_pass [OF this(2,3)] show ?case
    using Suc.IH read_between_ran_on by (auto simp: ran_on_def)
qed

text \<open>Without a carry into a high word a pass of the loop returns.\<close>

fun high_words_stay :: "nat \<Rightarrow> machine \<Rightarrow> (machine \<Rightarrow> machine) list \<Rightarrow> bool" where
  "high_words_stay h m [] \<longleftrightarrow> True"
| "high_words_stay h m (e # es) \<longleftrightarrow> drop_bit 32 (csr_cycle (e m) h) = drop_bit 32 (csr_cycle m h) \<and>
     drop_bit 32 (csr_instret (e m) h) = drop_bit 32 (csr_instret m h) \<and> high_words_stay h (e m) es"

lemma high_words_stay_drop: "high_words_stay h m es \<Longrightarrow> high_words_stay h (fold id (take k es) m) (drop k es)"
proof (induction es arbitrary: m k)
  case (Cons e es)
  then show ?case by (cases k) auto
qed simp

lemma next_event:
  "sched v = e # es \<Longrightarrow> get_counter r v = Ret (read_csr r (hart v) (e (mach v))) (v\<lparr>mach := e (mach v), sched := es\<rparr>)"
  by (simp add: get_counter_def)

lemmas counter_reads = get_cycle_def get_cycleh_def get_instret_def get_instreth_def next_event

lemma quiet_pass:
  assumes "sched w = es @ rest" "6 \<le> length es" "high_words_stay (hart w) (mach w) es"
  shows "\<exists>s w'. stats_loop (Suc n) w = Ret s w'"
proof -
  obtain e1 e2 e3 e4 e5 e6 es' where es: "es = e1 # e2 # e3 # e4 # e5 # e6 # es'"
    using assms(2) by (auto simp: numeral_eq_Suc Suc_le_length_iff)
  show ?thesis
    using assms(1,3) unfolding es by (simp add: counter_reads)
qed

text \<open>A pass that does not return takes five or six events.\<close>

definition events_done :: "world \<Rightarrow> nat \<Rightarrow> world" where
  "events_done w k = w\<lparr>mach := fold id (take k (sched w)) (mach w), sched := drop k (sched w)\<rparr>"

lemma any_pass:
  assumes "6 \<le> length (sched w)"
  shows "(\<exists>s w'. stats_loop (Suc n) w = Ret s w') \<or>
    stats_loop (Suc n) w = stats_loop n (events_done w 5) \<or> stats_loop (Suc n) w = stats_loop n (events_done w 6)"
proof -
  obtain e1 e2 e3 e4 e5 e6 es' where "sched w = e1 # e2 # e3 # e4 # e5 # e6 # es'"
    using assms by (auto simp: numeral_eq_Suc Suc_le_length_iff)
  then show ?thesis
    by (simp add: counter_reads events_done_def)
qed

text \<open>
  In eleven quiet events a whole pass finds room, wherever the pass before them ends.
\<close>

lemma stats_loop_returns:
  "sched w = before @ es @ rest \<Longrightarrow> high_words_stay (hart w) (fold id before (mach w)) es \<Longrightarrow>
    6 \<le> length es \<and> (before \<noteq> [] \<longrightarrow> 11 \<le> length es) \<Longrightarrow> length before < n \<Longrightarrow>
    \<exists>s w'. stats_loop n w = Ret s w'"
proof (induction n arbitrary: w before es)
  case 0
  then show ?case by simp
next
  case (Suc n)
  show ?case
  proof (cases "before = []")
    case True
    with Suc.prems quiet_pass show ?thesis by simp
  next
    case False
    then have lb: "1 \<le> length before" "11 \<le> length es"
      using Suc.prems(3) by (cases before; simp)+
    have again: "\<exists>s w'. stats_loop n (events_done w k) = Ret s w'" if k: "k \<in> {5, 6}" for k
    proof (rule Suc.IH [of "events_done w k" "drop k before" "drop (k - length before) es"])
      have z: "k - (length before + length es) = 0"
        using k lb by auto
      then show "sched (events_done w k) = drop k before @ drop (k - length before) es @ rest"
        using Suc.prems(1) by (simp add: events_done_def)
      have "fold id before (mach w) = fold id (drop k before) (fold id (take k before) (mach w))"
        by (simp flip: fold_append [THEN fun_cong, unfolded comp_def])
      moreover have "k \<le> length before \<or> drop k before = []"
        by auto
      ultimately show "high_words_stay (hart (events_done w k))
          (fold id (drop k before) (mach (events_done w k))) (drop (k - length before) es)"
        using high_words_stay_drop [OF Suc.prems(2), of "k - length before"] Suc.prems(1) z
        by (auto simp: events_done_def id_def)
    qed (use k lb Suc.prems(4) in auto)
    have "6 \<le> length (sched w)"
      using Suc.prems(1,3) by simp
    from any_pass [OF this, of n] again show ?thesis
      by auto
  qed
qed

section \<open>Printing a difference\<close>

lemma joined_int: "joined hi lo = word_of_int (uint hi * 2 ^ 32 + uint lo)"
proof -
  have "uint (joined hi lo) = uint hi * 2 ^ 32 + uint lo"
    by (simp only: uint_nat unat_joined) simp
  then show ?thesis
    by (metis word_of_int_uint)
qed

lemma joined_diff:
  "joined (eh - sh) (el - sl) = joined eh el - joined sh sl + (if el < sl then 2 ^ 32 else 0)"
proof -
  have "(18446744073709551616 :: u64) = 0"
    using word_of_int_2p_len [where 'a = 64] by simp
  then show ?thesis
    by (auto simp: joined_int uint_sub_if' word_less_def algebra_simps)
qed

lemma hex_val_append: "hex_val (xs @ ys) = hex_val xs * 16 ^ length ys + hex_val ys"
proof -
  have "foldl (\<lambda>a c. 16 * a + hex_digit_val c) a ys =
    a * 16 ^ length ys + foldl (\<lambda>a c. 16 * a + hex_digit_val c) 0 ys" for a
    by (induction ys rule: rev_induct) (simp_all add: algebra_simps)
  from this [of "foldl (\<lambda>a c. 16 * a + hex_digit_val c) 0 xs"] show ?thesis
    by (simp only: hex_val_def foldl_append)
qed

lemma hex_val_joined: "hex_val (hex_digits 8 hi @ hex_digits 8 lo) = unat (joined hi lo)"
proof -
  have "unat x mod 4294967296 = unat x" for x :: u32
    using unsigned_less [of x, where 'a = nat] by simp
  then show ?thesis
    by (simp add: hex_val_append hex_val_digits unat_joined)
qed

lemma print_hex:
  assumes "hart w < 8" "qbuf_ok (mach w)"
  shows "\<exists>w'. bnd (itoa_hex n) debug_string w = Ret () w' \<and> hart w' = hart w \<and> qbuf_ok (mach w') \<and>
    emulator_out (mach w') = emulator_out (mach w) @ hex_digits 8 n"
proof -
  have "takeWhile (\<lambda>c. c \<noteq> NUL) (hex_digits 8 n) = hex_digits 8 n"
    using NUL_notin_hex_digits [of 8 n] by (simp add: takeWhile_eq_all_conv) metis
  with assms show ?thesis
    by (auto simp: itoa_hex_run debug_string_def emulator_outputstr_def output_loop_eq qbuf_ok_def)
qed

lemma print_newline:
  "\<exists>w'. debug_string [CHR 0x0A] w = Ret () w' \<and> hart w' = hart w \<and> qbuf_ok (mach w') = qbuf_ok (mach w) \<and>
    emulator_out (mach w') = emulator_out (mach w) @ [CHR 0x0A]"
  by (simp add: debug_string_def emulator_outputstr_def output_loop_eq qbuf_ok_def)

text \<open>A thread whose cycle counter carries into the high word between the first two reads.\<close>

definition run_to :: "u64 \<Rightarrow> machine \<Rightarrow> machine" where
  "run_to c m = m\<lparr>csr_cycle := (csr_cycle m)(2 := max (csr_cycle m 2) c)\<rparr>"

definition example_counts :: world where
  "example_counts = \<lparr>hart = 2, mach = boot_machine 0x200 0x20000100 0x20000200 0x20000600,
     sched = map run_to [0xFFFFFFFF, 0x100000000, 0x100000001, 0x100000002, 0x100000003,
       0x100000004, 0x100000005, 0x100000006, 0x100000007, 0x100000008, 0x100000009, 0x10000000A,
       0x10000000B, 0x10000000C]\<rparr>"

lemma example_counts_grow: "counters_grow 2 (sched example_counts)"
  by (auto simp: counters_grow_def example_counts_def run_to_def)

lemma example_counts_run:
  "\<exists>w'. stats_get example_counts = Ret \<lparr>st_cycle = 6, st_cycleh = 1, st_instret = 0, st_instreth = 0\<rparr> w' \<and>
    csr_cycle (mach w') 2 = 0x100000009"
  by (simp add: stats_get_def example_counts_def counter_reads run_to_def boot_machine_def)

section \<open>Properties\<close>

text \<open>
  C25: \<^verbatim>\<open>stats_get\<close> reads both 64 bit counters consistently although each is read in two halves
  while it runs: the values it returns are ones the counters had between the call and the return.
  It does return: eleven consecutive reads during which no high word changes are enough, at any
  time after the call.
\<close>

theorem stats_get_consistent:
  assumes "counters_grow (hart w) (sched w)"
    and "sched w = before @ es @ rest" "length es = 11" "high_words_stay (hart w) (fold id before (mach w)) es"
  shows "\<exists>s w'. stats_get w = Ret s w' \<and> csr_cycle (mach w) (hart w) \<le> joined (st_cycleh s) (st_cycle s) \<and>
    joined (st_cycleh s) (st_cycle s) \<le> csr_cycle (mach w') (hart w) \<and>
    csr_instret (mach w) (hart w) \<le> joined (st_instreth s) (st_instret s) \<and>
    joined (st_instreth s) (st_instret s) \<le> csr_instret (mach w') (hart w)"
proof -
  obtain s w' where "stats_get w = Ret s w'"
    using stats_loop_returns [OF assms(2,4), of "Suc (length (sched w))"] assms(2,3) by (auto simp: stats_get_def)
  with stats_loop_Ret assms(1) show ?thesis
    unfolding stats_get_def read_between_def by blast
qed

theorem stats_get_consistent_witness:
  "\<exists>s w'. stats_get example_counts = Ret s w' \<and> st_cycleh s = 1 \<and>
    joined (st_cycleh s) (st_cycle s) \<le> csr_cycle (mach w') 2"
proof -
  have "counters_grow (hart example_counts) (sched example_counts)"
    using example_counts_grow by (simp add: example_counts_def)
  from stats_get_consistent [OF this, of "take 3 (sched example_counts)" "drop 3 (sched example_counts)" "[]"]
    example_counts_run show ?thesis
    by (fastforce simp: example_counts_def run_to_def boot_machine_def)
qed

text \<open>
  \<^verbatim>\<open>stats_print\<close> subtracts the two halves of the counters without a borrow: what it prints for
  a counter is the 64 bit difference only if the low word has not wrapped; otherwise it is too
  large by 2^32.
\<close>

theorem stats_print_borrow:
  assumes "hart w < 8" "qbuf_ok (mach w)"
  shows "\<exists>w' cycles instrets. stats_print s e w = Ret () w' \<and>
    emulator_out (mach w') = emulator_out (mach w) @ cycles @ [CHR 0x0A] @ instrets @ [CHR 0x0A] \<and>
    hex_val cycles = unat (joined (st_cycleh e) (st_cycle e) - joined (st_cycleh s) (st_cycle s) +
      (if st_cycle e < st_cycle s then 2 ^ 32 else 0)) \<and>
    hex_val instrets = unat (joined (st_instreth e) (st_instret e) - joined (st_instreth s) (st_instret s) +
      (if st_instret e < st_instret s then 2 ^ 32 else 0))"
proof -
  obtain w1 where w1: "bnd (itoa_hex (st_cycleh e - st_cycleh s)) debug_string w = Ret () w1" "hart w1 = hart w"
    "qbuf_ok (mach w1)" "emulator_out (mach w1) = emulator_out (mach w) @ hex_digits 8 (st_cycleh e - st_cycleh s)"
    using print_hex [OF assms] by blast
  obtain w2 where w2: "bnd (itoa_hex (st_cycle e - st_cycle s)) debug_string w1 = Ret () w2" "hart w2 = hart w"
    "qbuf_ok (mach w2)" "emulator_out (mach w2) = emulator_out (mach w1) @ hex_digits 8 (st_cycle e - st_cycle s)"
    using print_hex [of w1] w1 assms(1) by metis
  obtain w3 where w3: "debug_string [CHR 0x0A] w2 = Ret () w3" "hart w3 = hart w"
    "qbuf_ok (mach w3)" "emulator_out (mach w3) = emulator_out (mach w2) @ [CHR 0x0A]"
    using print_newline [of w2] w2 by metis
  obtain w4 where w4: "bnd (itoa_hex (st_instreth e - st_instreth s)) debug_string w3 = Ret () w4" "hart w4 = hart w"
    "qbuf_ok (mach w4)" "emulator_out (mach w4) = emulator_out (mach w3) @ hex_digits 8 (st_instreth e - st_instreth s)"
    using print_hex [of w3] w3 assms(1) by metis
  obtain w5 where w5: "bnd (itoa_hex (st_instret e - st_instret s)) debug_string w4 = Ret () w5" "hart w5 = hart w"
    "qbuf_ok (mach w5)" "emulator_out (mach w5) = emulator_out (mach w4) @ hex_digits 8 (st_instret e - st_instret s)"
    using print_hex [of w4] w4 assms(1) by metis
  obtain w6 where w6: "debug_string [CHR 0x0A] w5 = Ret () w6"
    "emulator_out (mach w6) = emulator_out (mach w5) @ [CHR 0x0A]"
    using print_newline [of w5] by metis
  let ?c = "hex_digits 8 (st_cycleh e - st_cycleh s) @ hex_digits 8 (st_cycle e - st_cycle s)"
  let ?i = "hex_digits 8 (st_instreth e - st_instreth s) @ hex_digits 8 (st_instret e - st_instret s)"
  have "stats_print s e w = Ret () w6"
    using w1(1) w2(1) w3(1) w4(1) w5(1) w6(1) by (simp add: stats_print_def)
  moreover have "emulator_out (mach w6) = emulator_out (mach w) @ ?c @ [CHR 0x0A] @ ?i @ [CHR 0x0A]"
    using w1(4) w2(4) w3(4) w4(4) w5(4) w6(2) by simp
  ultimately show ?thesis
    by (intro exI [of _ w6] exI [of _ ?c] exI [of _ ?i]) (simp only: hex_val_joined joined_diff simp_thms)
qed

theorem stats_print_borrow_witness:
  "\<exists>w' cycles instrets. stats_print \<lparr>st_cycle = 0xFFFFFFFF, st_cycleh = 0, st_instret = 0, st_instreth = 0\<rparr>
      \<lparr>st_cycle = 1, st_cycleh = 1, st_instret = 0, st_instreth = 0\<rparr> example_counts = Ret () w' \<and>
    emulator_out (mach w') = cycles @ [CHR 0x0A] @ instrets @ [CHR 0x0A] \<and>
    joined 1 1 - joined 0 0xFFFFFFFF = 2 \<and> hex_val cycles = 0x100000002"
proof -
  let ?s = "\<lparr>st_cycle = 0xFFFFFFFF, st_cycleh = 0, st_instret = 0, st_instreth = 0\<rparr>"
  let ?e = "\<lparr>st_cycle = 1, st_cycleh = 1, st_instret = 0, st_instreth = 0\<rparr>"
  have "hart example_counts < 8" "qbuf_ok (mach example_counts)"
    by (simp_all add: example_counts_def boot_machine_def qbuf_ok_def)
  from stats_print_borrow [OF this, of ?s ?e] obtain w' cycles instrets where
    "stats_print ?s ?e example_counts = Ret () w'"
    "emulator_out (mach w') = emulator_out (mach example_counts) @ cycles @ [CHR 0x0A] @ instrets @ [CHR 0x0A]"
    "hex_val cycles = unat (joined 1 1 - joined 0 0xFFFFFFFF + 2 ^ 32)"
    by auto
  moreover have "emulator_out (mach example_counts) = []"
    by (simp add: example_counts_def boot_machine_def)
  moreover have "joined 1 1 - joined 0 0xFFFFFFFF = 2"
    by (simp add: joined_int)
  ultimately show ?thesis
    by (intro exI [of _ w'] exI [of _ cycles] exI [of _ instrets]) simp
qed

end
