(* ===== verification/Main_Program.thy ===== *)
theory Main_Program
  imports Kernel
begin

text \<open>
  \<^verbatim>\<open>src/os/app/main.c\<close>: the program that runs on hardware thread 0 and, without the
  operating system, starts one benchmark on each of the other seven hardware threads, gives
  every thread one slot, and polls until all seven have returned. The addresses of the
  seven entry points, which the linker chooses, are the argument \<open>entry\<close>.
\<close>

section \<open>Operations\<close>

definition hwthread_start :: "nat \<Rightarrow> addr \<Rightarrow> addr \<Rightarrow> unit os" where
  "hwthread_start tid func stack_address =
     seqm (st_upd tid (\<lambda>st. st\<lparr>th_func := func\<rparr>))
     (whenm (stack_address \<noteq> NULL) (st_upd tid (\<lambda>st. st\<lparr>th_stack_address := stack_address\<rparr>)))"

definition hwthread_done :: "nat \<Rightarrow> u32 os" where
  "hwthread_done tid = bnd (st_get tid) (\<lambda>st. ret (if th_func st = NULL then 1 else 0))"

text \<open>The condition of the polling loop: the conjunction of the seven results.\<close>

definition all_done :: "u32 os" where
  "all_done =
     bnd (hwthread_done 1) (\<lambda>d1. bnd (hwthread_done 2) (\<lambda>d2. bnd (hwthread_done 3) (\<lambda>d3.
     bnd (hwthread_done 4) (\<lambda>d4. bnd (hwthread_done 5) (\<lambda>d5. bnd (hwthread_done 6) (\<lambda>d6.
     bnd (hwthread_done 7) (\<lambda>d7.
     ret (d1 AND d2 AND d3 AND d4 AND d5 AND d6 AND d7))))))))"

fun poll_done :: "nat \<Rightarrow> unit os" where
  "poll_done 0 = (\<lambda>w. Blocked w)"
| "poll_done (Suc n) =
     bnd all_done (\<lambda>d. if d = 0 then seqm env_step (poll_done n) else ret ())"

definition main :: "(nat \<Rightarrow> addr) \<Rightarrow> int os" where
  "main entry =
     seqm (for_each [1..<8] (\<lambda>t. hwthread_start t (entry t) NULL))
     (seqm (set_slots [0, 1, 2, 3, 4, 5, 6, 7])
     (seqm (set_tmodes [TMODE_HA, TMODE_HA, TMODE_HA, TMODE_HA, TMODE_HA, TMODE_HA, TMODE_HA, TMODE_HA])
     (seqm (\<lambda>w. poll_done (Suc (length (sched w))) w)
     (ret 0))))"

section \<open>The polling loop\<close>

definition benchmarks_done :: "machine \<Rightarrow> bool" where
  "benchmarks_done m \<longleftrightarrow> (\<forall>t \<in> {1..<8}. th_func (startup_state m t) = NULL)"

lemma all_done_app:
  "all_done w = Ret (if benchmarks_done (mach w) then 1 else 0) w"
proof -
  have "{1..<8} = {1, 2, 3, 4, 5, 6, 7 :: nat}"
    by auto
  then show ?thesis
    by (simp add: all_done_def hwthread_done_def st_get_def benchmarks_done_def)
qed

text \<open>
  The first point of the schedule at which every benchmark has returned: the machine there and
  the events that remain.
\<close>

primrec first_done ::
    "(machine \<Rightarrow> machine) list \<Rightarrow> machine \<Rightarrow> (machine \<times> (machine \<Rightarrow> machine) list) option" where
  "first_done [] m = (if benchmarks_done m then Some (m, []) else None)"
| "first_done (e # es) m = (if benchmarks_done m then Some (m, e # es) else first_done es (e m))"

lemma poll_done_run:
  "poll_done (Suc (length (sched w))) w =
    (case first_done (sched w) (mach w) of
       Some (m, es) \<Rightarrow> Ret () (w\<lparr>mach := m, sched := es\<rparr>)
     | None \<Rightarrow> Blocked (w\<lparr>mach := fold (\<lambda>e. e) (sched w) (mach w), sched := []\<rparr>))"
proof (induction "sched w" arbitrary: w)
  case Nil
  then show ?case by (cases "benchmarks_done (mach w)") (simp_all add: all_done_app)
next
  case (Cons e es)
  then show ?case
    using Cons.hyps(1) [of "w\<lparr>mach := e (mach w), sched := es\<rparr>"]
    by (cases "benchmarks_done (mach w)")
      (simp_all add: all_done_app flip: Cons.hyps(2) split: option.splits)
qed

text \<open>The machine when the polling starts: the seven functions set, a slot for each thread.\<close>

definition started :: "(nat \<Rightarrow> addr) \<Rightarrow> machine \<Rightarrow> machine" where
  "started entry m = m\<lparr>startup_state := (\<lambda>t. if 1 \<le> t \<and> t < 8
       then (startup_state m t)\<lparr>th_func := entry t\<rparr> else startup_state m t),
     csr_slots := pack_slots (map ucast ([0, 1, 2, 3, 4, 5, 6, 7] :: u8 list)), csr_tmodes := 0\<rparr>"

lemma main_eq:
  "main entry w =
    (case first_done (sched w) (started entry (mach w)) of
       Some (m, es) \<Rightarrow> Ret 0 (w\<lparr>mach := m, sched := es\<rparr>)
     | None \<Rightarrow> Blocked (w\<lparr>mach := fold (\<lambda>e. e) (sched w) (started entry (mach w)), sched := []\<rparr>))"
proof -
  have st: "for_each [1..<8] (\<lambda>t. hwthread_start t (entry t) NULL) w
      = Ret () (w\<lparr>mach := (mach w)\<lparr>startup_state := startup_state (started entry (mach w))\<rparr>\<rparr>)"
  proof -
    have u: "[1..<8] = [1, 2, 3, 4, 5, 6, 7 :: nat]"
      by (simp add: upt_rec)
    have "g(Suc 0 := h (Suc 0), 2 := h 2, 3 := h 3, 4 := h 4, 5 := h 5, 6 := h 6, 7 := h 7)
        = (\<lambda>t. if Suc 0 \<le> t \<and> t < 8 then h t else g t)" for g h :: "nat \<Rightarrow> hwthread_state"
      by (rule ext) auto
    from this [of "startup_state (mach w)" "\<lambda>t. (startup_state (mach w) t)\<lparr>th_func := entry t\<rparr>"]
    show ?thesis
      using u by (simp add: hwthread_start_def st_upd_def started_def)
  qed
  let ?w = "w\<lparr>mach := started entry (mach w)\<rparr>"
  have "main entry w = seqm (\<lambda>w. poll_done (Suc (length (sched w))) w) (ret 0) ?w"
    unfolding main_def using st by (simp add: pack_tmodes_def started_def)
  then show ?thesis
    using poll_done_run [of ?w]
    by (simp add: seqm_def bnd_def del: poll_done.simps split: option.splits prod.splits)
qed

lemma first_done_prefix:
  "benchmarks_done (fold (\<lambda>e. e) es m) \<Longrightarrow>
    (\<And>n. n < length es \<Longrightarrow> \<not> benchmarks_done (fold (\<lambda>e. e) (take n es) m)) \<Longrightarrow>
    first_done (es @ fs) m = Some (fold (\<lambda>e. e) es m, fs)"
proof (induction es arbitrary: m)
  case Nil
  then show ?case by (cases fs) simp_all
next
  case (Cons e es)
  have "\<not> benchmarks_done m"
    using Cons.prems(2) [of 0] by simp
  moreover have "\<not> benchmarks_done (fold (\<lambda>e. e) (take n es) (e m))" if "n < length es" for n
    using Cons.prems(2) [of "Suc n"] that by simp
  ultimately show ?case
    using Cons.IH [of "e m"] Cons.prems(1) by simp
qed

text \<open>
  C32: the program starts the seven benchmarks with one slot each, all threads hard and active,
  and returns 0 at the first moment at which all seven threads have cleared their function
  pointers; until then it keeps polling.
\<close>

theorem main_waits_for_benchmarks:
  defines "start \<equiv> \<lambda>entry w. started entry (mach w)"
  assumes "sched w = es @ fs" "benchmarks_done (fold (\<lambda>e. e) es (start entry w))"
    and "\<And>n. n < length es \<Longrightarrow> \<not> benchmarks_done (fold (\<lambda>e. e) (take n es) (start entry w))"
  shows "main entry w = Ret 0 (w\<lparr>mach := fold (\<lambda>e. e) es (start entry w), sched := fs\<rparr>)
    \<and> slots_of (start entry w) = [0, 1, 2, 3, 4, 5, 6, 7] \<and> tmodes_of (start entry w) = replicate 8 0
    \<and> map (\<lambda>t. th_func (startup_state (start entry w) t)) [1..<8] = map entry [1..<8]"
proof -
  have "main entry w = Ret 0 (w\<lparr>mach := fold (\<lambda>e. e) es (start entry w), sched := fs\<rparr>)"
    using first_done_prefix [of es "start entry w" fs] assms by (simp add: main_eq start_def)
  moreover have "slots_of (start entry w) = [0, 1, 2, 3, 4, 5, 6, 7]"
    by (simp add: start_def started_def slots_of_def slot_reg.unpack_pack take_bit_eq_mask mask_eq_exp_minus_1)
  moreover have "tmodes_of (start entry w) = replicate 8 0"
    by (simp add: start_def started_def tmodes_of_def unpack_tmodes_def eval_nat_numeral)
  moreover have "map (\<lambda>t. th_func (startup_state (start entry w) t)) [1..<8] = map entry [1..<8]"
    by (simp add: start_def started_def)
  ultimately show ?thesis by simp
qed

text \<open>It returns only then.\<close>

lemma first_done_Some: "first_done es m = Some (m', fs) \<Longrightarrow> benchmarks_done m'"
  by (induction es arbitrary: m) (auto split: if_splits)

lemma main_returns_done: "main entry w = Ret r w' \<Longrightarrow> r = 0 \<and> benchmarks_done (mach w')"
  by (auto simp: main_eq split: option.splits dest: first_done_Some)

theorem main_waits_for_benchmarks_witness:
  "\<exists>w'. main (\<lambda>t. 0x1000) (example_world 0 [tick 5,
      \<lambda>m. m\<lparr>startup_state := (\<lambda>t. (startup_state m t)\<lparr>th_func := NULL\<rparr>)\<rparr>, tick 7]) = Ret 0 w'
    \<and> length (sched w') = 1"
proof -
  let ?clear = "\<lambda>m. m\<lparr>startup_state := (\<lambda>t. (startup_state m t)\<lparr>th_func := NULL\<rparr>)\<rparr>"
  let ?w = "example_world 0 [tick 5, ?clear, tick 7]"
  let ?m = "started (\<lambda>t. 0x1000) (mach ?w)"
  have s: "sched ?w = [tick 5, ?clear] @ [tick 7]"
    by (simp add: example_world_def)
  have d: "benchmarks_done (fold (\<lambda>e. e) [tick 5, ?clear] ?m)"
    by (simp add: benchmarks_done_def)
  have "\<not> benchmarks_done ?m"
    by (auto simp: benchmarks_done_def started_def intro: bexI [of _ 1])
  moreover have "benchmarks_done (tick 5 ?m) \<longleftrightarrow> benchmarks_done ?m"
    by (simp add: benchmarks_done_def tick_def)
  ultimately have n: "\<not> benchmarks_done (fold (\<lambda>e. e) (take n [tick 5, ?clear]) ?m)"
    if "n < length [tick 5, ?clear]" for n
    using that by (auto simp: less_Suc_eq)
  show ?thesis
    using conjunct1 [OF main_waits_for_benchmarks [OF s d n]]
    by (intro exI conjI) (assumption, simp)
qed

end
