(* ===== verification/Benchmarks.thy ===== *)
theory Benchmarks
  imports Prelude "HOL-Library.Signed_Division" "HOL-Library.Multiset"
begin

text \<open>
  The M\"alardalen WCET programs of \<^verbatim>\<open>src/os/app\<close> that the threads run: binary search
  (\<^verbatim>\<open>bs.c\<close>), Fibonacci (\<^verbatim>\<open>fibcall.c\<close>), insertion sort (\<^verbatim>\<open>insertsort.c\<close>), Duff's device
  (\<^verbatim>\<open>duff.c\<close>), the LCD decoder (\<^verbatim>\<open>lcdnum.c\<close>), the loop macros (\<^verbatim>\<open>loop3.c\<close>) and the switch
  cascades (\<^verbatim>\<open>cover.c\<close>). C \<^verbatim>\<open>int\<close>s are \<^typ>\<open>int\<close>; no program leaves their range.
  \<open>None\<close> is an array access outside its bounds, or a loop that does not end.
\<close>

section \<open>bs.c\<close>

definition data :: "(int \<times> int) list" where
  "data = [(1, 100), (5, 200), (6, 300), (7, 700), (8, 900), (9, 250), (10, 400), (11, 600),
     (12, 800), (13, 1500), (14, 1200), (15, 110), (16, 140), (17, 133), (18, 10)]"

function search_loop :: "int \<Rightarrow> int \<Rightarrow> int \<Rightarrow> int \<Rightarrow> int option" where
  "search_loop x low up fvalue =
     (if low \<le> up then
        let mid = drop_bit 1 (low + up) in
        if mid < 0 \<or> int (length data) \<le> mid then None
        else if fst (data ! nat mid) = x then search_loop x low (low - 1) (snd (data ! nat mid))
        else if fst (data ! nat mid) > x then search_loop x low (mid - 1) fvalue
        else search_loop x (mid + 1) up fvalue
      else Some fvalue)"
  by auto

termination
  by (relation "measure (\<lambda>(x, low, up, fvalue). nat (up - low + 1))")
    (auto simp: drop_bit_eq_div)

declare search_loop.simps [simp del]

definition binary_search :: "int \<Rightarrow> int option" where
  "binary_search x = search_loop x 0 14 (- 1)"

definition bs_main :: "int option" where
  "bs_main = binary_search 8"

lemma length_data: "length data = 15"
  by (simp add: data_def)

lemma data_sorted: "sorted_wrt (<) (map fst data)"
  by (simp add: data_def)

lemma data_less: "i < j \<Longrightarrow> j < 15 \<Longrightarrow> fst (data ! i) < fst (data ! j)"
  using sorted_wrt_nth_less [OF data_sorted, of i j] by (simp add: length_data)

lemma data_lookup: "i < 15 \<Longrightarrow> map_of data (fst (data ! i)) = Some (snd (data ! i))"
proof -
  assume "i < 15"
  moreover have "distinct (map fst data)"
    using data_sorted by (metis strict_sorted_iff)
  ultimately show ?thesis
    by (intro map_of_is_SomeI) (auto simp: length_data)
qed

lemma search_loop_step:
  assumes "low \<le> up" "0 \<le> low" "up < 15" "mid = (low + up) div 2"
  shows "search_loop x low up fvalue =
    (if fst (data ! nat mid) = x then search_loop x low (low - 1) (snd (data ! nat mid))
     else if fst (data ! nat mid) > x then search_loop x low (mid - 1) fvalue
     else search_loop x (mid + 1) up fvalue)"
proof -
  have "0 \<le> mid" "mid < 15" "drop_bit 1 (low + up) = mid"
    using assms by (simp_all add: drop_bit_eq_div)
  with assms(1) show ?thesis
    by (subst search_loop.simps) (simp add: length_data Let_def)
qed

text \<open>The loop keeps every key below \<open>low\<close> smaller and every key above \<open>up\<close> larger than \<open>x\<close>.\<close>

text \<open>An element compared with the key decides about all on one side of it.\<close>

lemma data_below: "m < 15 \<Longrightarrow> x < fst (data ! m) \<Longrightarrow> m \<le> j \<Longrightarrow> j < 15 \<Longrightarrow> x < fst (data ! j)"
  using less_trans [OF _ data_less [of m j]] by (cases "j = m") auto

lemma data_above: "m < 15 \<Longrightarrow> fst (data ! m) < x \<Longrightarrow> j \<le> m \<Longrightarrow> fst (data ! j) < x"
  using less_trans [OF data_less [of j m]] by (cases "j = m") auto

lemma key_absent:
  assumes "\<And>j. j < 15 \<Longrightarrow> fst (data ! j) \<noteq> x"
  shows "map_of data x = None"
  using assms by (fastforce simp: map_of_eq_None_iff in_set_conv_nth length_data)

lemma search_loop_correct:
  assumes "0 \<le> low" "up < 15" "low \<le> up + 1"
    and "\<And>j. j < 15 \<Longrightarrow> int j < low \<Longrightarrow> fst (data ! j) < x"
    and "\<And>j. j < 15 \<Longrightarrow> up < int j \<Longrightarrow> x < fst (data ! j)"
  shows "search_loop x low up (- 1) = Some (case map_of data x of None \<Rightarrow> - 1 | Some v \<Rightarrow> v)"
  using assms
proof (induction x low up "- 1 :: int" rule: search_loop.induct)
  case (1 x low up)
  define mid where "mid = drop_bit 1 (low + up)"
  have m: "mid = (low + up) div 2"
    by (simp add: mid_def drop_bit_eq_div)
  show ?case
  proof (cases "low \<le> up")
    case True
    then have r: "low \<le> mid" "mid \<le> up" "nat mid < 15" "0 \<le> mid"
      using "1.prems" by (auto simp: m)
    consider "fst (data ! nat mid) = x" | "x < fst (data ! nat mid)" | "fst (data ! nat mid) < x"
      by arith
    then show ?thesis
    proof cases
      case 1
      then show ?thesis
        using data_lookup [OF r(3)] "1.prems"
        by (simp add: search_loop_step [OF True _ _ m] search_loop.simps [of x low "low - 1"])
    next
      case 2
      have "search_loop x low (mid - 1) (- 1) = Some (case map_of data x of None \<Rightarrow> - 1 | Some v \<Rightarrow> v)"
      proof (rule "1.hyps"(2) [OF True mid_def])
        show "x < fst (data ! j)" if "j < 15" "mid - 1 < int j" for j
          by (rule data_below [OF r(3) 2]) (use that r in auto)
      qed (use 2 r "1.prems" in \<open>auto simp: length_data\<close>)
      then show ?thesis
        using 2 "1.prems" by (simp add: search_loop_step [OF True _ _ m])
    next
      case 3
      have "search_loop x (mid + 1) up (- 1) = Some (case map_of data x of None \<Rightarrow> - 1 | Some v \<Rightarrow> v)"
      proof (rule "1.hyps"(3) [OF True mid_def])
        show "fst (data ! j) < x" if "j < 15" "int j < mid + 1" for j
          by (rule data_above [OF r(3) 3]) (use that r in auto)
      qed (use 3 r "1.prems" in \<open>auto simp: length_data\<close>)
      then show ?thesis
        using 3 "1.prems" by (simp add: search_loop_step [OF True _ _ m])
    qed
  next
    case False
    have "fst (data ! j) \<noteq> x" if "j < 15" for j
      using "1.prems"(3) "1.prems"(4,5) [OF that] False by (cases "int j < low") fastforce+
    then have "map_of data x = None"
      by (rule key_absent)
    with False show ?thesis
      by (simp add: search_loop.simps)
  qed
qed

text \<open>
  C31: the binary search returns for every key what a linear lookup in the table returns, and
  \<open>-1\<close> for a key that does not occur; it never reads outside the table.
\<close>

theorem binary_search_lookup:
  "binary_search x = Some (case map_of data x of None \<Rightarrow> - 1 | Some v \<Rightarrow> v)"
  unfolding binary_search_def by (rule search_loop_correct) auto

section \<open>fibcall.c\<close>

function fib_loop :: "int \<Rightarrow> int \<Rightarrow> int \<Rightarrow> int \<Rightarrow> int" where
  "fib_loop n i Fnew Fold =
     (if i \<le> 30 \<and> i \<le> n then
        let temp = Fnew; Fnew = Fnew + Fold; Fold = temp in fib_loop n (i + 1) Fnew Fold
      else Fnew)"
  by auto

termination
  by (relation "measure (\<lambda>(n, i, Fnew, Fold). nat (31 - i))") auto

declare fib_loop.simps [simp del]

definition fib :: "int \<Rightarrow> int" where
  "fib n = fib_loop n 2 1 0"

definition fibcall_main :: int where
  "fibcall_main = fib 30"

text \<open>The Fibonacci numbers, and what the loop computes from them.\<close>

fun fibonacci :: "nat \<Rightarrow> nat" where
  "fibonacci 0 = 0"
| "fibonacci (Suc 0) = 1"
| "fibonacci (Suc (Suc n)) = fibonacci (Suc n) + fibonacci n"

text \<open>Two successive numbers together, as the loop keeps them.\<close>

fun fibonacci_pair :: "nat \<Rightarrow> nat \<times> nat" where
  "fibonacci_pair 0 = (0, 1)"
| "fibonacci_pair (Suc n) = (case fibonacci_pair n of (a, b) \<Rightarrow> (b, a + b))"

lemma fibonacci_pair: "fibonacci_pair n = (fibonacci n, fibonacci (Suc n))"
  by (induction n) simp_all

lemma fibonacci_30: "fibonacci 30 = 832040"
proof -
  have step: "fibonacci_pair (n + 5) = (case fibonacci_pair n of (a, b) \<Rightarrow> (3 * a + 5 * b, 5 * a + 8 * b))" for n
    by (simp add: numeral_eq_Suc split: prod.splits)
  have "fibonacci_pair 30 = (832040, 1346269)"
    using step [of 0] step [of 5] step [of 10] step [of 15] step [of 20] step [of 25] by simp
  then show ?thesis
    by (simp only: fibonacci_pair prod.inject)
qed

lemma fibonacci_mono: "m \<le> n \<Longrightarrow> fibonacci m \<le> fibonacci n"
proof (induction n rule: nat_less_induct)
  case (1 n)
  show ?case
  proof (cases "m = n")
    case False
    with 1 obtain k where k: "n = Suc k" "m \<le> k"
      by (cases n) auto
    have "fibonacci k \<le> fibonacci (Suc k)"
      by (cases k) simp_all
    with 1 k show ?thesis
      by (metis le_trans lessI)
  qed simp
qed

lemma fib_loop_fibonacci:
  assumes "2 \<le> i" "i \<le> 31" "i \<le> n + 1"
  shows "fib_loop n i (int (fibonacci (nat i - 1))) (int (fibonacci (nat i - 2)))
    = int (fibonacci (nat (min 30 n)))"
  using assms
proof (induction "nat (31 - i)" arbitrary: i)
  case 0
  then show ?case by (simp add: fib_loop.simps min_def)
next
  case (Suc k)
  have shift: "fibonacci (nat i) = fibonacci (nat i - 1) + fibonacci (nat i - 2)"
    using fibonacci.simps(3) [of "nat i - 2"] Suc.prems
    by (simp add: Suc_diff_Suc numeral_2_eq_2 del: fibonacci.simps)
  show ?case
  proof (cases "i \<le> n")
    case True
    then have "fib_loop n i (int (fibonacci (nat i - 1))) (int (fibonacci (nat i - 2)))
        = fib_loop n (i + 1) (int (fibonacci (nat (i + 1) - 1))) (int (fibonacci (nat (i + 1) - 2)))"
      using Suc.hyps(2) Suc.prems
      by (subst fib_loop.simps) (auto simp: shift nat_add_distrib Let_def)
    then show ?thesis
      using Suc.hyps(1) [of "i + 1"] Suc.hyps(2) Suc.prems True by simp
  next
    case False
    with Suc.hyps(2) Suc.prems have "n = i - 1" "min 30 n = n" "nat (i - 1) = nat i - 1"
      by auto
    then show ?thesis
      by (simp add: fib_loop.simps nat_diff_distrib)
  qed
qed

text \<open>
  \<^verbatim>\<open>fib\<close> computes the Fibonacci number of its argument, cut off at 30, with \<open>fib 0 = 1\<close>; the
  result never leaves the range of \<^verbatim>\<open>int\<close>.
\<close>

theorem fib_fibonacci:
  "fib n = int (fibonacci (nat (max 1 (min 30 n)))) \<and> fib n < 2 ^ 31"
proof -
  have "fib n = int (fibonacci (nat (max 1 (min 30 n))))"
  proof (cases "1 \<le> n")
    case True
    then show ?thesis
      using fib_loop_fibonacci [of 2 n] by (simp add: fib_def max_def min_def)
  next
    case False
    then show ?thesis
      by (simp add: fib_def fib_loop.simps)
  qed
  moreover have "fibonacci (nat (max 1 (min 30 n))) \<le> fibonacci 30"
    by (rule fibonacci_mono) auto
  ultimately show ?thesis
    by (simp add: fibonacci_30)
qed

section \<open>insertsort.c\<close>

text \<open>The inner loop from index \<open>j\<close>, which compares with \<^verbatim>\<open>a[j - 1]\<close> before it looks at \<open>j\<close>.\<close>

fun sink :: "nat \<Rightarrow> u32 list \<Rightarrow> u32 list option" where
  "sink 0 a = None"
| "sink (Suc j) a =
     (if length a \<le> Suc j then None
      else if a ! Suc j < a ! j then sink j (a[Suc j := a ! j, j := a ! Suc j])
      else Some a)"

fun sort_loop :: "nat list \<Rightarrow> u32 list \<Rightarrow> u32 list option" where
  "sort_loop [] a = Some a"
| "sort_loop (i # is) a = (case sink i a of None \<Rightarrow> None | Some b \<Rightarrow> sort_loop is b)"

definition sort_array :: "u32 list \<Rightarrow> u32 list option" where
  "sort_array a = sort_loop [2..<11] a"

definition insertsort_main :: "(int \<times> u32 list) option" where
  "insertsort_main = (case sort_array [0, 11, 10, 9, 8, 7, 6, 5, 4, 3, 2] of
     None \<Rightarrow> None | Some a \<Rightarrow> Some (1, a))"

lemma sorted_unique:
  "sorted xs \<Longrightarrow> sorted ys \<Longrightarrow> mset xs = mset ys \<Longrightarrow> xs = ys"
proof -
  assume "sorted xs" "sorted ys" "mset xs = mset ys"
  then have "sort xs = xs" "sort xs = ys"
    by (auto intro: properties_for_sort)
  then show ?thesis by simp
qed

lemma insort_snoc:
  fixes x y :: "'a :: linorder"
  shows "sorted (xs @ [x]) \<Longrightarrow> insort y (xs @ [x]) = (if y < x then insort y xs @ [x] else xs @ [x, y])"
proof -
  assume s: "sorted (xs @ [x])"
  let ?ys = "if y < x then insort y xs @ [x] else xs @ [x, y]"
  have "sorted ?ys"
    using s by (auto simp: sorted_append sorted_insort set_insort_key)
  moreover have "mset ?ys = mset (insort y (xs @ [x]))"
    by simp
  moreover have "sorted (insort y (xs @ [x]))"
    using s by (simp add: sorted_insort)
  ultimately show ?thesis
    by (intro sorted_unique) simp_all
qed

text \<open>With a smallest element in front, the inner loop inserts into the sorted prefix.\<close>

lemma sink_insort:
  "sorted xs \<Longrightarrow> xs \<noteq> [] \<Longrightarrow> hd xs \<le> y \<Longrightarrow>
    sink (length xs) (xs @ y # zs) = Some (insort y xs @ zs)"
proof (induction xs arbitrary: zs rule: rev_induct)
  case (snoc x xs)
  show ?case
  proof (cases "y < x")
    case True
    then have xs: "xs \<noteq> []" "sorted xs" "hd xs \<le> y"
      using snoc.prems by (auto simp: sorted_append hd_append split: if_splits)
    have "sink (length (xs @ [x])) ((xs @ [x]) @ y # zs) = sink (length xs) (xs @ y # x # zs)"
      using True by (simp add: nth_append list_update_append)
    with snoc.IH [OF xs(2,1,3), of "x # zs"] True snoc.prems show ?thesis
      by (simp add: insort_snoc)
  next
    case False
    with snoc.prems show ?thesis
      by (simp add: nth_append insort_snoc)
  qed
qed simp

lemma sort_loop_sort:
  assumes "xs \<noteq> []" "sorted xs" "\<And>y. y \<in> set ys \<Longrightarrow> hd xs \<le> y"
  shows "sort_loop [length xs..<length xs + length ys] (xs @ ys) = Some (sort (xs @ ys))"
  using assms
proof (induction ys arbitrary: xs)
  case Nil
  then show ?case by (simp add: sorted_sort_id)
next
  case (Cons y ys)
  let ?xs = "insort y xs"
  have "hd ?xs = hd xs"
    using Cons.prems(1) Cons.prems(3) [of y] by (cases xs) auto
  moreover have "?xs \<noteq> []"
    by (cases xs) auto
  moreover have "sorted ?xs"
    using Cons.prems(2) by (simp add: sorted_insort)
  ultimately have "sort_loop [length ?xs..<length ?xs + length ys] (?xs @ ys) = Some (sort (?xs @ ys))"
    using Cons.prems(3) by (intro Cons.IH) auto
  moreover have "sort (?xs @ ys) = sort (xs @ y # ys)"
    by (intro sorted_unique) simp_all
  moreover have "[length xs..<length xs + length (y # ys)]
      = length xs # [length ?xs..<length ?xs + length ys]"
    by (simp add: upt_rec)
  ultimately show ?case
    using sink_insort [OF Cons.prems(2,1), of y ys] Cons.prems(3) by simp
qed

text \<open>
  C30: for every array of 11 elements whose first is 0, the sort returns the sorted array and
  stays inside it; \<^verbatim>\<open>insertsort_main\<close> sorts its ten values.
\<close>

theorem sort_array_sort:
  assumes "length a = 11" "a ! 0 = 0"
  shows "sort_array a = Some (sort a)
    \<and> insertsort_main = Some (1, [0, 2, 3, 4, 5, 6, 7, 8, 9, 10, 11])"
proof -
  have gen: "sort_array b = Some (sort b)" if l: "length b = 11" and z: "b ! 0 = 0" for b
  proof -
    obtain x ys where b: "b = [0, x] @ ys" "length ys = 9"
      using l z by (cases b; cases "tl b") auto
    have "sort_loop [length [0, x]..<length [0, x] + length ys] ([0, x] @ ys) = Some (sort ([0, x] @ ys))"
      by (rule sort_loop_sort) auto
    then show ?thesis
      using b by (simp add: sort_array_def numeral_2_eq_2)
  qed
  have "insertsort_main = Some (1, sort [0, 11, 10, 9, 8, 7, 6, 5, 4, 3, 2])"
    using gen [of "[0, 11, 10, 9, 8, 7, 6, 5, 4, 3, 2]"] by (simp add: insertsort_main_def)
  then show ?thesis
    using gen [OF assms] by simp
qed

theorem sort_array_sort_witness:
  "sort_array [0, 7, 7, 6, 0xFFFFFFFF, 3, 2, 9, 8, 5, 4] = Some [0, 2, 3, 4, 5, 6, 7, 7, 8, 9, 0xFFFFFFFF]"
  using sort_array_sort [of "[0, 7, 7, 6, 0xFFFFFFFF, 3, 2, 9, 8, 5, 4]"] by simp

section \<open>duff.c\<close>

definition ARRAYSIZE :: nat where
  "ARRAYSIZE = 100"

definition INVOCATION_COUNT :: int where
  "INVOCATION_COUNT = 43"

text \<open>
  \<^verbatim>\<open>*to++ = *from++\<close>: both pointers are advanced together, so one offset serves both.
  The arrays do not overlap.
\<close>

type_synonym copying = "nat \<times> u8 list"

fun copy_1 :: "u8 list \<Rightarrow> copying \<Rightarrow> copying option" where
  "copy_1 from (p, to) =
     (if p < length to \<and> p < length from then Some (Suc p, to[p := from ! p]) else None)"

text \<open>The body of the loop entered with \<open>k\<close> of its eight copies left.\<close>

fun copies :: "nat \<Rightarrow> u8 list \<Rightarrow> copying \<Rightarrow> copying option" where
  "copies 0 from c = Some c"
| "copies (Suc k) from c = (case copy_1 from c of None \<Rightarrow> None | Some d \<Rightarrow> copies k from d)"

text \<open>From the label \<open>case k\<close> to the end of the \<^verbatim>\<open>do ... while (--n > 0)\<close> loop.\<close>

function duff_loop :: "nat \<Rightarrow> int \<Rightarrow> u8 list \<Rightarrow> copying \<Rightarrow> copying option" where
  "duff_loop k n from c =
     (case copies k from c of
        None \<Rightarrow> None
      | Some d \<Rightarrow> if 0 < n - 1 then duff_loop 8 (n - 1) from d else Some d)"
  by auto

termination
  by (relation "measure (\<lambda>(k, n, from, c). nat n)") auto

declare duff_loop.simps [simp del]

definition duffcopy :: "u8 list \<Rightarrow> u8 list \<Rightarrow> int \<Rightarrow> u8 list option" where
  "duffcopy to from cnt =
     (let n = (cnt + 7) sdiv 8; r = cnt smod 8 in
      if r = 0 then map_option snd (duff_loop 8 n from (0, to))
      else if 1 \<le> r \<and> r \<le> 7 then map_option snd (duff_loop (nat r) n from (0, to))
      else Some to)"

fun init_loop :: "nat list \<Rightarrow> u8 list \<Rightarrow> int \<Rightarrow> u8 list option" where
  "init_loop [] arr len = Some arr"
| "init_loop (i # is) arr len =
     (if i < length arr then init_loop is (arr[i := word_of_int (len - int i)]) len else None)"

definition initialize :: "u8 list \<Rightarrow> int \<Rightarrow> u8 list option" where
  "initialize arr len = init_loop [0..<nat len] arr len"

text \<open>The final \<^verbatim>\<open>source\<close> and \<^verbatim>\<open>target\<close>; both are zero before.\<close>

definition duff_main :: "(u8 list \<times> u8 list) option" where
  "duff_main =
     (let target = replicate ARRAYSIZE 0 in
      case initialize (replicate ARRAYSIZE 0) (int ARRAYSIZE) of
        None \<Rightarrow> None
      | Some source \<Rightarrow> map_option (\<lambda>s. (s, target)) (duffcopy source target INVOCATION_COUNT))"

lemma copies_eq:
  "p + k \<le> length from \<Longrightarrow> p + k \<le> length to \<Longrightarrow> take p to = take p from \<Longrightarrow>
    copies k from (p, to) = Some (p + k, take (p + k) from @ drop (p + k) to)"
proof (induction k arbitrary: p to)
  case 0
  then show ?case by (metis Nat.add_0_right append_take_drop_id copies.simps(1))
next
  case (Suc k)
  have "take (Suc p) (to[p := from ! p]) = take (Suc p) from"
    using Suc.prems by (simp add: take_Suc_conv_app_nth)
  with Suc show ?case by simp
qed

lemma duff_loop_eq:
  "1 \<le> k \<Longrightarrow> p + k + 8 * (nat n - 1) \<le> length from \<Longrightarrow> p + k + 8 * (nat n - 1) \<le> length to \<Longrightarrow>
    take p to = take p from \<Longrightarrow>
    duff_loop k n from (p, to) = Some (p + k + 8 * (nat n - 1),
      take (p + k + 8 * (nat n - 1)) from @ drop (p + k + 8 * (nat n - 1)) to)"
proof (induction "nat n" arbitrary: k n p to)
  case 0
  then show ?case by (subst duff_loop.simps) (simp add: copies_eq)
next
  case (Suc m)
  let ?to = "take (p + k) from @ drop (p + k) to"
  have c: "copies k from (p, to) = Some (p + k, ?to)"
    using Suc.prems by (intro copies_eq) auto
  show ?case
  proof (cases "0 < n - 1")
    case True
    with Suc.hyps(2) have m: "m = nat (n - 1)" "nat n - 1 = Suc (nat (n - 1) - 1)"
      by auto
    have l: "length ?to = length to" "take (p + k) ?to = take (p + k) from"
      using Suc.prems by auto
    have "duff_loop 8 (n - 1) from (p + k, ?to) = Some (p + k + 8 + 8 * (nat (n - 1) - 1),
        take (p + k + 8 + 8 * (nat (n - 1) - 1)) from @ drop (p + k + 8 + 8 * (nat (n - 1) - 1)) ?to)"
      using Suc.prems m(2) l by (intro Suc.hyps(1) [OF m(1)]) auto
    with True c m(2) Suc.prems show ?thesis
      by (subst duff_loop.simps) (simp add: algebra_simps)
  next
    case False
    with Suc.hyps(2) have "nat n - 1 = 0"
      by auto
    with False c show ?thesis
      by (subst duff_loop.simps) simp
  qed
qed

lemma duff_passes:
  fixes q r :: int
  assumes "0 < c" "c = 8 * q + r" "0 \<le> r" "r < 8"
  shows "(if r = 0 then 8 else nat r) + 8 * (nat (if r = 0 then q else q + 1) - 1) = nat c"
proof (cases "r = 0")
  case True
  then have "nat c = 8 * nat q" "1 \<le> nat q"
    using assms by auto
  with True show ?thesis by simp
next
  case False
  then have "nat c = 8 * nat q + nat r" "nat (q + 1) - 1 = nat q"
    using assms by auto
  with False show ?thesis by simp
qed

lemma duffcopy_eq:
  assumes "0 < cnt" "nat cnt \<le> length from" "nat cnt \<le> length to"
  shows "duffcopy to from cnt = Some (take (nat cnt) from @ drop (nat cnt) to)"
proof -
  let ?n = "(cnt + 7) sdiv 8" and ?r = "cnt smod 8"
  have n: "?n = (cnt + 7) div 8" and r: "?r = cnt mod 8"
    using assms(1) by (simp_all add: signed_divide_int_def signed_modulo_int_def)
  define k where "k = (if ?r = 0 then 8 else nat ?r)"
  have k: "1 \<le> k" "k + 8 * (nat ?n - 1) = nat cnt"
  proof -
    show "1 \<le> k" using r by (auto simp: k_def)
    have "(cnt + 7) div 8 = (if cnt mod 8 = 0 then cnt div 8 else cnt div 8 + 1)"
      by presburger
    then show "k + 8 * (nat ?n - 1) = nat cnt"
      unfolding k_def n r using duff_passes [of cnt "cnt div 8" "cnt mod 8"] assms(1) by simp
  qed
  have "duffcopy to from cnt = map_option snd (duff_loop k ?n from (0, to))"
    using assms(1) r by (auto simp: duffcopy_def k_def Let_def)
  then show ?thesis
    using assms k(2) by (simp add: duff_loop_eq [OF k(1)])
qed

lemma duffcopy_zero:
  assumes "8 \<le> length from" "8 \<le> length to"
  shows "duffcopy to from 0 = Some (take 8 from @ drop 8 to)"
proof -
  have "(0 + 7 :: int) sdiv 8 = 0" "(0 :: int) smod 8 = 0"
    by (simp_all add: signed_divide_int_def signed_modulo_int_def)
  then show ?thesis
    using assms by (simp add: duffcopy_def duff_loop_eq)
qed

text \<open>
  For a positive count within both arrays Duff's device copies exactly that many bytes and
  leaves the rest; with the count 0 it copies eight.
\<close>

theorem duffcopy_copies:
  assumes "0 \<le> cnt" "nat cnt \<le> length from" "nat cnt \<le> length to"
    and "8 \<le> length from" "8 \<le> length to"
  shows "duffcopy to from cnt =
    (let n = if cnt = 0 then 8 else nat cnt in Some (take n from @ drop n to))"
  using assms by (simp add: duffcopy_eq duffcopy_zero Let_def)

theorem duffcopy_copies_witness:
  "duffcopy [0, 0, 0, 0, 0, 0, 0, 0, 0, 0, 0, 0] [1, 2, 3, 4, 5, 6, 7, 8, 9, 10, 11, 12] 11
    = Some [1, 2, 3, 4, 5, 6, 7, 8, 9, 10, 11, 0]
   \<and> duffcopy [0, 0, 0, 0, 0, 0, 0, 0, 0, 0] [1, 2, 3, 4, 5, 6, 7, 8, 9, 10] 0
    = Some [1, 2, 3, 4, 5, 6, 7, 8, 0, 0]"
  using duffcopy_copies [of 11 "[1, 2, 3, 4, 5, 6, 7, 8, 9, 10, 11, 12]"
      "[0, 0, 0, 0, 0, 0, 0, 0, 0, 0, 0, 0]"]
    duffcopy_copies [of 0 "[1, 2, 3, 4, 5, 6, 7, 8, 9, 10]" "[0, 0, 0, 0, 0, 0, 0, 0, 0, 0]"]
  by simp

lemma init_loop_eq:
  "p + n \<le> length arr \<Longrightarrow> init_loop [p..<p + n] arr len =
    Some (take p arr @ map (\<lambda>i. word_of_int (len - int i)) [p..<p + n] @ drop (p + n) arr)"
proof (induction n arbitrary: p arr)
  case 0
  then show ?case by simp
next
  case (Suc n)
  have "[p..<p + Suc n] = p # [Suc p..<Suc p + n]"
    by (simp add: upt_rec)
  with Suc.prems Suc.IH [of "Suc p" "arr[p := word_of_int (len - int p)]"] show ?case
    by (simp add: take_Suc_conv_app_nth)
qed

text \<open>
  The arguments of \<^verbatim>\<open>duffcopy\<close> in \<^verbatim>\<open>duff_main\<close> are the wrong way round: 43 zeros overwrite
  the start of the initialised array and \<^verbatim>\<open>target\<close> stays zero.
\<close>

lemma duff_main_eq:
  "duff_main = Some (replicate 43 0 @ map (\<lambda>i. word_of_int (100 - int i)) [43..<100], replicate 100 0)"
proof -
  let ?src = "map (\<lambda>i. word_of_int (100 - int i)) [0..<100] :: u8 list"
  have i: "initialize (replicate 100 0) 100 = Some ?src"
    using init_loop_eq [of 0 100 "replicate 100 0" 100]
    by (simp add: initialize_def del: upt_rec_numeral)
  have d: "duffcopy ?src (replicate 100 0) 43 = Some (take 43 (replicate 100 0) @ drop 43 ?src)"
    using duffcopy_eq [of 43 "replicate 100 0" ?src] by (simp del: upt_rec_numeral)
  have r: "take 43 (replicate 100 0) = (replicate 43 0 :: u8 list)"
    "drop 43 ?src = map (\<lambda>i. word_of_int (100 - int i)) [43..<100]"
    by (simp_all add: drop_map del: upt_rec_numeral)
  show ?thesis
    unfolding duff_main_def ARRAYSIZE_def INVOCATION_COUNT_def Let_def
    using i d r by (simp del: upt_rec_numeral)
qed

section \<open>lcdnum.c\<close>

fun num_to_lcd :: "u8 \<Rightarrow> u8" where
  "num_to_lcd a =
    (if a = 0x00 then 0
     else if a = 0x01 then 0x24
     else if a = 0x02 then 1 + 4 + 8 + 16 + 64
     else if a = 0x03 then 1 + 4 + 8 + 32 + 64
     else if a = 0x04 then 2 + 4 + 8 + 32
     else if a = 0x05 then 1 + 4 + 8 + 16 + 64
     else if a = 0x06 then 1 + 2 + 8 + 16 + 32 + 64
     else if a = 0x07 then 1 + 4 + 32
     else if a = 0x08 then 0x7F
     else if a = 0x09 then 0x0F + 32 + 64
     else if a = 0x0A then 0x0F + 16 + 32
     else if a = 0x0B then 2 + 8 + 16 + 32 + 64
     else if a = 0x0C then 1 + 2 + 16 + 64
     else if a = 0x0D then 4 + 8 + 16 + 32 + 64
     else if a = 0x0E then 1 + 2 + 8 + 16 + 64
     else if a = 0x0F then 1 + 2 + 8 + 16
     else 0)"

text \<open>\<open>inp i\<close> is the \<open>i\<close>th value read from the port \<^verbatim>\<open>IN\<close>; the result lists the writes to \<^verbatim>\<open>OUT\<close>.\<close>

fun scan_loop :: "(nat \<Rightarrow> u8) \<Rightarrow> nat list \<Rightarrow> u8 list" where
  "scan_loop inp [] = []"
| "scan_loop inp (i # is) =
     (let a = inp i in
      (if i < 5 then [num_to_lcd (a AND 0x0F)] else []) @ scan_loop inp is)"

definition lcdnum_main :: "(nat \<Rightarrow> u8) \<Rightarrow> int \<times> u8 list" where
  "lcdnum_main inp = (0, scan_loop inp [0..<10])"

text \<open>Only the low digit of the first five values is shown; 2 and 5 light the same segments.\<close>

lemma lcdnum_main_eq: "lcdnum_main inp = (0, map (\<lambda>i. num_to_lcd (inp i AND 15)) [0..<5])"
  by (simp add: lcdnum_main_def Let_def upt_rec del: num_to_lcd.simps)

lemma lcd_2_5: "num_to_lcd 2 = num_to_lcd 5"
  by simp

section \<open>loop3.c\<close>

text \<open>
  \<^verbatim>\<open>for (i = A; test; step) s += i\<close>; a loop whose test never fails does not return. The two
  macros differ in the direction and each has its four spellings of the loop.
\<close>

partial_function (option) for_loop :: "(int \<Rightarrow> bool) \<Rightarrow> (int \<Rightarrow> int) \<Rightarrow> int \<Rightarrow> int \<Rightarrow> int option" where
  "for_loop test step i s = (if test i then for_loop test step (step i) (s + i) else Some s)"

definition PLOOP :: "int \<Rightarrow> int \<Rightarrow> int \<Rightarrow> int \<Rightarrow> int option" where
  "PLOOP A B I s =
     Option.bind (for_loop (\<lambda>i. i < B) (\<lambda>i. i + I) A s) (\<lambda>s.
     Option.bind (for_loop (\<lambda>i. i \<le> B) (\<lambda>i. i + I) A s) (\<lambda>s.
     Option.bind (for_loop (\<lambda>i. i < B) (\<lambda>i. i - (- I)) A s) (\<lambda>s.
     for_loop (\<lambda>i. i \<le> B) (\<lambda>i. i - (- I)) A s)))"

definition MLOOP :: "int \<Rightarrow> int \<Rightarrow> int \<Rightarrow> int \<Rightarrow> int option" where
  "MLOOP A B D s =
     Option.bind (for_loop (\<lambda>i. i > B) (\<lambda>i. i - D) A s) (\<lambda>s.
     Option.bind (for_loop (\<lambda>i. i \<ge> B) (\<lambda>i. i - D) A s) (\<lambda>s.
     Option.bind (for_loop (\<lambda>i. i > B) (\<lambda>i. i + (- D)) A s) (\<lambda>s.
     for_loop (\<lambda>i. i \<ge> B) (\<lambda>i. i + (- D)) A s)))"

fun run_all :: "(int \<Rightarrow> int option) list \<Rightarrow> int \<Rightarrow> int option" where
  "run_all [] s = Some s"
| "run_all (f # fs) s = Option.bind (f s) (run_all fs)"

definition loop3_main :: "int \<Rightarrow> int option" where
  "loop3_main argc =
     (let s = 0; argc = 2 in
      run_all
       [PLOOP 0 3 1, PLOOP 1 2 1, PLOOP (- 3) (- 2) 1, PLOOP (- 4) (- 1) 1, PLOOP (- 5) 0 1,
        PLOOP (- 6) 4 1,
        PLOOP 0 3 argc, PLOOP 1 2 argc, PLOOP (- 3) (- 2) argc, PLOOP (- 4) (- 1) argc,
        PLOOP (- 5) 0 argc, PLOOP (- 6) 4 argc,
        MLOOP 5 2 1, MLOOP 6 1 1, MLOOP 7 0 1, MLOOP 8 (- 1) 1, MLOOP 9 (- 2) 1,
        MLOOP 0 (- 3) 1, MLOOP (- 1) (- 5) 1, MLOOP (- 2) (- 7) 1, MLOOP 16 (- 8) 1,
        MLOOP 5 2 argc, MLOOP 6 1 argc, MLOOP 7 0 argc, MLOOP 8 (- 1) argc, MLOOP 9 (- 2) argc,
        MLOOP 0 (- 3) argc, MLOOP (- 1) (- 5) argc, MLOOP (- 2) (- 7) argc, MLOOP 16 (- 8) argc]
       s)"

text \<open>The sum of the values a loop visits: from \<open>A\<close> in steps of \<open>I\<close>, up to \<open>B\<close>.\<close>

definition up_sum :: "int \<Rightarrow> int \<Rightarrow> int \<Rightarrow> int" where
  "up_sum A B I = (\<Sum>i \<in> {i \<in> {A..B}. I dvd i - A}. i)"

definition down_sum :: "int \<Rightarrow> int \<Rightarrow> int \<Rightarrow> int" where
  "down_sum A B D = (\<Sum>i \<in> {i \<in> {B..A}. D dvd A - i}. i)"

lemma up_sum_empty: "B < A \<Longrightarrow> up_sum A B I = 0"
  by (simp add: up_sum_def)

lemma up_sum_step:
  assumes "0 < I" "A \<le> B"
  shows "up_sum A B I = A + up_sum (A + I) B I"
proof -
  have gap: "i = A \<or> A + I \<le> i" if "A \<le> i" "I dvd i - A" for i
    using that assms(1) zdvd_imp_le [of I "i - A"] by (cases "i = A") auto
  have "{i \<in> {A..B}. I dvd i - A} = insert A {i \<in> {A + I..B}. I dvd i - (A + I)}"
    (is "_ = insert A ?S")
  proof (intro set_eqI iffI)
    fix i assume "i \<in> {i \<in> {A..B}. I dvd i - A}"
    then show "i \<in> insert A ?S"
      using gap [of i] dvd_diff [of I "i - A" I] by (auto simp: algebra_simps)
  next
    fix i assume i: "i \<in> insert A ?S"
    then show "i \<in> {i \<in> {A..B}. I dvd i - A}"
      using assms dvd_add [of I "i - (A + I)" I] by (auto simp: algebra_simps)
  qed
  moreover have "A \<notin> ?S" "finite ?S"
    using assms(1) by (auto intro: finite_subset [of _ "{A + I..B}"])
  ultimately show ?thesis
    by (simp add: up_sum_def)
qed

lemma for_up:
  assumes "0 < I"
  shows "for_loop (\<lambda>i. i \<le> B) (\<lambda>i. i + I) A s = Some (s + up_sum A B I)"
proof (induction "nat (B + 1 - A)" arbitrary: A s rule: less_induct)
  case less
  show ?case
  proof (cases "A \<le> B")
    case True
    then show ?thesis
      using less [of "A + I" "s + A"] assms
      by (subst for_loop.simps) (simp add: up_sum_step [OF assms True])
  next
    case False
    then show ?thesis
      by (subst for_loop.simps) (simp add: up_sum_empty)
  qed
qed

lemma image_uminus_iff: "(i :: int) \<in> uminus ` S \<longleftrightarrow> - i \<in> S"
  by (auto intro: image_eqI [of _ _ "- i"])

lemma down_sum_neg: "down_sum A B D = - up_sum (- A) (- B) D"
proof -
  have "{i \<in> {B..A}. D dvd A - i} = uminus ` {i \<in> {- A..- B}. D dvd i - - A}"
  proof (rule set_eqI)
    fix i
    have "i \<in> uminus ` {i \<in> {- A..- B}. D dvd i - - A} \<longleftrightarrow> - i \<in> {i \<in> {- A..- B}. D dvd i - - A}"
      by (rule image_uminus_iff)
    then show "i \<in> {i \<in> {B..A}. D dvd A - i} \<longleftrightarrow> i \<in> uminus ` {i \<in> {- A..- B}. D dvd i - - A}"
      by (simp only:) (auto simp: algebra_simps)
  qed
  then show ?thesis
    by (simp add: down_sum_def up_sum_def sum.reindex sum_negf inj_on_def)
qed

lemma down_sum_step: "0 < D \<Longrightarrow> B \<le> A \<Longrightarrow> down_sum A B D = A + down_sum (A - D) B D"
  using up_sum_step [of D "- A" "- B"] by (simp add: down_sum_neg)

lemma for_down:
  assumes "0 < D"
  shows "for_loop (\<lambda>i. B \<le> i) (\<lambda>i. i - D) A s = Some (s + down_sum A B D)"
proof (induction "nat (A + 1 - B)" arbitrary: A s rule: less_induct)
  case less
  show ?case
  proof (cases "B \<le> A")
    case True
    then show ?thesis
      using less [of "A - D" "s + A"] assms
      by (subst for_loop.simps) (simp add: down_sum_step [OF assms True])
  next
    case False
    then show ?thesis
      by (subst for_loop.simps) (simp add: down_sum_neg up_sum_empty)
  qed
qed

lemma for_up_strict:
  "0 < I \<Longrightarrow> for_loop (\<lambda>i. i < B) (\<lambda>i. i + I) A s = Some (s + up_sum A (B - 1) I)"
  using for_up [of I "B - 1" A s] by (simp add: zle_diff1_eq)

lemma for_down_strict:
  "0 < D \<Longrightarrow> for_loop (\<lambda>i. B < i) (\<lambda>i. i - D) A s = Some (s + down_sum A (B + 1) D)"
  using for_down [of D "B + 1" A s] by (simp add: add1_zle_eq)

lemma PLOOP_sum: "0 < I \<Longrightarrow> PLOOP A B I s = Some (s + 2 * up_sum A (B - 1) I + 2 * up_sum A B I)"
  by (simp add: PLOOP_def for_up for_up_strict)

lemma MLOOP_sum: "0 < D \<Longrightarrow> MLOOP A B D s = Some (s + 2 * down_sum A (B + 1) D + 2 * down_sum A B D)"
  by (simp add: MLOOP_def for_down for_down_strict)

text \<open>The argument is overwritten, so the result does not depend on it.\<close>

lemma loop3_main_eq: "loop3_main argc = loop3_main 2"
  by (simp add: loop3_main_def)

section \<open>cover.c\<close>

text \<open>
  The labels \<open>0\<close> to \<open>119\<close>, \<open>59\<close> and \<open>9\<close> of the three switches all increment, the default
  decrements.
\<close>

definition swi120_case :: "int \<Rightarrow> int \<Rightarrow> int" where
  "swi120_case i c = (if 0 \<le> i \<and> i \<le> 119 then c + 1 else c - 1)"

definition swi50_case :: "int \<Rightarrow> int \<Rightarrow> int" where
  "swi50_case i c = (if 0 \<le> i \<and> i \<le> 59 then c + 1 else c - 1)"

definition swi10_case :: "int \<Rightarrow> int \<Rightarrow> int" where
  "swi10_case i c = (if 0 \<le> i \<and> i \<le> 9 then c + 1 else c - 1)"

definition swi120 :: "int \<Rightarrow> int" where
  "swi120 c = fold (\<lambda>i. swi120_case (int i)) [0..<120] c"

definition swi50 :: "int \<Rightarrow> int" where
  "swi50 c = fold (\<lambda>i. swi50_case (int i)) [0..<50] c"

definition swi10 :: "int \<Rightarrow> int" where
  "swi10 c = fold (\<lambda>i. swi10_case (int i)) [0..<10] c"

definition cover_main :: int where
  "cover_main =
     (let cnt = 0; cnt = swi10 cnt; cnt = swi50 cnt; cnt = swi120 cnt in cnt)"

lemma fold_count:
  "(\<And>i c. i \<in> set is \<Longrightarrow> f i c = c + 1) \<Longrightarrow> fold f is c = c + int (length is)"
  by (induction "is" arbitrary: c) (simp_all add: add.assoc)

lemma swi120_eq: "swi120 c = c + 120"
  unfolding swi120_def by (subst fold_count) (auto simp: swi120_case_def)

lemma swi50_eq: "swi50 c = c + 50"
  unfolding swi50_def by (subst fold_count) (auto simp: swi50_case_def)

lemma swi10_eq: "swi10 c = c + 10"
  unfolding swi10_def by (subst fold_count) (auto simp: swi10_case_def)

lemma cover_main_eq: "cover_main = 180"
  by (simp add: cover_main_def swi120_eq swi50_eq swi10_eq)

end
