(* ===== verification/Nested_Search.thy ===== *)
theory Nested_Search
  imports Prelude
begin

text \<open>
  \<^verbatim>\<open>src/os/app/ns.c\<close>: a search through a four-dimensional table with an exit out of four
  nested loops. The initialisers are copied from the source, \<^verbatim>\<open>FIND_TARGET\<close> undefined;
  both tables have sub-arrays with fewer than five initialisers, whose rest C sets to zero.
\<close>

section \<open>The tables\<close>

definition keys_0 :: "int list list list" where
  "keys_0 =
     [[[0, 0, 0, 0, 0],
       [0, 0, 0, 0, 0],
       [0, 0, 0, 0, 0],
       [0, 0, 0, 0, 0],
       [0, 0, 0, 0, 0]],
      [[0, 0, 0, 0, 0],
       [0, 0, 0, 0, 0],
       [0, 0, 0, 0, 0],
       [0, 0, 0, 0, 0],
       [0, 0, 0, 0, 0]],
      [[0, 0, 0, 0, 0],
       [0, 0, 0, 0, 0],
       [0, 0, 0, 0, 0],
       [0, 0, 0, 0, 0],
       [0, 0, 0, 0, 0]],
      [[0, 0, 0, 0, 0],
       [0, 0, 0, 0, 0],
       [0, 0, 0, 0, 0],
       [0, 0, 0, 0, 0],
       [0, 0, 0, 0, 0]],
      [[0, 0, 0, 0, 0],
       [0, 0, 0, 0, 0],
       [0, 0, 0, 0, 0],
       [0, 0, 0, 0, 0],
       [0, 0, 0, 0, 0]]]"

definition keys_1 :: "int list list list" where
  "keys_1 =
     [[[1, 1, 1, 1, 1],
       [1, 1, 1, 1, 1],
       [1, 1, 1, 1, 1],
       [1, 1, 1, 1, 1],
       [1, 1, 1, 1, 1]],
      [[1, 1, 1, 1, 1],
       [1, 1, 1, 1, 1],
       [1, 1, 1, 1, 1],
       [1, 1, 1, 1, 1],
       [1, 1, 1, 1, 1]],
      [[1, 1, 1, 1, 1],
       [1, 1, 1, 1, 1],
       [1, 1, 1, 1, 1],
       [1, 1, 1, 1, 1],
       [1, 1, 1, 1, 1]],
      [[1, 1, 1, 1, 1],
       [1, 1, 1, 1, 1],
       [1, 1, 1, 1, 1],
       [1, 1, 1, 1, 1],
       [1, 1, 1, 1, 1]],
      [[1, 1, 1, 1, 1],
       [1, 1, 1, 1, 1],
       [1, 1, 1, 1, 1],
       [1, 1, 1, 1, 1],
       [1, 1, 1, 1, 1]]]"

definition keys_2 :: "int list list list" where
  "keys_2 =
     [[[2, 2, 2, 2, 2],
       [2, 2, 2, 2, 2],
       [2, 2, 2, 2, 2],
       [2, 2, 2, 2, 2],
       [2, 2, 2, 2, 2]],
      [[2, 2, 2, 2, 2],
       [2, 2, 2, 2, 2],
       [2, 2, 2, 2, 2],
       [2, 2, 2, 2, 2],
       [2, 2, 2, 2, 2]],
      [[2, 2, 2, 2, 2],
       [2, 2, 2, 2, 2],
       [2, 2, 2, 2, 2],
       [2, 2, 2, 2, 2],
       [2, 2, 2, 2, 2]],
      [[2, 2, 2, 2, 2],
       [2, 2, 2, 2, 2],
       [2, 2, 2, 2, 2],
       [2, 2, 2, 2, 2],
       [2, 2, 2, 2, 2]]]"

definition keys_3 :: "int list list list" where
  "keys_3 =
     [[[3, 3, 3, 3, 3],
       [3, 3, 3, 3, 3],
       [3, 3, 3, 3, 3],
       [3, 3, 3, 3, 3],
       [3, 3, 3, 3, 3]],
      [[3, 3, 3, 3, 3],
       [3, 3, 3, 3, 3],
       [3, 3, 3, 3, 3],
       [3, 3, 3, 3, 3],
       [3, 3, 3, 3, 3]],
      [[3, 3, 3, 3, 3],
       [3, 3, 3, 3, 3],
       [3, 3, 3, 3, 3],
       [3, 3, 3, 3, 3],
       [3, 3, 3, 3, 3]],
      [[3, 3, 3, 3, 3],
       [3, 3, 3, 3, 3],
       [3, 3, 3, 3, 3],
       [3, 3, 3, 3, 3],
       [3, 3, 3, 3, 3]]]"

definition keys_4 :: "int list list list" where
  "keys_4 =
     [[[4, 4, 4, 4, 4],
       [4, 4, 4, 4, 4],
       [4, 4, 4, 4, 4],
       [4, 4, 4, 4, 4],
       [4, 4, 4, 4, 4]],
      [[4, 4, 4, 4, 4],
       [4, 4, 4, 4, 4],
       [4, 4, 4, 4, 4],
       [4, 4, 4, 4, 4],
       [4, 4, 4, 4, 4]],
      [[4, 4, 4, 4, 4],
       [4, 4, 4, 4, 4],
       [4, 4, 4, 4, 4],
       [4, 4, 4, 4, 4],
       [4, 4, 4, 4, 4]],
      [[4, 4, 4, 4, 4],
       [4, 4, 4, 4, 4],
       [4, 4, 4, 4, 4],
       [4, 4, 4, 4, 4],
       [4, 4, 4, 4, 4]],
      [[4, 4, 4, 4, 4],
       [4, 4, 4, 4, 4],
       [4, 4, 4, 4, 4],
       [4, 4, 4, 4, 4],
       [4, 4, 4, 4, 401]]]"

definition keys :: "int list list list list" where
  "keys = [keys_0, keys_1, keys_2, keys_3, keys_4]"

definition answer_0 :: "int list list list" where
  "answer_0 =
     [[[123, 123, 123, 123, 123],
       [123, 123, 123, 123, 123],
       [123, 123, 123, 123, 123],
       [123, 123, 123, 123, 123],
       [123, 123, 123, 123, 123]],
      [[123, 123, 123, 123, 123],
       [123, 123, 123, 123, 123],
       [123, 123, 123, 123, 123],
       [123, 123, 123, 123, 123],
       [123, 123, 123, 123, 123]],
      [[123, 123, 123, 123, 123],
       [123, 123, 123, 123, 123],
       [123, 123, 123, 123, 123],
       [123, 123, 123, 123, 123],
       [123, 123, 123, 123, 123]],
      [[123, 123, 123, 123, 123],
       [123, 123, 123, 123, 123],
       [123, 123, 123, 123, 123],
       [123, 123, 123, 123, 123],
       [123, 123, 123, 123, 123]],
      [[123, 123, 123, 123, 123],
       [123, 123, 123, 123, 123],
       [123, 123, 123, 123, 123],
       [123, 123, 123, 123, 123],
       [123, 123, 123, 123, 123]]]"

definition answer_1 :: "int list list list" where
  "answer_1 =
     [[[234, 234, 234, 234, 234],
       [234, 234, 234, 234, 234],
       [234, 234, 234, 234, 234],
       [234, 234, 234, 234, 234],
       [234, 234, 234, 234, 234]],
      [[234, 234, 234, 234, 234],
       [234, 234, 234, 234, 234],
       [234, 234, 234, 234, 234],
       [234, 234, 234, 234, 234],
       [234, 234, 234, 234, 234]],
      [[234, 234, 234, 234, 234],
       [234, 234, 234, 234, 234],
       [234, 234, 234, 234, 234],
       [234, 234, 234, 234, 234],
       [234, 234, 234, 234, 234]],
      [[234, 234, 234, 234, 234],
       [234, 234, 234, 234, 234],
       [234, 234, 234, 234, 234],
       [234, 234, 234, 234, 234],
       [234, 234, 234, 234, 234]],
      [[234, 234, 234, 234, 234],
       [234, 234, 234, 234, 234],
       [234, 234, 234, 234, 234],
       [234, 234, 234, 234, 234],
       [234, 234, 234, 234, 234]]]"

definition answer_2 :: "int list list list" where
  "answer_2 =
     [[[345, 345, 345, 345],
       [345, 345, 345, 345],
       [345, 345, 345, 345],
       [345, 345, 345, 345],
       [345, 345, 345, 345]],
      [[345, 345, 345, 345],
       [345, 345, 345, 345],
       [345, 345, 345, 345],
       [345, 345, 345, 345],
       [345, 345, 345, 345]],
      [[345, 345, 345, 345],
       [345, 345, 345, 345],
       [345, 345, 345, 345],
       [345, 345, 345, 345],
       [345, 345, 345, 345]],
      [[345, 345, 345, 345],
       [345, 345, 345, 345],
       [345, 345, 345, 345],
       [345, 345, 345, 345],
       [345, 345, 345, 345]],
      [[345, 345, 345, 345],
       [345, 345, 345, 345],
       [345, 345, 345, 345],
       [345, 345, 345, 345],
       [345, 345, 345, 345]]]"

definition answer_3 :: "int list list list" where
  "answer_3 =
     [[[456, 456, 456, 456, 456],
       [456, 456, 456, 456, 456],
       [456, 456, 456, 456, 456],
       [456, 456, 456, 456, 456],
       [456, 456, 456, 456, 456]],
      [[456, 456, 456, 456, 456],
       [456, 456, 456, 456, 456],
       [456, 456, 456, 456, 456],
       [456, 456, 456, 456, 456],
       [456, 456, 456, 456, 456]],
      [[456, 456, 456, 456, 456],
       [456, 456, 456, 456, 456],
       [456, 456, 456, 456, 456],
       [456, 456, 456, 456, 456],
       [456, 456, 456, 456, 456]],
      [[456, 456, 456, 456, 456],
       [456, 456, 456, 456, 456],
       [456, 456, 456, 456, 456],
       [456, 456, 456, 456, 456],
       [456, 456, 456, 456, 456]],
      [[456, 456, 456, 456, 456],
       [456, 456, 456, 456, 456],
       [456, 456, 456, 456, 456],
       [456, 456, 456, 456, 456],
       [456, 456, 456, 456, 456]]]"

definition answer_4 :: "int list list list" where
  "answer_4 =
     [[[567, 567, 567, 567, 567],
       [567, 567, 567, 567, 567],
       [567, 567, 567, 567, 567],
       [567, 567, 567, 567, 567],
       [567, 567, 567, 567, 567]],
      [[567, 567, 567, 567, 567],
       [567, 567, 567, 567, 567],
       [567, 567, 567, 567, 567],
       [567, 567, 567, 567, 567],
       [567, 567, 567, 567, 567]],
      [[567, 567, 567, 567, 567],
       [567, 567, 567, 567, 567],
       [567, 567, 567, 567, 567],
       [567, 567, 567, 567, 567],
       [567, 567, 567, 567, 567]],
      [[567, 567, 567, 567, 567],
       [567, 567, 567, 567, 567],
       [567, 567, 567, 567, 567],
       [567, 567, 567, 567, 567],
       [567, 567, 567, 567, 567]],
      [[567, 567, 567, 567, 567],
       [567, 567, 567, 567, 567],
       [567, 567, 567, 567, 567],
       [567, 567, 567, 567, 567],
       [567, 567, 567, 567, 1111]]]"

definition answer :: "int list list list list" where
  "answer = [answer_0, answer_1, answer_2, answer_3, answer_4]"

section \<open>The search\<close>

text \<open>Element \<open>[i][j][k][l]\<close> of a table; what has no initialiser is zero.\<close>

definition sub_array :: "'a list list \<Rightarrow> nat \<Rightarrow> 'a list" where
  "sub_array t i = (if i < length t then t ! i else [])"

definition element :: "int list list list list \<Rightarrow> nat \<Rightarrow> nat \<Rightarrow> nat \<Rightarrow> nat \<Rightarrow> int" where
  "element t i j k l =
     (let row = sub_array (sub_array (sub_array t i) j) k in if l < length row then row ! l else 0)"

text \<open>A \<^verbatim>\<open>for\<close> loop whose body may \<^verbatim>\<open>return\<close> from the function.\<close>

fun for_return :: "(nat \<Rightarrow> int option) \<Rightarrow> nat list \<Rightarrow> int option" where
  "for_return body [] = None"
| "for_return body (i # is) =
     (case body i of Some r \<Rightarrow> Some r | None \<Rightarrow> for_return body is)"

definition foo :: "int \<Rightarrow> int" where
  "foo x =
     (case for_return (\<lambda>i. for_return (\<lambda>j. for_return (\<lambda>k. for_return (\<lambda>l.
        if element keys i j k l = x then Some (element answer i j k l + element keys i j k l)
        else None) [0..<5]) [0..<5]) [0..<5]) [0..<5] of
      Some r \<Rightarrow> r
    | None \<Rightarrow> - 1)"

definition ns_main :: int where
  "ns_main = foo 400"

lemma for_return_None: "for_return body is = None \<longleftrightarrow> (\<forall>i \<in> set is. body i = None)"
  by (induction "is") (auto split: option.splits)

text \<open>The search fails when the key does not occur.\<close>

lemma foo_absent:
  assumes "\<And>i j k l. i < 5 \<Longrightarrow> j < 5 \<Longrightarrow> k < 5 \<Longrightarrow> l < 5 \<Longrightarrow> element keys i j k l \<noteq> x"
  shows "foo x = - 1"
proof -
  have "for_return (\<lambda>i. for_return (\<lambda>j. for_return (\<lambda>k. for_return (\<lambda>l.
        if element keys i j k l = x then Some (element answer i j k l + element keys i j k l)
        else None) [0..<5]) [0..<5]) [0..<5]) [0..<5] = None"
    using assms by (simp add: for_return_None del: upt_rec_numeral)
  then show ?thesis
    by (simp add: foo_def del: upt_rec_numeral)
qed

text \<open>What the tables hold, and the answer of the search for each key.\<close>

lemmas key_tables = keys_def keys_0_def keys_1_def keys_2_def keys_3_def keys_4_def

lemma elements_set:
  "element t i j k l \<in> insert 0 (\<Union>b \<in> set t. \<Union>c \<in> set b. \<Union>d \<in> set c. set d)"
  by (auto simp: element_def sub_array_def Let_def) (meson nth_mem)+

lemma key_values: "element keys i j k l \<in> {0, 1, 2, 3, 4, 401}"
  by (rule subsetD [OF _ elements_set]) (simp add: key_tables)

lemma foo_values: "foo 0 = 123" "foo 1 = 235" "foo 2 = 347" "foo 3 = 459" "foo 4 = 571" "foo 401 = 1512"
  by code_simp+

text \<open>
  The search returns the sum of the first matching key and its answer for the six keys in
  the table, and \<open>-1\<close> for every other key; the key 400 that \<^verbatim>\<open>ns_main\<close> looks for is not one
  of them, so \<^verbatim>\<open>ns_main\<close> returns \<open>-1\<close>.
\<close>

theorem foo_table:
  "foo x = (if x = 0 then 123 else if x = 1 then 235 else if x = 2 then 347
     else if x = 3 then 459 else if x = 4 then 571 else if x = 401 then 1512 else - 1)
   \<and> ns_main = - 1"
proof -
  have a: "foo x = - 1" if "x \<notin> {0, 1, 2, 3, 4, 401}" for x
    using that key_values by (intro foo_absent) metis
  then have "ns_main = - 1"
    unfolding ns_main_def by simp
  with a foo_values show ?thesis
    by auto
qed

end
